(* ===== verification/Evdi_Prelude.thy ===== *)
theory Evdi_Prelude
  imports Main "HOL-Library.Word"
begin

text \<open>
  Shared vocabulary of the development: the C integer types as words, the error numbers the
  driver returns, the alignment macros of the kernel headers the driver uses, the bounds-checked
  view of kernel memory, and the generic list and word lemmas the component theories share.
\<close>

unbundle bit_operations_syntax

section \<open>Machine integers\<close>

text \<open>
  Signed and unsigned 32-bit C integers are both \<open>32 word\<close>: the kernel is built with
  \<open>-fno-strict-overflow\<close>, so signed arithmetic wraps like unsigned arithmetic, and a signed
  value is read with \<open>sint\<close> (and compared with \<open>\<le>s\<close>), an unsigned one with \<open>unat\<close>.
\<close>

type_synonym u8 = "8 word"
type_synonym u16 = "16 word"
type_synonym u32 = "32 word"
type_synonym s32 = "32 word"
type_synonym u64 = "64 word"

section \<open>Errors\<close>

text \<open>
  An ioctl or an internal call that returns a negative error number returns \<open>Inl\<close> of it; a
  non-negative C result is \<open>Inr\<close>.
\<close>

datatype errno =
    EINVAL | ENOMEM | EFAULT | ENODEV | EAGAIN | ENOENT | EINTR | EBUSY | ERESTARTSYS | EOTHER nat

type_synonym 'a result = "errno + 'a"

text \<open>
  An operation whose C code can dereference a NULL pointer or index outside an array returns
  \<open>Oops\<close> where it does, and \<open>Ret\<close> of its result otherwise.
\<close>

datatype 'a outcome = Oops | Ret (the_ret: 'a)

section \<open>Named theorem collections\<close>

named_theorems pixel_simps \<open>rewriting of pixel sets of rectangles\<close>
named_theorems cover_intros \<open>which operations keep damaged pixels covered\<close>
named_theorems inv_intros \<open>which operations keep the component invariants\<close>
named_theorems word_bridge \<open>reading word comparisons and conversions over nat\<close>

section \<open>Kernel macros\<close>

definition PAGE_SHIFT :: nat where
  "PAGE_SHIFT = 12"

definition PAGE_SIZE :: nat where
  "PAGE_SIZE = 4096"

text \<open>\<open>DIV_ROUND_UP\<close> and \<open>roundup\<close> on unbounded sizes, \<open>ALIGN\<close> on a 32-bit size.\<close>

definition DIV_ROUND_UP :: "nat \<Rightarrow> nat \<Rightarrow> nat" where
  "DIV_ROUND_UP n d = (n + d - 1) div d"

definition ALIGN_PAGE :: "u32 \<Rightarrow> u32" where
  "ALIGN_PAGE x = (x + 4095) AND NOT 4095"

section \<open>Kernel memory with its bounds\<close>

text \<open>
  A mapped kernel buffer is the list of its bytes. Reading \<open>len\<close> bytes at offset \<open>off\<close> is
  \<open>None\<close> when any byte lies outside the buffer, which is where the C code would read foreign
  memory.
\<close>

definition kread :: "u8 list \<Rightarrow> int \<Rightarrow> int \<Rightarrow> u8 list option" where
  "kread vm off len =
     (if 0 \<le> off \<and> 0 \<le> len \<and> off + len \<le> int (length vm)
      then Some (take (nat len) (drop (nat off) vm)) else None)"

lemma kread_Some:
  "0 \<le> off \<Longrightarrow> 0 \<le> len \<Longrightarrow> off + len \<le> int (length vm) \<Longrightarrow>
     kread vm off len = Some (take (nat len) (drop (nat off) vm))"
  by (simp add: kread_def)

lemma kread_nat: "a + n \<le> length vm \<Longrightarrow> kread vm (int a) (int n) = Some (take n (drop a vm))"
  by (simp add: kread_def flip: of_nat_add)

lemma kread_length: "kread vm off len = Some bs \<Longrightarrow> int (length bs) = len"
  by (auto simp: kread_def split: if_splits)

lemma kread_nth:
  assumes "kread vm off len = Some bs" and "i < length bs"
  shows "bs ! i = vm ! (nat off + i)"
  using assms by (auto simp: kread_def split: if_splits)

section \<open>Little-endian bytes\<close>

text \<open>The driver runs on little-endian machines: a word in memory is its bytes, lowest first.\<close>

primrec le_bytes :: "nat \<Rightarrow> 'a::len word \<Rightarrow> u8 list" where
  "le_bytes 0 w = []"
| "le_bytes (Suc n) w = ucast w # le_bytes n (drop_bit 8 w)"

primrec le_word :: "u8 list \<Rightarrow> 'a::len word" where
  "le_word [] = 0"
| "le_word (b # bs) = ucast b OR push_bit 8 (le_word bs)"

lemma length_le_bytes [simp]: "length (le_bytes n w) = n"
  by (induction n arbitrary: w) simp_all

lemma le_word_bytes: "LENGTH('a) \<le> 8 * n \<Longrightarrow> le_word (le_bytes n (w :: 'a::len word)) = w"
proof -
  have "le_word (le_bytes n w) = take_bit (8 * n) w" for n and w :: "'a word"
  proof (induction n arbitrary: w)
    case (Suc n)
    show ?case
      by (rule bit_word_eqI) (auto simp: Suc bit_simps not_less)
  qed simp
  moreover assume "LENGTH('a) \<le> 8 * n"
  ultimately show ?thesis by (simp add: take_bit_word_eq_self)
qed

section \<open>User memory\<close>

text \<open>
  User space is bytes at 64-bit addresses. \<open>copy_to_user\<close> belongs to the kernel: it is a
  parameter \<open>ctu mem addr bytes\<close>, which says whether it failed and what the memory is then. What
  the driver relies on is that it touches the addressed bytes only and that all of them are
  written when it succeeds.
\<close>

type_synonym umem = "u64 \<Rightarrow> u8"
type_synonym copy_to_user = "umem \<Rightarrow> u64 \<Rightarrow> u8 list \<Rightarrow> bool \<times> umem"

definition addressed :: "u64 \<Rightarrow> nat \<Rightarrow> u64 set" where
  "addressed addr n = (\<lambda>i. addr + of_nat i) ` {..<n}"

definition copy_to_user_ok :: "copy_to_user \<Rightarrow> bool" where
  "copy_to_user_ok ctu \<longleftrightarrow> (\<forall>mem addr bs.
     (\<forall>b. b \<notin> addressed addr (length bs) \<longrightarrow> snd (ctu mem addr bs) b = mem b) \<and>
     (\<not> fst (ctu mem addr bs) \<longrightarrow> length bs < 2 ^ 64 \<longrightarrow>
        (\<forall>i<length bs. snd (ctu mem addr bs) (addr + of_nat i) = bs ! i)))"

text \<open>A copy that never faults, and one that always does.\<close>

definition user_store :: copy_to_user where
  "user_store mem addr bs =
     (False, \<lambda>b. if unat (b - addr) < length bs then bs ! unat (b - addr) else mem b)"

definition user_fault :: copy_to_user where
  "user_fault mem addr bs = (True, mem)"

lemma user_fault_ok: "copy_to_user_ok user_fault"
  by (simp add: copy_to_user_ok_def user_fault_def)

lemma user_store_ok: "copy_to_user_ok user_store"
proof -
  have "b \<in> addressed addr n" if "unat (b - addr) < n" for b addr :: u64 and n
    using that by (auto simp: addressed_def intro!: image_eqI [of _ _ "unat (b - addr)"])
  moreover have "unat (of_nat i :: u64) = i" if "i < 2 ^ 64" for i
    using that by (simp add: unat_of_nat)
  ultimately show ?thesis by (auto simp: copy_to_user_ok_def user_store_def)
qed

lemma copy_frame:
  "copy_to_user_ok ctu \<Longrightarrow> ctu mem addr bs = (fl, mem') \<Longrightarrow> b \<notin> addressed addr (length bs) \<Longrightarrow>
     mem' b = mem b"
  unfolding copy_to_user_ok_def by (metis snd_conv)

lemma copy_written:
  "copy_to_user_ok ctu \<Longrightarrow> ctu mem addr bs = (False, mem') \<Longrightarrow> length bs < 2 ^ 64 \<Longrightarrow>
     i < length bs \<Longrightarrow> mem' (addr + of_nat i) = bs ! i"
  unfolding copy_to_user_ok_def by (metis fst_conv snd_conv)

text \<open>\<open>copy_from_user\<close>, likewise: \<open>None\<close> is a fault, otherwise it gives the bytes addressed.\<close>

type_synonym copy_from_user = "umem \<Rightarrow> u64 \<Rightarrow> nat \<Rightarrow> u8 list option"

definition copy_from_user_ok :: "copy_from_user \<Rightarrow> bool" where
  "copy_from_user_ok cfu \<longleftrightarrow> (\<forall>mem addr n bs. cfu mem addr n = Some bs \<longrightarrow>
     length bs = n \<and> (\<forall>i<n. bs ! i = mem (addr + of_nat i)))"

definition user_load :: copy_from_user where
  "user_load mem addr n = Some (map (\<lambda>i. mem (addr + of_nat i)) [0..<n])"

lemma user_load_ok: "copy_from_user_ok user_load"
  by (simp add: copy_from_user_ok_def user_load_def)

lemma copy_from_user_length: "copy_from_user_ok cfu \<Longrightarrow> cfu mem addr n = Some bs \<Longrightarrow> length bs = n"
  by (simp add: copy_from_user_ok_def)

lemma addressed_mono: "off + n \<le> m \<Longrightarrow> addressed (addr + of_nat off) n \<subseteq> addressed addr m"
proof
  fix b
  assume "off + n \<le> m" and "b \<in> addressed (addr + of_nat off) n"
  then obtain i where "i < n" and "b = addr + of_nat off + of_nat i"
    by (auto simp: addressed_def)
  then show "b \<in> addressed addr m"
    using \<open>off + n \<le> m\<close> unfolding addressed_def
    by (intro image_eqI [of _ _ "off + i"]) (simp_all add: add.assoc)
qed

section \<open>Words read as natural numbers\<close>

lemma unat_ucast_16_32 [word_bridge, simp]: "unat (ucast (x :: u16) :: u32) = unat x"
proof -
  have "unat x < 2 ^ 32"
    using unsigned_less [of x, where 'a = nat] by simp
  then show ?thesis
    by (simp add: unsigned_ucast_eq take_bit_nat_eq_self)
qed

lemma unat_16_less [word_bridge]: "unat (x :: u16) < 65536"
  using unsigned_less [of x, where 'a = nat] by simp

lemma unat_32_less [word_bridge]: "unat (x :: u32) < 4294967296"
  using unsigned_less [of x, where 'a = nat] by simp

lemma unat_min_word [word_bridge]: "unat (min a b) = min (unat a) (unat (b :: 'a::len word))"
  by (simp add: min_def word_le_nat_alt)

lemma unat_max_word [word_bridge]: "unat (max a b) = max (unat a) (unat (b :: 'a::len word))"
  by (simp add: max_def word_le_nat_alt)

lemma unat_of_nat_32: "i < 2 ^ 32 \<Longrightarrow> unat (of_nat i :: u32) = i"
  by (simp add: unat_of_nat)

lemma unat_drop_bit_div: "unat (drop_bit n (w :: 'a::len word)) = unat w div 2 ^ n"
  by (subst unat_drop_bit_eq) (rule drop_bit_eq_div)

text \<open>A 32-bit value below \<open>2 ^ 31\<close> reads the same as signed and as unsigned.\<close>

lemma sint_eq_unat:
  assumes "unat (w :: s32) < 2 ^ 31"
  shows "sint w = int (unat w)"
proof -
  have "int (unat w) < 2 ^ 31"
    using assms by (simp only: of_nat_less_numeral_power_cancel_iff)
  then have "uint w < 2 ^ 31" by simp
  moreover have "- (2 ^ 31) \<le> uint w"
    by (rule order_trans [of _ 0]) simp_all
  ultimately have "signed_take_bit 31 (uint w) = uint w"
    by (simp only: signed_take_bit_int_eq_self_iff)
  then show ?thesis by (simp add: sint_uint)
qed

lemma unat_mult_exact:
  "unat (a :: u32) * unat b < 2 ^ 32 \<Longrightarrow> unat (a * b) = unat a * unat b"
  by (simp add: unat_word_ariths)

lemma unat_add_exact:
  "unat (a :: u32) + unat b < 2 ^ 32 \<Longrightarrow> unat (a + b) = unat a + unat b"
  by (simp add: unat_word_ariths)

lemma unat_sub_exact:
  "unat (b :: u32) \<le> unat a \<Longrightarrow> unat (a - b) = unat a - unat b"
  by (simp add: unat_sub_if')

text \<open>Clearing the low bits rounds down to a multiple of the power of two.\<close>

lemma unat_and_not_mask:
  "unat (x AND NOT (mask k) :: u32) = unat x div 2 ^ k * 2 ^ k"
proof -
  let ?low = "take_bit k x"
  have "x AND NOT (mask k) = x AND NOT ?low"
    by (rule bit_eqI) (auto simp: bit_simps)
  also have "\<dots> = x - ?low"
    by (rule disjunctive_diff_eq_and_not [symmetric]) (rule bit_eqI, auto simp: bit_simps)
  finally have eq: "x AND NOT (mask k) = x - ?low" .
  have low: "unat ?low = unat x mod 2 ^ k"
    by (rule trans [OF unsigned_take_bit_eq take_bit_eq_mod])
  then have "unat ?low \<le> unat x" by simp
  then have "unat (x AND NOT (mask k)) = unat x - unat x mod 2 ^ k"
    unfolding eq by (simp add: unat_sub_exact low)
  then show ?thesis by (simp add: minus_mod_eq_div_mult)
qed

lemma unat_ALIGN_PAGE:
  assumes "unat x + 4095 < 2 ^ 32"
  shows "unat (ALIGN_PAGE x) = DIV_ROUND_UP (unat x) 4096 * 4096"
proof -
  have m: "(4095 :: u32) = mask 12" by (simp add: mask_eq_exp_minus_1)
  have "unat (x + 4095) = unat x + 4095"
    using assms by (subst unat_add_exact) simp_all
  then show ?thesis
    using unat_and_not_mask [of "x + 4095" 12]
    by (simp add: ALIGN_PAGE_def DIV_ROUND_UP_def m)
qed

lemma DIV_ROUND_UP_ge: "0 < d \<Longrightarrow> n \<le> DIV_ROUND_UP n d * d"
proof -
  assume "0 < d"
  have "n + d - 1 = (n + d - 1) div d * d + (n + d - 1) mod d" by simp
  moreover have "(n + d - 1) mod d < d" using \<open>0 < d\<close> by simp
  ultimately show ?thesis unfolding DIV_ROUND_UP_def by linarith
qed

lemma DIV_ROUND_UP_least: "0 < d \<Longrightarrow> n \<le> k * d \<Longrightarrow> DIV_ROUND_UP n d \<le> k"
proof -
  assume d: "0 < d" and "n \<le> k * d"
  then have "n + d - 1 < (k + 1) * d" by (simp add: algebra_simps)
  then show ?thesis
    using d unfolding DIV_ROUND_UP_def by (simp add: less_mult_imp_div_less less_Suc_eq_le [symmetric])
qed

section \<open>Decimal numbers\<close>

text \<open>The value of the leading digits of a string, and the digits of a number.\<close>

definition digit :: "char \<Rightarrow> nat option" where
  "digit c =
     (let n = of_char c :: nat in if 48 \<le> n \<and> n \<le> 57 then Some (n - 48) else None)"

fun digits_value :: "nat \<Rightarrow> string \<Rightarrow> nat" where
  "digits_value acc [] = acc"
| "digits_value acc (c # cs) =
     (case digit c of None \<Rightarrow> acc | Some d \<Rightarrow> digits_value (acc * 10 + d) cs)"

fun decimal :: "nat \<Rightarrow> string" where
  "decimal n = (if n < 10 then [char_of (48 + n)] else decimal (n div 10) @ [char_of (48 + n mod 10)])"

declare decimal.simps [simp del]

definition is_digit :: "char \<Rightarrow> bool" where
  "is_digit c \<longleftrightarrow> digit c \<noteq> None"

lemma digit_char_of: "d < 10 \<Longrightarrow> digit (char_of (48 + d)) = Some d"
  by (simp add: digit_def)

lemma decimal_digits: "c \<in> set (decimal n) \<Longrightarrow> is_digit c"
proof (induction n rule: decimal.induct)
  case (1 n)
  then show ?case
    by (subst (asm) decimal.simps) (auto simp: is_digit_def digit_char_of split: if_splits)
qed

lemma digits_value_append:
  "\<forall>c\<in>set xs. is_digit c \<Longrightarrow> digits_value acc (xs @ ys) = digits_value (digits_value acc xs) ys"
  by (induction xs arbitrary: acc) (auto simp: is_digit_def)

lemma digits_value_decimal: "digits_value 0 (decimal n) = n"
proof (induction n rule: decimal.induct)
  case (1 n)
  show ?case
  proof (cases "n < 10")
    case True
    then show ?thesis by (subst decimal.simps) (simp add: digit_char_of)
  next
    case False
    then have "digits_value 0 (decimal (n div 10) @ [char_of (48 + n mod 10)])
        = digits_value (n div 10) [char_of (48 + n mod 10)]"
      using 1 decimal_digits by (subst digits_value_append) simp_all
    then show ?thesis using False by (subst decimal.simps) (simp add: digit_char_of)
  qed
qed

lemma decimal_nonempty: "decimal n \<noteq> []"
  by (subst decimal.simps) simp

end
