(* ===== verification/Evdi_Rects.thy ===== *)
theory Evdi_Rects
  imports Evdi_Prelude
begin

text \<open>
  The dirty-rectangle algebra of \<open>module/evdi_painter.c\<close>: the clip rectangle, its expansion and
  area, and the two routines that shrink the array of dirty rectangles, \<open>merge_dirty_rects\<close> and
  \<open>collapse_dirty_rects\<close>. The array is a list of fixed length with a separate count, as in the C
  code; both routines meet one contract, the locale \<open>rect_reducer\<close>, under which the painter's
  clients are proved.
\<close>

section \<open>Rectangles\<close>

text \<open>\<open>struct drm_clip_rect\<close>: four unsigned shorts, the lower-right corner exclusive.\<close>

record drm_clip_rect =
  x1 :: u16
  y1 :: u16
  x2 :: u16
  y2 :: u16

definition expand_rect :: "drm_clip_rect \<Rightarrow> drm_clip_rect \<Rightarrow> drm_clip_rect" where
  "expand_rect a b =
     \<lparr>x1 = min (x1 a) (x1 b), y1 = min (y1 a) (y1 b),
      x2 = max (x2 a) (x2 b), y2 = max (y2 a) (y2 b)\<rparr>"

text \<open>The unsigned shorts are promoted to \<open>int\<close>; the product wraps in 32 bits.\<close>

definition rect_area :: "drm_clip_rect \<Rightarrow> s32" where
  "rect_area r = (ucast (x2 r) - ucast (x1 r)) * (ucast (y2 r) - ucast (y1 r))"

text \<open>The test of the merge loop: the bounding rectangle is no more pixels than the two.\<close>

definition mergeable :: "drm_clip_rect \<Rightarrow> drm_clip_rect \<Rightarrow> bool" where
  "mergeable a b \<longleftrightarrow> rect_area (expand_rect a b) \<le>s rect_area a + rect_area b"

text \<open>
  The loop body that merges entry \<open>b\<close> into entry \<open>a\<close>: the bounding rectangle goes to \<open>a\<close>, the
  last entry moves to \<open>b\<close>, the count drops by one.
\<close>

definition merge_pair ::
  "nat \<Rightarrow> nat \<Rightarrow> drm_clip_rect list \<Rightarrow> nat \<Rightarrow> drm_clip_rect list \<times> nat" where
  "merge_pair a b rects count =
     (let rects' = rects[a := expand_rect (rects ! a) (rects ! b)]
      in (rects'[b := rects' ! (count - 1)], count - 1))"

lemma snd_merge_pair [simp]: "snd (merge_pair a b rects count) = count - 1"
  by (simp add: merge_pair_def Let_def)

function merge_inner ::
  "nat \<Rightarrow> nat \<Rightarrow> drm_clip_rect list \<Rightarrow> nat \<Rightarrow> drm_clip_rect list \<times> nat" where
  "merge_inner a b rects count =
     (if b < count then
        if mergeable (rects ! a) (rects ! b)
        then merge_inner a (a + 1) (fst (merge_pair a b rects count)) (count - 1)
        else merge_inner a (b + 1) rects count
      else (rects, count))"
  by pat_completeness auto
termination
  by (relation "measures [\<lambda>(a, b, rects, count). count, \<lambda>(a, b, rects, count). count - b]") auto

declare merge_inner.simps [simp del]

lemma merge_inner_count_le: "snd (merge_inner a b rects count) \<le> count"
proof (induction a b rects count rule: merge_inner.induct)
  case (1 a b rects count)
  then show ?case
    by (auto simp: merge_inner.simps [of a b rects count] intro: order_trans)
qed

function merge_outer :: "nat \<Rightarrow> drm_clip_rect list \<Rightarrow> nat \<Rightarrow> drm_clip_rect list \<times> nat" where
  "merge_outer a rects count =
     (if a + 1 < count then
        let (rects', count') = merge_inner a (a + 1) rects count
        in merge_outer (a + 1) rects' count'
      else (rects, count))"
  by pat_completeness auto
termination
proof (relation "measure (\<lambda>(a, rects, count). count - a)", goal_cases)
  case 1
  show ?case by simp
next
  case (2 a rects count p rects' count')
  then have "count' \<le> count"
    using merge_inner_count_le [of a "a + 1" rects count] by (metis snd_conv)
  moreover from 2 have "merge_inner a (Suc a) rects count = (rects', count')" by simp
  ultimately show ?case using 2(1) by simp
qed

declare merge_outer.simps [simp del]

definition merge_dirty_rects ::
  "drm_clip_rect list \<Rightarrow> nat \<Rightarrow> drm_clip_rect list \<times> nat" where
  "merge_dirty_rects rects count = merge_outer 0 rects count"

fun collapse_loop :: "nat \<Rightarrow> drm_clip_rect list \<Rightarrow> nat \<Rightarrow> drm_clip_rect list" where
  "collapse_loop i rects 0 = rects"
| "collapse_loop i rects (Suc k) =
     collapse_loop (i + 1) (rects[0 := expand_rect (rects ! 0) (rects ! i)]) k"

text \<open>\<open>for (i = 1; i < *count; ++i)\<close> runs \<open>*count - 1\<close> times; then \<open>*count = 1\<close>.\<close>

definition collapse_dirty_rects ::
  "drm_clip_rect list \<Rightarrow> nat \<Rightarrow> drm_clip_rect list \<times> nat" where
  "collapse_dirty_rects rects count = (collapse_loop 1 rects (count - 1), 1)"

section \<open>Pixels, frames and areas\<close>

definition pixels :: "drm_clip_rect \<Rightarrow> (nat \<times> nat) set" where
  "pixels r = {unat (x1 r) ..< unat (x2 r)} \<times> {unat (y1 r) ..< unat (y2 r)}"

definition covered :: "drm_clip_rect list \<Rightarrow> nat \<Rightarrow> (nat \<times> nat) set" where
  "covered rects n = (\<Union>i<n. pixels (rects ! i))"

definition within :: "nat \<Rightarrow> nat \<Rightarrow> drm_clip_rect \<Rightarrow> bool" where
  "within w h r \<longleftrightarrow>
     x1 r \<le> x2 r \<and> unat (x2 r) \<le> w \<and> y1 r \<le> y2 r \<and> unat (y2 r) \<le> h"

definition all_within :: "nat \<Rightarrow> nat \<Rightarrow> drm_clip_rect list \<Rightarrow> nat \<Rightarrow> bool" where
  "all_within w h rects n \<longleftrightarrow> (\<forall>i<n. within w h (rects ! i))"

definition area :: "drm_clip_rect \<Rightarrow> nat" where
  "area r = (unat (x2 r) - unat (x1 r)) * (unat (y2 r) - unat (y1 r))"

definition total_area :: "drm_clip_rect list \<Rightarrow> nat \<Rightarrow> nat" where
  "total_area rects n = (\<Sum>i<n. area (rects ! i))"

lemma expand_rect_sel [simp]:
  "x1 (expand_rect a b) = min (x1 a) (x1 b)" "y1 (expand_rect a b) = min (y1 a) (y1 b)"
  "x2 (expand_rect a b) = max (x2 a) (x2 b)" "y2 (expand_rect a b) = max (y2 a) (y2 b)"
  by (simp_all add: expand_rect_def)

lemma mem_pixels [pixel_simps]:
  "(x, y) \<in> pixels r \<longleftrightarrow>
     unat (x1 r) \<le> x \<and> x < unat (x2 r) \<and> unat (y1 r) \<le> y \<and> y < unat (y2 r)"
  by (auto simp: pixels_def)

lemma pixels_expand1 [cover_intros]: "pixels a \<subseteq> pixels (expand_rect a b)"
  by (auto simp: pixel_simps word_bridge)

lemma pixels_expand2 [cover_intros]: "pixels b \<subseteq> pixels (expand_rect a b)"
  by (auto simp: pixel_simps word_bridge)

lemma within_expand [inv_intros]:
  "within w h a \<Longrightarrow> within w h b \<Longrightarrow> within w h (expand_rect a b)"
  by (auto simp: within_def min_def max_def)

lemma within_pixels: "within w h r \<Longrightarrow> pixels r \<subseteq> {..<w} \<times> {..<h}"
  by (auto simp: within_def pixels_def)

lemma card_pixels: "card (pixels r) = area r"
  by (simp add: pixels_def area_def card_cartesian_product)

lemma covered_mem: "p \<in> covered rects n \<longleftrightarrow> (\<exists>i<n. p \<in> pixels (rects ! i))"
  by (auto simp: covered_def)

lemma coveredI: "i < n \<Longrightarrow> pixels r \<subseteq> pixels (rects ! i) \<Longrightarrow> pixels r \<subseteq> covered rects n"
  by (auto simp: covered_def)

lemma covered_subsetI:
  "(\<And>i. i < n \<Longrightarrow> \<exists>j<m. pixels (rects ! i) \<subseteq> pixels (rects' ! j)) \<Longrightarrow>
     covered rects n \<subseteq> covered rects' m"
  by (fastforce simp: covered_def)

lemma covered_0 [simp]: "covered rects 0 = {}"
  by (simp add: covered_def)

lemma covered_within:
  "all_within w h rects n \<Longrightarrow> covered rects n \<subseteq> {..<w} \<times> {..<h}"
  using within_pixels by (fastforce simp: covered_def all_within_def)

lemma all_withinD: "all_within w h rects n \<Longrightarrow> i < n \<Longrightarrow> within w h (rects ! i)"
  by (simp add: all_within_def)

lemma covered_store:
  assumes "n < length rects"
  shows "covered (rects[n := r]) (n + 1) = covered rects n \<union> pixels r"
proof -
  have "(\<Union>i<n. pixels (rects[n := r] ! i)) = (\<Union>i<n. pixels (rects ! i))"
    by (rule SUP_cong) simp_all
  then show ?thesis using assms by (simp add: covered_def lessThan_Suc Un_commute)
qed

lemma all_within_store:
  "n < length rects \<Longrightarrow> all_within w h rects n \<Longrightarrow> within w h r \<Longrightarrow>
     all_within w h (rects[n := r]) (n + 1)"
  by (auto simp: all_within_def nth_list_update less_Suc_eq)

section \<open>The area is computed exactly inside a frame of the supported sizes\<close>

lemma area_le: "within w h r \<Longrightarrow> area r \<le> w * h"
  by (auto simp: within_def area_def intro!: mult_le_mono)

lemma unat_rect_area:
  assumes "within w h r" and "w * h < 2 ^ 30"
  shows "unat (rect_area r) = area r"
proof -
  have le: "unat (x1 r) \<le> unat (x2 r)" "unat (y1 r) \<le> unat (y2 r)"
    using assms(1) by (auto simp: within_def word_le_nat_alt)
  have dx: "unat (ucast (x2 r) - ucast (x1 r) :: s32) = unat (x2 r) - unat (x1 r)"
    by (subst unat_sub_exact) (use le in simp_all)
  have dy: "unat (ucast (y2 r) - ucast (y1 r) :: s32) = unat (y2 r) - unat (y1 r)"
    by (subst unat_sub_exact) (use le in simp_all)
  have "area r < 2 ^ 32"
    using area_le [OF assms(1)] assms(2) by simp
  then show ?thesis
    unfolding rect_area_def area_def
    by (subst unat_mult_exact) (simp_all only: dx dy)
qed

lemma mergeable_area:
  assumes "within w h a" and "within w h b" and "w * h < 2 ^ 30"
  shows "mergeable a b \<longleftrightarrow> area (expand_rect a b) \<le> area a + area b"
proof -
  note ua = unat_rect_area [OF assms(1) assms(3)] and ub = unat_rect_area [OF assms(2) assms(3)]
  note ue = unat_rect_area [OF within_expand [OF assms(1,2)] assms(3)]
  have small: "area a < 2 ^ 30" "area b < 2 ^ 30" "area (expand_rect a b) < 2 ^ 30"
    using area_le [OF assms(1)] area_le [OF assms(2)] area_le [OF within_expand [OF assms(1,2)]]
      assms(3) by simp_all
  have us: "unat (rect_area a + rect_area b) = area a + area b"
    by (subst unat_add_exact) (use ua ub small in simp_all)
  have "sint (rect_area a + rect_area b) = int (area a + area b)"
    by (subst sint_eq_unat) (use us small in simp_all)
  moreover have "sint (rect_area (expand_rect a b)) = int (area (expand_rect a b))"
    by (subst sint_eq_unat) (use ue small in simp_all)
  ultimately show ?thesis
    by (simp only: mergeable_def word_sle_eq of_nat_le_iff)
qed

section \<open>One merge step\<close>

lemma length_merge_pair [simp]: "length (fst (merge_pair a b rects count)) = length rects"
  by (simp add: merge_pair_def Let_def)

lemma merge_pair_nth:
  assumes "a < b" and "b < n" and "n \<le> length rects" and "i < n - Suc 0"
  shows "fst (merge_pair a b rects n) ! i =
    (if i = b then rects ! (n - Suc 0)
     else if i = a then expand_rect (rects ! a) (rects ! b) else rects ! i)"
  using assms by (auto simp: merge_pair_def Let_def nth_list_update)

lemma covered_merge_pair [cover_intros]:
  assumes "a < b" and "b < n" and "n \<le> length rects"
  shows "covered rects n \<subseteq> covered (fst (merge_pair a b rects n)) (n - Suc 0)"
proof (rule covered_subsetI)
  fix i
  assume "i < n"
  let ?r = "fst (merge_pair a b rects n)"
  have a: "?r ! a = expand_rect (rects ! a) (rects ! b)"
    using assms by (simp add: merge_pair_nth)
  consider "i = a \<or> i = b" | "i = n - Suc 0" "i \<noteq> b" | "i < n - Suc 0" "i \<noteq> a" "i \<noteq> b"
    using \<open>i < n\<close> by linarith
  then show "\<exists>j<n - Suc 0. pixels (rects ! i) \<subseteq> pixels (?r ! j)"
  proof cases
    case 1
    then have "pixels (rects ! i) \<subseteq> pixels (?r ! a)"
      unfolding a by (elim disjE) (simp_all only: pixels_expand1 pixels_expand2)
    moreover have "a < n - Suc 0" using assms by simp
    ultimately show ?thesis by blast
  next
    case 2
    then have b: "b < n - Suc 0" using assms by linarith
    then have "?r ! b = rects ! i"
      using 2(1) assms merge_pair_nth [of a b n rects b] by simp
    with b have "pixels (rects ! i) \<subseteq> pixels (?r ! b)" by simp
    with b have "b < n - Suc 0 \<and> pixels (rects ! i) \<subseteq> pixels (?r ! b)" by simp
    then show ?thesis by blast
  next
    case 3
    then have "?r ! i = rects ! i"
      using assms merge_pair_nth [of a b n rects i] by simp
    then show ?thesis using 3(1) by (intro exI [of _ i]) simp
  qed
qed

lemma all_within_merge_pair [inv_intros]:
  assumes "a < b" and "b < n" and "n \<le> length rects" and "all_within w h rects n"
  shows "all_within w h (fst (merge_pair a b rects n)) (n - Suc 0)"
  using assms by (auto simp: all_within_def merge_pair_nth intro: within_expand)

lemma total_area_split:
  assumes "a < n" and "b < n" and "a \<noteq> b"
  shows "(\<Sum>i<n :: nat. f i) = f a + f b + (\<Sum>i\<in>{..<n} - {a, b}. (f i :: nat))"
proof -
  have "(\<Sum>i<n. f i) = f a + (\<Sum>i\<in>{..<n} - {a}. f i)"
    by (rule sum.remove) (use assms in simp_all)
  also have "(\<Sum>i\<in>{..<n} - {a}. f i) = f b + (\<Sum>i\<in>{..<n} - {a} - {b}. f i)"
    using assms by (subst sum.remove [of _ b]) auto
  finally show ?thesis by (simp add: Diff_insert2 [symmetric] Diff_insert [symmetric] insert_commute)
qed

lemma total_area_merge_pair:
  assumes "a < b" and "b < n" and "n \<le> length rects"
  shows "total_area (fst (merge_pair a b rects n)) (n - Suc 0) + area (rects ! a) + area (rects ! b)
    = total_area rects n + area (expand_rect (rects ! a) (rects ! b))"
proof (cases "b = n - Suc 0")
  case True
  let ?r = "fst (merge_pair a b rects n)"
  have "(\<Sum>i<n - Suc 0. area (?r ! i))
      = area (?r ! a) + (\<Sum>i\<in>{..<n - Suc 0} - {a}. area (?r ! i))"
    using assms by (intro sum.remove) simp_all
  also have "(\<Sum>i\<in>{..<n - Suc 0} - {a}. area (?r ! i)) = (\<Sum>i\<in>{..<n} - {a, b}. area (rects ! i))"
    using assms True by (intro sum.cong) (auto simp: merge_pair_nth)
  finally show ?thesis
    using assms total_area_split [of a n b "\<lambda>i. area (rects ! i)"]
    by (simp add: total_area_def merge_pair_nth)
next
  case False
  let ?r = "fst (merge_pair a b rects n)"
  have "(\<Sum>i\<in>{..<n} - {a, b}. area (rects ! i))
      = area (rects ! (n - Suc 0)) + (\<Sum>i\<in>{..<n} - {a, b} - {n - Suc 0}. area (rects ! i))"
    using assms False by (intro sum.remove) auto
  also have "(\<Sum>i\<in>{..<n} - {a, b} - {n - Suc 0}. area (rects ! i))
      = (\<Sum>i\<in>{..<n - Suc 0} - {a, b}. area (?r ! i))"
    using assms by (intro sum.cong) (auto simp: merge_pair_nth)
  finally show ?thesis
    using assms False total_area_split [of a n b "\<lambda>i. area (rects ! i)"]
      total_area_split [of a "n - Suc 0" b "\<lambda>i. area (?r ! i)"]
    by (simp add: total_area_def merge_pair_nth)
qed

section \<open>The merge loops\<close>

text \<open>
  Whatever one merge step keeps, the two loops keep: the induction principle the facts about
  \<open>merge_dirty_rects\<close> are proved with.
\<close>

lemma merge_inner_inv:
  assumes step: "\<And>a b r m. a < b \<Longrightarrow> b < m \<Longrightarrow> mergeable (r ! a) (r ! b) \<Longrightarrow> I r m \<Longrightarrow>
      I (fst (merge_pair a b r m)) (m - Suc 0)"
  shows "a < b \<Longrightarrow> I rects n \<Longrightarrow>
      I (fst (merge_inner a b rects n)) (snd (merge_inner a b rects n))"
proof (induction a b rects n rule: merge_inner.induct)
  case (1 a b rects n)
  show ?case
  proof (cases "b < n")
    case True
    then show ?thesis
      using "1.IH" "1.prems" step [of a b n rects] by (simp add: merge_inner.simps [of a b rects n])
  next
    case False
    then show ?thesis using "1.prems" by (simp add: merge_inner.simps [of a b rects n])
  qed
qed

lemma merge_outer_inv:
  assumes step: "\<And>a b r m. a < b \<Longrightarrow> b < m \<Longrightarrow> mergeable (r ! a) (r ! b) \<Longrightarrow> I r m \<Longrightarrow>
      I (fst (merge_pair a b r m)) (m - Suc 0)"
  shows "I rects n \<Longrightarrow> I (fst (merge_outer a rects n)) (snd (merge_outer a rects n))"
proof (induction a rects n rule: merge_outer.induct)
  case (1 a rects n)
  show ?case
  proof (cases "a + 1 < n")
    case True
    obtain r m where rm: "merge_inner a (a + 1) rects n = (r, m)" by fastforce
    then have "I r m"
      using merge_inner_inv [of I a "a + 1" rects n] step "1.prems" by simp
    with True rm "1.IH" show ?thesis
      by (simp add: merge_outer.simps [of a rects n])
  next
    case False
    then show ?thesis using "1.prems" by (simp add: merge_outer.simps [of a rects n])
  qed
qed

lemma merge_dirty_rects_inv:
  assumes "\<And>a b r m. a < b \<Longrightarrow> b < m \<Longrightarrow> mergeable (r ! a) (r ! b) \<Longrightarrow> I r m \<Longrightarrow>
      I (fst (merge_pair a b r m)) (m - Suc 0)"
    and "I rects n"
  shows "I (fst (merge_dirty_rects rects n)) (snd (merge_dirty_rects rects n))"
  unfolding merge_dirty_rects_def by (rule merge_outer_inv [OF assms(1) assms(2)])

lemma length_merge [simp]: "length (fst (merge_dirty_rects rects n)) = length rects"
  by (rule merge_dirty_rects_inv [where I = "\<lambda>r m. length r = length rects"]) simp_all

lemma merge_count_le: "snd (merge_dirty_rects rects n) \<le> n"
  by (rule merge_dirty_rects_inv [where I = "\<lambda>r m. m \<le> n"]) simp_all

lemma merge_count_pos: "0 < n \<Longrightarrow> 0 < snd (merge_dirty_rects rects n)"
  by (rule merge_dirty_rects_inv [where I = "\<lambda>r m. 0 < m"]) simp_all

lemma merge_covered:
  assumes "n \<le> length rects"
  shows "covered rects n \<subseteq> covered (fst (merge_dirty_rects rects n)) (snd (merge_dirty_rects rects n))"
proof -
  let ?I = "\<lambda>r m. m \<le> length r \<and> covered rects n \<subseteq> covered r m"
  have "?I (fst (merge_dirty_rects rects n)) (snd (merge_dirty_rects rects n))"
  proof (rule merge_dirty_rects_inv [where I = ?I])
    fix a b r m
    assume "a < b" "b < m" "mergeable (r ! a) (r ! b)" "?I r m"
    then show "?I (fst (merge_pair a b r m)) (m - Suc 0)"
      using subset_trans [OF _ covered_merge_pair [of a b m r]] by auto
  qed (use assms in simp)
  then show ?thesis by simp
qed

lemma merge_all_within:
  assumes "n \<le> length rects" and "all_within w h rects n"
  shows "all_within w h (fst (merge_dirty_rects rects n)) (snd (merge_dirty_rects rects n))"
proof -
  let ?I = "\<lambda>r m. m \<le> length r \<and> all_within w h r m"
  have "?I (fst (merge_dirty_rects rects n)) (snd (merge_dirty_rects rects n))"
    by (rule merge_dirty_rects_inv [where I = ?I]) (use assms in \<open>auto simp: all_within_merge_pair\<close>)
  then show ?thesis by simp
qed

lemma merge_total_area:
  assumes "n \<le> length rects" and "all_within w h rects n" and "w * h < 2 ^ 30"
  shows "total_area (fst (merge_dirty_rects rects n)) (snd (merge_dirty_rects rects n))
      \<le> total_area rects n"
proof -
  let ?I = "\<lambda>r m. m \<le> length r \<and> all_within w h r m \<and> total_area r m \<le> total_area rects n"
  have "?I (fst (merge_dirty_rects rects n)) (snd (merge_dirty_rects rects n))"
  proof (rule merge_dirty_rects_inv [where I = ?I])
    fix a b r m
    assume ab: "a < b" "b < m" and mg: "mergeable (r ! a) (r ! b)" and I: "?I r m"
    then have "within w h (r ! a)" and "within w h (r ! b)"
      by (auto simp: all_within_def)
    with mg have "area (expand_rect (r ! a) (r ! b)) \<le> area (r ! a) + area (r ! b)"
      by (simp add: mergeable_area [OF _ _ assms(3)])
    then have "total_area (fst (merge_pair a b r m)) (m - Suc 0) \<le> total_area r m"
      using total_area_merge_pair [of a b m r] ab I by linarith
    then show "?I (fst (merge_pair a b r m)) (m - Suc 0)"
      using ab I by (auto simp: all_within_merge_pair)
  qed (use assms in simp)
  then show ?thesis by simp
qed

text \<open>
  What one run of the inner loop establishes: no later entry can still be merged into entry \<open>a\<close>.
\<close>

lemma merge_inner_unmergeable:
  assumes "a < b" and "n \<le> length rects"
    and "\<And>i. a < i \<Longrightarrow> i < b \<Longrightarrow> i < n \<Longrightarrow> \<not> mergeable (rects ! a) (rects ! i)"
    and "merge_inner a b rects n = (r, m)" and "a < i" and "i < m"
  shows "\<not> mergeable (r ! a) (r ! i)"
  using assms
proof (induction a b rects n rule: merge_inner.induct)
  case (1 a b rects n)
  show ?case
  proof (cases "b < n")
    case b: True
    show ?thesis
    proof (cases "mergeable (rects ! a) (rects ! b)")
      case True
      with b "1.prems" show ?thesis
        by (intro "1.IH"(1)) (auto simp: merge_inner.simps [of a b rects n])
    next
      case False
      with b "1.prems" show ?thesis
        by (intro "1.IH"(2)) (auto simp: merge_inner.simps [of a b rects n] less_Suc_eq)
    qed
  next
    case False
    with "1.prems" show ?thesis
      by (auto simp: merge_inner.simps [of a b rects n])
  qed
qed

section \<open>The collapse loop\<close>

lemma length_collapse_loop [simp]: "length (collapse_loop i rects k) = length rects"
  by (induction i rects k rule: collapse_loop.induct) simp_all

text \<open>The bounding rectangle of \<open>r\<close> and the rectangles of a list, by folding the expansion.\<close>

definition bounding :: "drm_clip_rect \<Rightarrow> drm_clip_rect list \<Rightarrow> drm_clip_rect" where
  "bounding r rs = fold (\<lambda>b a. expand_rect a b) rs r"

lemma bounding_simps [simp]:
  "bounding r [] = r" "bounding r (b # bs) = bounding (expand_rect r b) bs"
  by (simp_all add: bounding_def)

lemma collapse_loop_bounding:
  "0 < i \<Longrightarrow> i + k \<le> length rects \<Longrightarrow>
     collapse_loop i rects k ! 0 = bounding (rects ! 0) (take k (drop i rects))"
proof (induction i rects k rule: collapse_loop.induct)
  case (1 i rects)
  then show ?case by simp
next
  case (2 i rects k)
  then have "drop i rects = rects ! i # drop (i + 1) rects"
    by (simp add: Cons_nth_drop_Suc)
  moreover have "rects \<noteq> []" using 2 by auto
  ultimately show ?case using 2 by (simp add: drop_update_cancel)
qed

lemma pixels_bounding_acc: "pixels r \<subseteq> pixels (bounding r rs)"
proof (induction rs arbitrary: r)
  case (Cons b bs)
  then show ?case
    using subset_trans [OF pixels_expand1 [of r b] Cons.IH [of "expand_rect r b"]] by simp
qed simp

lemma pixels_bounding: "r' \<in> set rs \<Longrightarrow> pixels r' \<subseteq> pixels (bounding r rs)"
proof (induction rs arbitrary: r)
  case (Cons b bs)
  show ?case
  proof (cases "r' = b")
    case True
    then show ?thesis
      using subset_trans [OF pixels_expand2 [of b r] pixels_bounding_acc [of "expand_rect r b" bs]]
      by simp
  next
    case False
    with Cons show ?thesis by simp
  qed
qed simp

lemma within_bounding [inv_intros]:
  "within w h r \<Longrightarrow> (\<And>b. b \<in> set rs \<Longrightarrow> within w h b) \<Longrightarrow> within w h (bounding r rs)"
  by (induction rs arbitrary: r) (auto intro: within_expand)

lemma collapse_first:
  assumes "0 < n" and "n \<le> length rects"
  shows "fst (collapse_dirty_rects rects n) ! 0 = bounding (rects ! 0) (take (n - 1) (drop 1 rects))"
  using assms collapse_loop_bounding [of 1 "n - 1" rects] by (simp add: collapse_dirty_rects_def)

lemma snd_collapse [simp]: "snd (collapse_dirty_rects rects n) = 1"
  by (simp add: collapse_dirty_rects_def)

lemma length_collapse [simp]: "length (fst (collapse_dirty_rects rects n)) = length rects"
  by (simp add: collapse_dirty_rects_def)

lemma nth_in_tail:
  assumes "0 < i" and "i < n" and "n \<le> length xs"
  shows "xs ! i \<in> set (take (n - 1) (drop 1 xs))"
proof -
  have "take (n - 1) (drop 1 xs) ! (i - 1) = xs ! i"
    using assms by simp
  moreover have "i - 1 < length (take (n - 1) (drop 1 xs))"
    using assms by simp
  ultimately show ?thesis by (metis nth_mem)
qed

lemma collapse_covered:
  assumes "0 < n" and "n \<le> length rects"
  shows "covered rects n \<subseteq> covered (fst (collapse_dirty_rects rects n)) 1"
proof (rule covered_subsetI)
  fix i
  assume "i < n"
  have "pixels (rects ! i) \<subseteq> pixels (fst (collapse_dirty_rects rects n) ! 0)"
  proof (cases "i = 0")
    case True
    then show ?thesis using collapse_first [OF assms] pixels_bounding_acc by simp
  next
    case False
    then have "rects ! i \<in> set (take (n - 1) (drop 1 rects))"
      using \<open>i < n\<close> assms by (intro nth_in_tail) simp_all
    then show ?thesis using collapse_first [OF assms] pixels_bounding by simp
  qed
  then show "\<exists>j<1. pixels (rects ! i) \<subseteq> pixels (fst (collapse_dirty_rects rects n) ! j)"
    by simp
qed

lemma set_tail_nth:
  assumes "b \<in> set (take (n - 1) (drop 1 xs))" and "n \<le> length xs"
  shows "\<exists>i<n. b = xs ! i"
proof -
  obtain i where "i < n - 1" and "b = xs ! Suc i"
    using assms by (auto simp: in_set_conv_nth)
  then show ?thesis by (intro exI [of _ "Suc i"]) simp
qed

lemma collapse_all_within:
  assumes "0 < n" and "n \<le> length rects" and "all_within w h rects n"
  shows "all_within w h (fst (collapse_dirty_rects rects n)) 1"
proof -
  have "within w h (bounding (rects ! 0) (take (n - 1) (drop 1 rects)))"
    using assms set_tail_nth [of _ n rects]
    by (intro within_bounding) (auto simp: all_within_def)
  then show ?thesis using collapse_first [OF assms(1,2)] by (simp add: all_within_def)
qed

section \<open>The contract of a routine that shrinks the array\<close>

text \<open>
  \<open>evdi_painter_mark_dirty\<close> and \<open>evdi_painter_grabpix_ioctl\<close> rely on this much of the two routines:
  the array keeps its length, the count does not grow and stays positive, no damaged pixel is
  lost and no rectangle leaves the frame.
\<close>

locale rect_reducer =
  fixes reduce :: "drm_clip_rect list \<Rightarrow> nat \<Rightarrow> drm_clip_rect list \<times> nat"
  assumes reduce_length: "length (fst (reduce rects n)) = length rects"
    and reduce_le: "0 < n \<Longrightarrow> snd (reduce rects n) \<le> n"
    and reduce_pos: "0 < n \<Longrightarrow> 0 < snd (reduce rects n)"
    and reduce_covered: "0 < n \<Longrightarrow> n \<le> length rects \<Longrightarrow>
      covered rects n \<subseteq> covered (fst (reduce rects n)) (snd (reduce rects n))"
    and reduce_within: "0 < n \<Longrightarrow> n \<le> length rects \<Longrightarrow> all_within w h rects n \<Longrightarrow>
      all_within w h (fst (reduce rects n)) (snd (reduce rects n))"
begin

text \<open>A guarded call, \<open>if (count == limit) reduce(rects, &count)\<close>, meets the contract as well.\<close>

lemma guarded_covered:
  assumes "0 < n" and "n \<le> length rects"
    and "(r, m) = (if c then reduce rects n else (rects, n))"
  shows "length r = length rects \<and> 0 < m \<and> m \<le> n \<and> covered rects n \<subseteq> covered r m"
proof (cases c)
  case True
  then have "reduce rects n = (r, m)" using assms(3) by simp
  then show ?thesis
    using reduce_length [of rects n] reduce_le [OF assms(1), of rects]
      reduce_pos [OF assms(1), of rects] reduce_covered [OF assms(1,2)] by simp
next
  case False
  then show ?thesis using assms by simp
qed

lemma guarded_within:
  assumes "0 < n" and "n \<le> length rects" and "all_within w h rects n"
    and "(r, m) = (if c then reduce rects n else (rects, n))"
  shows "all_within w h r m"
  using assms reduce_within [OF assms(1-3)] by (auto split: if_splits simp: prod_eq_iff)

end

interpretation merge: rect_reducer merge_dirty_rects
  by unfold_locales (simp_all add: merge_count_le merge_count_pos merge_covered merge_all_within)

interpretation collapse: rect_reducer collapse_dirty_rects
  by unfold_locales (simp_all add: collapse_covered [simplified] collapse_all_within [simplified])

section \<open>Properties\<close>

text \<open>
  C16: merging keeps every damaged pixel, keeps the rectangles inside the frame, and never makes
  the client copy more pixels than before: the total area does not grow.
\<close>

theorem merge_never_grows:
  assumes "n \<le> length rects" and "all_within w h rects n" and "w * h < 2 ^ 30"
    and "merge_dirty_rects rects n = (rects', n')"
  shows "covered rects n \<subseteq> covered rects' n' \<and> all_within w h rects' n' \<and>
    total_area rects' n' \<le> total_area rects n \<and> n' \<le> n \<and> length rects' = length rects"
  using merge_covered [OF assms(1)] merge_all_within [OF assms(1,2)] merge_total_area [OF assms(1-3)]
    merge_count_le [of rects n] length_merge [of rects n] assms(4) by simp

theorem merge_never_grows_witness:
  "case merge_dirty_rects [\<lparr>x1 = 0, y1 = 0, x2 = 2, y2 = 2\<rparr>, \<lparr>x1 = 2, y1 = 0, x2 = 4, y2 = 2\<rparr>] 2 of
     (rects', n') \<Rightarrow> (3, 1) \<in> covered rects' n' \<and> total_area rects' n' \<le> 8"
proof -
  let ?rs = "[\<lparr>x1 = 0, y1 = 0, x2 = 2, y2 = 2\<rparr>, \<lparr>x1 = 2, y1 = 0, x2 = 4, y2 = 2\<rparr>] :: drm_clip_rect list"
  obtain r n where m: "merge_dirty_rects ?rs 2 = (r, n)" by fastforce
  have w: "all_within 1920 1080 ?rs 2"
    by (auto simp: all_within_def within_def less_2_cases_iff)
  have "(3, 1) \<in> covered ?rs 2" by (auto simp: covered_mem mem_pixels intro!: exI [of _ 1])
  moreover have "{..<2 :: nat} = {0, 1}" by auto
  then have "total_area ?rs 2 = 8" by (simp add: total_area_def area_def)
  ultimately show ?thesis using merge_never_grows [OF _ w _ m] m by auto
qed

text \<open>\<open>encloses b a\<close>: the bounds of \<open>a\<close> lie within those of \<open>b\<close>.\<close>

definition encloses :: "drm_clip_rect \<Rightarrow> drm_clip_rect \<Rightarrow> bool" where
  "encloses b a \<longleftrightarrow> x1 b \<le> x1 a \<and> y1 b \<le> y1 a \<and> x2 a \<le> x2 b \<and> y2 a \<le> y2 b"

lemma encloses_expand: "encloses c (expand_rect a b) \<longleftrightarrow> encloses c a \<and> encloses c b"
  by (auto simp: encloses_def)

lemma encloses_bounding: "encloses c (bounding r rs) \<longleftrightarrow> encloses c r \<and> (\<forall>b\<in>set rs. encloses c b)"
  by (induction rs arbitrary: r) (auto simp: encloses_expand)

text \<open>
  Collapsing leaves one rectangle, the least that encloses all of them: a rectangle encloses
  the result exactly when it encloses every rectangle of the array.
\<close>

theorem collapse_is_least_bound:
  assumes "0 < n" and "n \<le> length rects" and "collapse_dirty_rects rects n = (rects', n')"
  shows "n' = 1 \<and> (\<forall>c. encloses c (rects' ! 0) \<longleftrightarrow> (\<forall>i<n. encloses c (rects ! i)))"
proof -
  have "encloses c (rects' ! 0) \<longleftrightarrow> (\<forall>i<n. encloses c (rects ! i))" for c
  proof -
    have r: "rects' ! 0 = bounding (rects ! 0) (take (n - 1) (drop 1 rects))"
      using collapse_first [OF assms(1,2)] assms(3) by simp
    show ?thesis
    proof
      assume a: "encloses c (rects' ! 0)"
      show "\<forall>i<n. encloses c (rects ! i)"
        using a nth_in_tail [OF _ _ assms(2)] unfolding r encloses_bounding by (metis gr0I)
    next
      assume "\<forall>i<n. encloses c (rects ! i)"
      then show "encloses c (rects' ! 0)"
        using set_tail_nth [OF _ assms(2)] assms(1) unfolding r encloses_bounding by metis
    qed
  qed
  moreover have "n' = 1" using assms(3) by (simp add: collapse_dirty_rects_def)
  ultimately show ?thesis by simp
qed

theorem collapse_is_least_bound_witness:
  "encloses \<lparr>x1 = 0, y1 = 0, x2 = 4, y2 = 9\<rparr>
     (fst (collapse_dirty_rects [\<lparr>x1 = 0, y1 = 3, x2 = 2, y2 = 9\<rparr>, \<lparr>x1 = 2, y1 = 0, x2 = 4, y2 = 2\<rparr>] 2) ! 0)"
proof -
  let ?rs = "[\<lparr>x1 = 0, y1 = 3, x2 = 2, y2 = 9\<rparr>, \<lparr>x1 = 2, y1 = 0, x2 = 4, y2 = 2\<rparr>] :: drm_clip_rect list"
  let ?c = "\<lparr>x1 = 0, y1 = 0, x2 = 4, y2 = 9\<rparr> :: drm_clip_rect"
  obtain r n where m: "collapse_dirty_rects ?rs 2 = (r, n)" by fastforce
  have "\<forall>i<2. encloses ?c (?rs ! i)" by (auto simp: encloses_def less_2_cases_iff)
  moreover have "(0 :: nat) < 2" "2 \<le> length ?rs" by simp_all
  ultimately show ?thesis using collapse_is_least_bound [OF _ _ m] m by simp
qed

text \<open>
  After the merge has worked on entry \<open>a\<close>, no later entry can be merged into it any more
  without growing the area.
\<close>

theorem merge_inner_saturates:
  assumes "n \<le> length rects" and "merge_inner a (a + 1) rects n = (rects', n')"
    and "a < i" and "i < n'"
  shows "\<not> mergeable (rects' ! a) (rects' ! i)"
  by (rule merge_inner_unmergeable [OF _ assms(1) _ assms(2-4)]) simp_all

theorem merge_inner_saturates_witness:
  "case merge_inner 0 1 [\<lparr>x1 = 0, y1 = 0, x2 = 2, y2 = 2\<rparr>, \<lparr>x1 = 8, y1 = 8, x2 = 9, y2 = 9\<rparr>] 2 of
     (rects', n') \<Rightarrow> 1 < n' \<and> \<not> mergeable (rects' ! 0) (rects' ! 1)"
proof -
  let ?rs = "[\<lparr>x1 = 0, y1 = 0, x2 = 2, y2 = 2\<rparr>, \<lparr>x1 = 8, y1 = 8, x2 = 9, y2 = 9\<rparr>] :: drm_clip_rect list"
  obtain r n where m: "merge_inner 0 (0 + 1) ?rs 2 = (r, n)" by fastforce
  have "\<not> mergeable (?rs ! 0) (?rs ! 1)"
    by (simp add: mergeable_def rect_area_def expand_rect_def word_sle_eq)
  then have "n = 2"
    using m merge_inner.simps [of 0 1 ?rs 2] merge_inner.simps [of 0 "Suc (Suc 0)" ?rs 2] by simp
  then show ?thesis using merge_inner_saturates [OF _ m, of 1] m by simp
qed

end
