(* ===== verification/Evdi_Gem.thy ===== *)
theory Evdi_Gem
  imports Evdi_Prelude
begin

text \<open>
  GEM buffer objects, \<open>module/evdi_gem.c\<close>: allocation and dumb buffers, the pinned page array, the
  kernel mapping, faults, imports and the release of an object. What the DRM core and the memory
  manager answer (a page array, a mapping, a handle, an error) is an argument of the operation
  that asks; what the driver hands back to them is recorded in the object's log, in call order.
\<close>

section \<open>Objects\<close>

text \<open>The parts of \<open>struct dma_buf\<close> the driver reads.\<close>

record dma_buf =
  ops_vmap_is_drm :: bool \<comment> \<open>\<open>ops->vmap == drm_gem_dmabuf_vmap\<close>\<close>
  owner :: "string option" \<comment> \<open>\<open>owner->name\<close>, \<open>None\<close> for a NULL owner\<close>
  priv_has_funcs :: bool \<comment> \<open>\<open>priv\<close> and \<open>priv->funcs\<close> are not NULL\<close>
  priv_vmap_null :: bool \<comment> \<open>\<open>priv->funcs->vmap == NULL\<close>\<close>
  buf_size :: nat

datatype gem_call =
    GetPages | KvmallocArray | DrmPutPages | KvfreePages
  | Vmap | Vunmap | DmaVmap | DmaVunmap
  | PrimeGemDestroy | FreeMmapOffset | ObjectRelease | KfreeObject

record evdi_gem_object =
  gem_size :: nat
  pages :: "nat list option"
  pages_pin_count :: u32
  vmapping :: "u8 list option"
  vmap_is_iomem :: bool
  import_attach :: "dma_buf option"
  sg :: bool
  allow_sw_cursor_rect_updates :: bool
  gem_log :: "gem_call list"

definition gem_emit :: "gem_call \<Rightarrow> evdi_gem_object \<Rightarrow> evdi_gem_object" where
  "gem_emit c obj = obj\<lparr>gem_log := gem_log obj @ [c]\<rparr>"

definition evdi_was_called_by_mutter :: "string \<Rightarrow> bool" where
  "evdi_was_called_by_mutter task_comm \<longleftrightarrow> task_comm = ''gnome-shell''"

definition evdi_drm_gem_object_use_import_attach :: "evdi_gem_object \<Rightarrow> bool" where
  "evdi_drm_gem_object_use_import_attach obj =
     (case import_attach obj of
        None \<Rightarrow> False
      | Some dmabuf \<Rightarrow>
          (case owner dmabuf of None \<Rightarrow> False | Some name \<Rightarrow> name \<noteq> ''amdgpu''))"

text \<open>
  \<open>idr_for_each_entry\<close> walks the file's handle table, here the list of its entries; after a full
  walk the iterator object is NULL and the answer is 0.
\<close>

fun evdi_gem_object_handle_lookup :: "(u32 \<times> nat) list \<Rightarrow> nat \<Rightarrow> u32" where
  "evdi_gem_object_handle_lookup [] obj = 0"
| "evdi_gem_object_handle_lookup ((it_handle, it_obj) # rest) obj =
     (if it_obj = obj then it_handle else evdi_gem_object_handle_lookup rest obj)"

text \<open>\<open>kzalloc\<close> zeroes the object; \<open>ok\<close> says both allocations succeeded.\<close>

definition evdi_gem_alloc_object :: "bool \<Rightarrow> nat \<Rightarrow> evdi_gem_object option" where
  "evdi_gem_alloc_object ok sz =
     (if \<not> ok then None
      else Some \<lparr>gem_size = sz, pages = None, pages_pin_count = 0, vmapping = None,
                 vmap_is_iomem = False, import_attach = None, sg = False,
                 allow_sw_cursor_rect_updates = False, gem_log = []\<rparr>)"

section \<open>Dumb buffers\<close>

definition roundup_page :: "u64 \<Rightarrow> u64" where
  "roundup_page sz = ((sz + 4095) div 4096) * 4096"

text \<open>The object and its handle; \<open>handle_create\<close> is the answer of \<open>drm_gem_handle_create\<close>.\<close>

definition evdi_gem_create ::
  "bool \<Rightarrow> string \<Rightarrow> u32 result \<Rightarrow> u64 \<Rightarrow> (evdi_gem_object \<times> u32) result" where
  "evdi_gem_create ok task_comm handle_create sz =
     (case evdi_gem_alloc_object ok (unat (roundup_page sz)) of
        None \<Rightarrow> Inl ENOMEM
      | Some obj \<Rightarrow>
          (case handle_create of
             Inl ret \<Rightarrow> Inl ret
           | Inr handle \<Rightarrow>
               Inr (obj\<lparr>allow_sw_cursor_rect_updates := evdi_was_called_by_mutter task_comm\<rparr>,
                    handle)))"

definition pitch_mask :: "s32 \<Rightarrow> s32" where
  "pitch_mask cpp =
     (if cpp = 1 then 255 else if cpp = 2 then 127 else if cpp = 3 \<or> cpp = 4 then 63 else 0)"

definition evdi_align_pitch :: "s32 \<Rightarrow> s32 \<Rightarrow> s32" where
  "evdi_align_pitch width cpp = ((width + pitch_mask cpp) AND NOT (pitch_mask cpp)) * cpp"

text \<open>
  \<open>struct drm_mode_create_dumb\<close>: width, height and bits per pixel in, pitch and size out. Pitch
  and height are 32-bit, so their product is computed in 32 bits before it is widened.
\<close>

definition dumb_pitch :: "u32 \<Rightarrow> u32 \<Rightarrow> u32" where
  "dumb_pitch width bpp = evdi_align_pitch width ((bpp + 7) div 8)"

definition dumb_size :: "u32 \<Rightarrow> u32 \<Rightarrow> u32 \<Rightarrow> u64" where
  "dumb_size width height bpp = ucast (dumb_pitch width bpp * height)"

definition evdi_dumb_create ::
  "bool \<Rightarrow> string \<Rightarrow> u32 result \<Rightarrow> u32 \<Rightarrow> u32 \<Rightarrow> u32 \<Rightarrow>
     (evdi_gem_object \<times> u32 \<times> u32 \<times> u64) result" where
  "evdi_dumb_create ok task_comm handle_create width height bpp =
     (case evdi_gem_create ok task_comm handle_create (dumb_size width height bpp) of
        Inl ret \<Rightarrow> Inl ret
      | Inr (obj, handle) \<Rightarrow>
          Inr (obj, handle, dumb_pitch width bpp, dumb_size width height bpp))"

section \<open>Pages\<close>

definition evdi_gem_get_pages ::
  "nat list result \<Rightarrow> evdi_gem_object \<Rightarrow> unit result \<times> evdi_gem_object" where
  "evdi_gem_get_pages got obj =
     (if pages obj \<noteq> None then (Inr (), obj)
      else case got of
          Inl e \<Rightarrow> (Inl e, obj)
        | Inr ps \<Rightarrow> (Inr (), gem_emit GetPages (obj\<lparr>pages := Some ps\<rparr>)))"

definition evdi_gem_put_pages :: "evdi_gem_object \<Rightarrow> evdi_gem_object" where
  "evdi_gem_put_pages obj =
     (if import_attach obj \<noteq> None
      then (gem_emit KvfreePages obj)\<lparr>pages := None\<rparr>
      else (gem_emit DrmPutPages obj)\<lparr>pages := None\<rparr>)"

definition evdi_pin_pages ::
  "nat list result \<Rightarrow> evdi_gem_object \<Rightarrow> unit result \<times> evdi_gem_object" where
  "evdi_pin_pages got obj =
     (let obj1 = obj\<lparr>pages_pin_count := pages_pin_count obj + 1\<rparr>
      in if pages_pin_count obj = 0
         then case evdi_gem_get_pages got obj1 of
             (Inl e, obj2) \<Rightarrow> (Inl e, obj2\<lparr>pages_pin_count := pages_pin_count obj2 - 1\<rparr>)
           | (Inr u, obj2) \<Rightarrow> (Inr u, obj2)
         else (Inr (), obj1))"

definition evdi_unpin_pages :: "evdi_gem_object \<Rightarrow> evdi_gem_object" where
  "evdi_unpin_pages obj =
     (let obj1 = obj\<lparr>pages_pin_count := pages_pin_count obj - 1\<rparr>
      in if pages_pin_count obj1 = 0 then evdi_gem_put_pages obj1 else obj1)"

section \<open>Kernel mappings\<close>

text \<open>
  \<open>strncmp("xe", name, min(2, strlen(name))) == 0\<close>: the two names agree on as many characters as
  are compared.
\<close>

definition has_xe_name :: "string \<Rightarrow> bool" where
  "has_xe_name name \<longleftrightarrow> (let k = min 2 (length name) in take k ''xe'' = take k name)"

definition is_xe_gem_ttm_object_without_vmap :: "dma_buf \<Rightarrow> bool" where
  "is_xe_gem_ttm_object_without_vmap dmabuf =
     (if \<not> ops_vmap_is_drm dmabuf then False
      else case owner dmabuf of
          None \<Rightarrow> False
        | Some name \<Rightarrow>
            if \<not> priv_has_funcs dmabuf then False
            else if \<not> has_xe_name name then False
            else priv_vmap_null dmabuf)"

text \<open>
  What a mapping call answers: an error, or the mapped bytes and whether they are I/O memory.
  \<open>xe_vmap\<close> answers for \<open>drm_gem_ttm_vmap\<close>, \<open>vmap\<close> for \<open>dma_buf_vmap_unlocked\<close>.
\<close>

type_synonym mapping = "u8 list \<times> bool"

definition evdi_dma_buf_vmap_unlocked ::
  "dma_buf \<Rightarrow> mapping result \<Rightarrow> mapping result \<Rightarrow> mapping result" where
  "evdi_dma_buf_vmap_unlocked dmabuf xe_vmap dma_vmap =
     (case (if is_xe_gem_ttm_object_without_vmap dmabuf then xe_vmap else Inl EINVAL) of
        Inr m \<Rightarrow> Inr m
      | Inl _ \<Rightarrow> dma_vmap)"

text \<open>The answers one call of \<open>evdi_gem_vmap\<close> may get from the kernel.\<close>

record vmap_env =
  env_xe_vmap :: "mapping result"
  env_dma_vmap :: "mapping result"
  env_get_pages :: "nat list result"
  env_vmap :: "u8 list option"

definition evdi_gem_vmap ::
  "vmap_env \<Rightarrow> evdi_gem_object \<Rightarrow> unit result \<times> evdi_gem_object" where
  "evdi_gem_vmap env obj =
     (if evdi_drm_gem_object_use_import_attach obj then
        case evdi_dma_buf_vmap_unlocked (the (import_attach obj)) (env_xe_vmap env)
               (env_dma_vmap env) of
          Inl _ \<Rightarrow> (Inl ENOMEM, obj)
        | Inr (vaddr, is_iomem) \<Rightarrow>
            (Inr (), gem_emit DmaVmap (obj\<lparr>vmapping := Some vaddr, vmap_is_iomem := is_iomem\<rparr>))
      else
        case evdi_pin_pages (env_get_pages env) obj of
          (Inl ret, obj1) \<Rightarrow> (Inl ret, obj1)
        | (Inr _, obj1) \<Rightarrow>
            (case env_vmap env of
               None \<Rightarrow> (Inl ENOMEM, obj1\<lparr>vmapping := None\<rparr>)
             | Some vaddr \<Rightarrow> (Inr (), gem_emit Vmap (obj1\<lparr>vmapping := Some vaddr\<rparr>))))"

definition evdi_gem_vunmap :: "evdi_gem_object \<Rightarrow> evdi_gem_object" where
  "evdi_gem_vunmap obj =
     (if evdi_drm_gem_object_use_import_attach obj
      then (gem_emit DmaVunmap obj)\<lparr>vmapping := None\<rparr>
      else
        let obj1 = (if vmapping obj \<noteq> None then (gem_emit Vunmap obj)\<lparr>vmapping := None\<rparr> else obj)
        in evdi_unpin_pages obj1)"

definition evdi_gem_free_object :: "evdi_gem_object \<Rightarrow> evdi_gem_object" where
  "evdi_gem_free_object obj =
     (let obj1 = (if vmapping obj \<noteq> None then evdi_gem_vunmap obj else obj);
          obj2 = (if import_attach obj1 \<noteq> None then gem_emit PrimeGemDestroy obj1 else obj1);
          obj3 = (if pages obj2 \<noteq> None then evdi_gem_put_pages obj2 else obj2);
          obj4 = gem_emit FreeMmapOffset obj3;
          obj5 = gem_emit ObjectRelease obj4
      in gem_emit KfreeObject obj5)"

section \<open>Mapping to user space, faults and imports\<close>

text \<open>
  \<open>evdi_gem_mmap\<close>, the dumb-map operation: \<open>lookup\<close> is the object found for the handle,
  \<open>mmap_offset\<close> the answer of \<open>drm_gem_create_mmap_offset\<close> with the fake offset.
\<close>

definition evdi_gem_mmap ::
  "nat list result \<Rightarrow> u64 result \<Rightarrow> evdi_gem_object option \<Rightarrow>
     u64 result \<times> evdi_gem_object option" where
  "evdi_gem_mmap got mmap_offset lookup =
     (case lookup of
        None \<Rightarrow> (Inl ENOENT, None)
      | Some obj \<Rightarrow>
          (case evdi_pin_pages got obj of
             (Inl ret, obj1) \<Rightarrow> (Inl ret, Some obj1)
           | (Inr _, obj1) \<Rightarrow>
               if import_attach obj1 \<noteq> None then (Inl EINVAL, Some obj1)
               else (case mmap_offset of
                   Inl ret \<Rightarrow> (Inl ret, Some obj1)
                 | Inr offset \<Rightarrow> (Inr offset, Some obj1))))"

datatype vm_fault = VM_FAULT_NOPAGE | VM_FAULT_OOM | VM_FAULT_SIGBUS

text \<open>
  \<open>Oops\<close> is the read of \<open>obj->pages\<close> beyond its end; \<open>vm_insert\<close> is the answer of \<open>vm_insert_page\<close>
  for the page.
\<close>

definition evdi_gem_fault ::
  "(nat \<Rightarrow> unit result) \<Rightarrow> evdi_gem_object \<Rightarrow> u64 \<Rightarrow> u64 \<Rightarrow> vm_fault outcome" where
  "evdi_gem_fault vm_insert obj vm_start address =
     (let num_pages = gem_size obj div PAGE_SIZE;
          page_offset = unat ((address - vm_start) div 4096)
      in case pages obj of
          None \<Rightarrow> Ret VM_FAULT_SIGBUS
        | Some ps \<Rightarrow>
            if page_offset \<ge> num_pages then Ret VM_FAULT_SIGBUS
            else if page_offset \<ge> length ps then Oops
            else case vm_insert (ps ! page_offset) of
                Inr _ \<Rightarrow> Ret VM_FAULT_NOPAGE
              | Inl e \<Rightarrow>
                  if e = EAGAIN \<or> e = ERESTARTSYS \<or> e = EBUSY then Ret VM_FAULT_NOPAGE
                  else if e = ENOMEM then Ret VM_FAULT_OOM
                  else Ret VM_FAULT_SIGBUS)"

text \<open>The iteration over the scatter list visits its pages, here given as a list.\<close>

fun evdi_get_sg_table_pages_num :: "nat list \<Rightarrow> nat" where
  "evdi_get_sg_table_pages_num [] = 0"
| "evdi_get_sg_table_pages_num (p # ps) = Suc (evdi_get_sg_table_pages_num ps)"

text \<open>
  \<open>IS_ERR\<close> does not recognise the NULL that \<open>evdi_gem_alloc_object\<close> returns when it fails, so
  that failure is a NULL dereference (\<open>Oops\<close>). \<open>arr_ok\<close> is the success of \<open>kvmalloc_array\<close>. The
  DRM core sets \<open>import_attach\<close> on the object this call returns; the model sets it here, before
  any other operation can see the object.
\<close>

definition evdi_prime_import_sg_table ::
  "bool \<Rightarrow> bool \<Rightarrow> string \<Rightarrow> dma_buf \<Rightarrow> nat list \<Rightarrow> (evdi_gem_object result) outcome" where
  "evdi_prime_import_sg_table ok arr_ok task_comm dmabuf sg_pages =
     (case evdi_gem_alloc_object ok (buf_size dmabuf) of
        None \<Rightarrow> Oops
      | Some obj \<Rightarrow>
          let npages = DIV_ROUND_UP (buf_size dmabuf) PAGE_SIZE;
              npages_sg = evdi_get_sg_table_pages_num sg_pages;
              npages' = (if npages < npages_sg then npages_sg else npages_sg)
          in if \<not> arr_ok then Ret (Inl ENOMEM)
             else Ret (Inr ((gem_emit KvmallocArray obj)
               \<lparr>pages := Some (take npages' sg_pages), import_attach := Some dmabuf, sg := True,
                 allow_sw_cursor_rect_updates := evdi_was_called_by_mutter task_comm\<rparr>)))"

section \<open>Pitches and sizes of dumb buffers\<close>

lemma pitch_mask_mask: "pitch_mask cpp = mask (if cpp = 1 then 8 else if cpp = 2 then 7
    else if cpp = 3 \<or> cpp = 4 then 6 else 0)"
  by (simp add: pitch_mask_def mask_eq_exp_minus_1)

text \<open>The number of pixels a line is rounded up to a multiple of.\<close>

definition pitch_unit :: "s32 \<Rightarrow> nat" where
  "pitch_unit cpp = (if cpp = 1 then 256 else if cpp = 2 then 128 else if cpp = 3 \<or> cpp = 4 then 64 else 1)"

lemma pitch_unit_pos [simp]: "0 < pitch_unit cpp"
  by (simp add: pitch_unit_def)

lemma unat_pitch_mask: "unat (pitch_mask cpp) = pitch_unit cpp - 1"
  by (simp add: pitch_mask_def pitch_unit_def)

lemma unat_aligned_width:
  assumes "unat width + 255 < 2 ^ 32"
  shows "unat ((width + pitch_mask cpp) AND NOT (pitch_mask cpp))
    = DIV_ROUND_UP (unat width) (pitch_unit cpp) * pitch_unit cpp"
proof -
  have "pitch_unit cpp \<le> 256" by (simp add: pitch_unit_def)
  then have s: "unat (width + pitch_mask cpp) = unat width + pitch_unit cpp - 1"
    using assms pitch_unit_pos [of cpp] unat_pitch_mask [of cpp]
    by (subst unat_add_exact; linarith)
  show ?thesis
    using unat_and_not_mask [of "width + pitch_mask cpp"] s
    by (simp add: pitch_mask_mask pitch_unit_def DIV_ROUND_UP_def)
qed

lemma unat_align_pitch:
  assumes "unat width + 255 < 2 ^ 32"
    and "DIV_ROUND_UP (unat width) (pitch_unit cpp) * pitch_unit cpp * unat cpp < 2 ^ 32"
  shows "unat (evdi_align_pitch width cpp)
    = DIV_ROUND_UP (unat width) (pitch_unit cpp) * pitch_unit cpp * unat cpp"
  using assms by (simp add: evdi_align_pitch_def unat_mult_exact unat_aligned_width)

lemma unat_roundup_page:
  assumes "unat sz + 4095 < 2 ^ 64"
  shows "unat (roundup_page sz) = DIV_ROUND_UP (unat sz) 4096 * 4096"
proof -
  have s: "unat (sz + 4095) = unat sz + 4095"
    using assms by (simp add: unat_word_ariths)
  have "(unat sz + 4095) div 4096 * 4096 \<le> unat sz + 4095" by simp
  then have lt: "(unat sz + 4095) div 4096 * 4096 < 2 ^ 64" using assms by linarith
  have "unat (roundup_page sz) = (unat (sz + 4095) div 4096 * 4096) mod 2 ^ 64"
    by (simp add: roundup_page_def unat_word_ariths unat_div)
  also have "\<dots> = (unat sz + 4095) div 4096 * 4096"
    unfolding s using lt by (rule mod_less)
  finally show ?thesis by (simp add: DIV_ROUND_UP_def)
qed

section \<open>Pinning as reference counting\<close>

text \<open>
  What a client of the pin interface relies on: after a successful pin the pages are there, and
  they stay until the matching unpin of the last holder. The contract is stated for any resource
  with a holder count, an acquire that can fail and a release; the client lemma is about a
  sequence of operations in which no release is unmatched.
\<close>

datatype 'e hold_op = Acquire 'e | Release

locale counted_resource =
  fixes acquire :: "'e \<Rightarrow> 's \<Rightarrow> bool \<times> 's"
    and release :: "'s \<Rightarrow> 's"
    and holders :: "'s \<Rightarrow> nat"
    and present :: "'s \<Rightarrow> bool"
    and limit :: nat
  assumes acquire_ok: "holders s < limit \<Longrightarrow> (0 < holders s \<longrightarrow> present s) \<Longrightarrow>
      acquire e s = (True, t) \<Longrightarrow> holders t = holders s + 1 \<and> present t"
    and acquire_fail: "holders s < limit \<Longrightarrow> acquire e s = (False, t) \<Longrightarrow>
      holders t = holders s \<and> present t = present s"
    and release_last: "0 < holders s \<Longrightarrow> holders (release s) = holders s - 1"
    and release_present: "1 < holders s \<Longrightarrow> present s \<Longrightarrow> present (release s)"
    and release_absent: "holders s = 1 \<Longrightarrow> \<not> present (release s)"
begin

text \<open>The holder count a client keeps: one up for each acquire that succeeded, one down for each
  release.\<close>

fun run_holds :: "'e hold_op list \<Rightarrow> nat \<Rightarrow> 's \<Rightarrow> (nat \<times> 's) option" where
  "run_holds [] k s = Some (k, s)"
| "run_holds (Acquire e # xs) k s =
     (if k < limit then case acquire e s of (ok, t) \<Rightarrow> run_holds xs (if ok then k + 1 else k) t
      else None)"
| "run_holds (Release # xs) k s = (if 0 < k then run_holds xs (k - 1) (release s) else None)"

lemma run_holds_count:
  assumes "run_holds xs k s = Some (k', s')" and "holders s = k" and "0 < k \<longrightarrow> present s"
  shows "holders s' = k' \<and> (0 < k' \<longrightarrow> present s')"
  using assms
proof (induction xs k s rule: run_holds.induct)
  case (1 k s)
  then show ?case by simp
next
  case (2 e xs k s)
  obtain ok t where a: "acquire e s = (ok, t)" by fastforce
  from "2.prems" have k: "k < limit" by (simp split: if_splits)
  have "holders t = (if ok then k + 1 else k) \<and> (0 < (if ok then k + 1 else k) \<longrightarrow> present t)"
    using acquire_ok [of s e t] acquire_fail [of s e t] a k "2.prems" by (cases ok) auto
  with "2.IH" [OF k a [symmetric]] "2.prems" a k show ?case by auto
next
  case (3 xs k s)
  from "3.prems" have k: "0 < k" by (simp split: if_splits)
  have "holders (release s) = k - 1 \<and> (0 < k - 1 \<longrightarrow> present (release s))"
    using release_last [of s] release_present [of s] k "3.prems" by auto
  with "3.IH" [OF k] "3.prems" k show ?case by auto
qed

end

definition pin_acquire :: "nat list result \<Rightarrow> evdi_gem_object \<Rightarrow> bool \<times> evdi_gem_object" where
  "pin_acquire got obj = (case evdi_pin_pages got obj of
      (Inl _, obj') \<Rightarrow> (False, obj') | (Inr _, obj') \<Rightarrow> (True, obj'))"

lemma gem_emit_sel [simp]:
  "gem_size (gem_emit c obj) = gem_size obj" "pages (gem_emit c obj) = pages obj"
  "pages_pin_count (gem_emit c obj) = pages_pin_count obj"
  "vmapping (gem_emit c obj) = vmapping obj" "import_attach (gem_emit c obj) = import_attach obj"
  "gem_log (gem_emit c obj) = gem_log obj @ [c]"
  "allow_sw_cursor_rect_updates (gem_emit c obj) = allow_sw_cursor_rect_updates obj"
  by (simp_all add: gem_emit_def)

lemma gem_put_pages_sel [simp]:
  "pages (evdi_gem_put_pages obj) = None"
  "pages_pin_count (evdi_gem_put_pages obj) = pages_pin_count obj"
  "vmapping (evdi_gem_put_pages obj) = vmapping obj"
  "import_attach (evdi_gem_put_pages obj) = import_attach obj"
  "gem_log (evdi_gem_put_pages obj) =
     gem_log obj @ [if import_attach obj \<noteq> None then KvfreePages else DrmPutPages]"
  by (simp_all add: evdi_gem_put_pages_def)

lemma unat_plus_one: "unat (c :: u32) < 2 ^ 32 - 1 \<Longrightarrow> unat (c + 1) = unat c + 1"
  by (subst unat_add_exact) simp_all

lemma unat_minus_one_pos: "0 < unat (c :: u32) \<Longrightarrow> unat (c - 1) = unat c - 1"
  by (subst unat_sub_exact) simp_all

interpretation pin: counted_resource pin_acquire evdi_unpin_pages
    "\<lambda>obj. unat (pages_pin_count obj)" "\<lambda>obj. pages obj \<noteq> None" "2 ^ 32 - 1"
proof (unfold_locales, goal_cases)
  case (1 s e t)
  then show ?case
    by (auto simp: pin_acquire_def evdi_pin_pages_def evdi_gem_get_pages_def Let_def unat_plus_one
        unat_eq_zero split: if_splits sum.splits)
next
  case (2 s e t)
  then show ?case
    by (auto simp: pin_acquire_def evdi_pin_pages_def evdi_gem_get_pages_def Let_def
        split: if_splits sum.splits)
next
  case (3 s)
  then show ?case
    by (simp add: evdi_unpin_pages_def Let_def unat_minus_one_pos)
next
  case (4 s)
  then have "unat (pages_pin_count s - 1) \<noteq> 0" by (simp add: unat_minus_one_pos)
  then have "pages_pin_count s - 1 \<noteq> 0" by auto
  with 4 show ?case by (simp add: evdi_unpin_pages_def Let_def)
next
  case (5 s)
  then have "unat (pages_pin_count s - 1) = 0" by (simp add: unat_minus_one_pos)
  then show ?case by (simp add: evdi_unpin_pages_def Let_def unat_eq_zero)
qed

section \<open>Nothing is released twice, nothing is kept\<close>

definition pages_got :: "gem_call list \<Rightarrow> nat" where
  "pages_got log = length (filter (\<lambda>c. c = GetPages \<or> c = KvmallocArray) log)"

definition pages_put :: "gem_call list \<Rightarrow> nat" where
  "pages_put log = length (filter (\<lambda>c. c = DrmPutPages \<or> c = KvfreePages) log)"

definition maps_made :: "gem_call list \<Rightarrow> nat" where
  "maps_made log = length (filter (\<lambda>c. c = Vmap \<or> c = DmaVmap) log)"

definition maps_undone :: "gem_call list \<Rightarrow> nat" where
  "maps_undone log = length (filter (\<lambda>c. c = Vunmap \<or> c = DmaVunmap) log)"

lemmas log_defs = pages_got_def pages_put_def maps_made_def maps_undone_def

definition own_mapped :: "evdi_gem_object \<Rightarrow> bool" where
  "own_mapped obj \<longleftrightarrow> vmapping obj \<noteq> None \<and> \<not> evdi_drm_gem_object_use_import_attach obj"

text \<open>
  The state of an object with \<open>k\<close> pins outstanding besides the one its own mapping holds: the pin
  count is exact, a pinned object has its pages, and the log balances with what is held.
\<close>

definition gem_inv :: "nat \<Rightarrow> evdi_gem_object \<Rightarrow> bool" where
  "gem_inv k obj \<longleftrightarrow>
     unat (pages_pin_count obj) = k + (if own_mapped obj then 1 else 0) \<and>
     (pages_pin_count obj \<noteq> 0 \<longrightarrow> pages obj \<noteq> None) \<and>
     pages_got (gem_log obj) = pages_put (gem_log obj) + (if pages obj = None then 0 else 1) \<and>
     maps_made (gem_log obj) = maps_undone (gem_log obj) + (if vmapping obj = None then 0 else 1)"

lemma use_attach_cong [simp]:
  "evdi_drm_gem_object_use_import_attach (gem_emit c obj) = evdi_drm_gem_object_use_import_attach obj"
  "evdi_drm_gem_object_use_import_attach (obj\<lparr>pages := p\<rparr>) = evdi_drm_gem_object_use_import_attach obj"
  "evdi_drm_gem_object_use_import_attach (obj\<lparr>pages_pin_count := n\<rparr>) = evdi_drm_gem_object_use_import_attach obj"
  "evdi_drm_gem_object_use_import_attach (obj\<lparr>vmapping := v\<rparr>) = evdi_drm_gem_object_use_import_attach obj"
  "evdi_drm_gem_object_use_import_attach (obj\<lparr>vmap_is_iomem := b\<rparr>) = evdi_drm_gem_object_use_import_attach obj"
  "evdi_drm_gem_object_use_import_attach (evdi_gem_put_pages obj) = evdi_drm_gem_object_use_import_attach obj"
  by (simp_all add: evdi_drm_gem_object_use_import_attach_def)

lemma gem_inv_fresh: "evdi_gem_alloc_object ok sz = Some obj \<Longrightarrow> gem_inv 0 obj"
  by (auto simp: evdi_gem_alloc_object_def gem_inv_def own_mapped_def log_defs split: if_splits)

lemma pin_pages_ok:
  assumes "evdi_pin_pages got obj = (Inr u, obj')"
  shows "pages_pin_count obj' = pages_pin_count obj + 1 \<and> vmapping obj' = vmapping obj \<and>
    import_attach obj' = import_attach obj \<and>
    (pages obj' = pages obj \<and> gem_log obj' = gem_log obj \<and>
       (pages obj \<noteq> None \<or> pages_pin_count obj \<noteq> 0) \<or>
     pages_pin_count obj = 0 \<and> pages obj = None \<and> pages obj' \<noteq> None \<and>
       gem_log obj' = gem_log obj @ [GetPages])"
  using assms
  by (cases "pages_pin_count obj = 0"; cases "pages obj"; cases got)
    (simp_all add: evdi_pin_pages_def evdi_gem_get_pages_def Let_def, auto)

lemma use_attach_import:
  "import_attach obj' = import_attach obj \<Longrightarrow>
     evdi_drm_gem_object_use_import_attach obj' = evdi_drm_gem_object_use_import_attach obj"
  by (simp add: evdi_drm_gem_object_use_import_attach_def)

lemma gem_inv_pin [inv_intros]:
  assumes "gem_inv k obj" and "k < 2 ^ 32 - 2" and "evdi_pin_pages got obj = (Inr u, obj')"
  shows "gem_inv (k + 1) obj'"
proof -
  note ok = pin_pages_ok [OF assms(3)]
  then have om: "own_mapped obj' = own_mapped obj"
    using use_attach_import [of obj' obj] by (simp add: own_mapped_def)
  have "unat (pages_pin_count obj) < 2 ^ 32 - 1"
    using assms(1,2) by (simp add: gem_inv_def split: if_splits)
  then have c: "unat (pages_pin_count obj') = unat (pages_pin_count obj) + 1"
    using ok unat_plus_one by simp
  have p: "pages obj' \<noteq> None" using ok assms(1) by (auto simp: gem_inv_def)
  have "pages_got (gem_log obj') = pages_put (gem_log obj') + 1"
    and "maps_made (gem_log obj') = maps_undone (gem_log obj') + (if vmapping obj' = None then 0 else 1)"
    using ok assms(1) p by (elim conjE disjE; simp add: gem_inv_def log_defs)+
  with c om p assms(1) show ?thesis by (simp add: gem_inv_def)
qed

lemma pin_pages_fail:
  "evdi_pin_pages got obj = (Inl e, obj') \<Longrightarrow> obj' = obj \<and> pages_pin_count obj = 0 \<and> pages obj = None"
  by (cases "pages_pin_count obj = 0"; cases "pages obj"; cases got)
    (simp_all add: evdi_pin_pages_def evdi_gem_get_pages_def Let_def, auto)

lemma gem_inv_pin_fail [inv_intros]:
  "gem_inv k obj \<Longrightarrow> evdi_pin_pages got obj = (Inl e, obj') \<Longrightarrow> gem_inv k obj'"
  using pin_pages_fail by blast

lemma gem_inv_unpin [inv_intros]:
  assumes "gem_inv (k + 1) obj"
  shows "gem_inv k (evdi_unpin_pages obj)"
proof -
  have "0 < unat (pages_pin_count obj)" using assms by (simp add: gem_inv_def)
  note c = unat_minus_one_pos [OF this]
  then have "pages_pin_count obj - 1 = 0 \<longleftrightarrow> k + (if own_mapped obj then 1 else 0) = 0"
    using assms by (auto simp: gem_inv_def simp flip: unat_eq_zero)
  then show ?thesis
    using assms c
    by (auto simp: gem_inv_def evdi_unpin_pages_def Let_def own_mapped_def log_defs split: if_splits)
qed

lemma gem_inv_vunmap [inv_intros]:
  assumes "gem_inv k obj" and "vmapping obj \<noteq> None"
  shows "gem_inv k (evdi_gem_vunmap obj)"
proof (cases "evdi_drm_gem_object_use_import_attach obj")
  case True
  with assms show ?thesis
    by (simp add: evdi_gem_vunmap_def gem_inv_def own_mapped_def log_defs)
next
  case False
  let ?o = "(gem_emit Vunmap obj)\<lparr>vmapping := None\<rparr>"
  have "gem_inv (k + 1) ?o"
    using assms False by (simp add: gem_inv_def own_mapped_def log_defs)
  then have "gem_inv k (evdi_unpin_pages ?o)" by (rule gem_inv_unpin)
  with assms False show ?thesis by (simp add: evdi_gem_vunmap_def Let_def)
qed

lemma gem_inv_vmap [inv_intros]:
  assumes "gem_inv k obj" and "vmapping obj = None" and "k < 2 ^ 32 - 2"
    and "evdi_gem_vmap env obj = (Inr u, obj')"
  shows "gem_inv k obj'"
proof (cases "evdi_drm_gem_object_use_import_attach obj")
  case True
  then obtain v io where o: "obj' = gem_emit DmaVmap (obj\<lparr>vmapping := Some v, vmap_is_iomem := io\<rparr>)"
    using assms(4) by (auto simp: evdi_gem_vmap_def split: sum.splits prod.splits)
  show ?thesis
    using assms(1,2) True unfolding o by (simp add: gem_inv_def own_mapped_def log_defs)
next
  case False
  then obtain u1 obj1 v where p: "evdi_pin_pages (env_get_pages env) obj = (Inr u1, obj1)"
    and o: "obj' = gem_emit Vmap (obj1\<lparr>vmapping := Some v\<rparr>)"
    using assms(4) by (auto simp: evdi_gem_vmap_def split: sum.splits prod.splits option.splits)
  have "vmapping obj1 = None" and "\<not> evdi_drm_gem_object_use_import_attach obj1"
    using p assms(2) False
    by (auto simp: evdi_pin_pages_def evdi_gem_get_pages_def Let_def split: if_splits sum.splits)
  moreover have "gem_inv (k + 1) obj1"
    by (rule gem_inv_pin [OF assms(1,3) p])
  ultimately show ?thesis
    unfolding o by (simp add: gem_inv_def own_mapped_def log_defs)
qed

lemma vunmap_none: "vmapping (evdi_gem_vunmap obj) = None"
  by (simp add: evdi_gem_vunmap_def evdi_unpin_pages_def Let_def)

text \<open>
  Releasing an object no pin is outstanding on hands every page array and every mapping back
  exactly once, and frees the object last.
\<close>

lemma gem_free_balanced:
  assumes "gem_inv k obj"
  shows "pages_got (gem_log (evdi_gem_free_object obj)) = pages_put (gem_log (evdi_gem_free_object obj))"
    and "maps_made (gem_log (evdi_gem_free_object obj)) = maps_undone (gem_log (evdi_gem_free_object obj))"
    and "pages (evdi_gem_free_object obj) = None \<and> vmapping (evdi_gem_free_object obj) = None"
    and "last (gem_log (evdi_gem_free_object obj)) = KfreeObject"
proof -
  define obj1 where "obj1 = (if vmapping obj \<noteq> None then evdi_gem_vunmap obj else obj)"
  have inv: "gem_inv k obj1"
    using assms by (simp add: obj1_def gem_inv_vunmap)
  have v: "vmapping obj1 = None" by (simp add: obj1_def vunmap_none)
  show "pages_got (gem_log (evdi_gem_free_object obj)) = pages_put (gem_log (evdi_gem_free_object obj))"
    and "maps_made (gem_log (evdi_gem_free_object obj)) = maps_undone (gem_log (evdi_gem_free_object obj))"
    and "pages (evdi_gem_free_object obj) = None \<and> vmapping (evdi_gem_free_object obj) = None"
    and "last (gem_log (evdi_gem_free_object obj)) = KfreeObject"
    using inv v unfolding evdi_gem_free_object_def Let_def obj1_def [symmetric]
    by (simp_all add: gem_inv_def log_defs)
qed

section \<open>Properties\<close>

text \<open>The pitch the driver chooses for a dumb buffer holds a whole line of the requested width
  and is a whole number of alignment units (256, 128 or 64 pixels), the smallest such number, as
  long as the arithmetic stays within 32 bits.\<close>

theorem align_pitch_least:
  assumes "unat width + 255 < 2 ^ 32"
    and "DIV_ROUND_UP (unat width) (pitch_unit cpp) * pitch_unit cpp * unat cpp < 2 ^ 32"
  shows "\<exists>k. unat (evdi_align_pitch width cpp) = k * pitch_unit cpp * unat cpp \<and>
    unat width \<le> k * pitch_unit cpp \<and>
    (\<forall>k'. unat width \<le> k' * pitch_unit cpp \<longrightarrow> k \<le> k')"
proof (intro exI conjI allI impI)
  show "unat (evdi_align_pitch width cpp)
      = DIV_ROUND_UP (unat width) (pitch_unit cpp) * pitch_unit cpp * unat cpp"
    by (rule unat_align_pitch [OF assms])
qed (simp_all add: DIV_ROUND_UP_ge DIV_ROUND_UP_least)

theorem align_pitch_least_witness:
  "\<exists>k. unat (evdi_align_pitch 1366 4) = k * pitch_unit 4 * 4 \<and> 1366 \<le> k * pitch_unit 4 \<and>
    (\<forall>k'. 1366 \<le> k' * pitch_unit 4 \<longrightarrow> k \<le> k')"
proof -
  have "unat (1366 :: s32) + 255 < 2 ^ 32" by simp
  moreover have "DIV_ROUND_UP (unat (1366 :: s32)) (pitch_unit 4) * pitch_unit 4 * unat (4 :: s32) < 2 ^ 32"
    by (simp add: pitch_unit_def DIV_ROUND_UP_def)
  ultimately show ?thesis using align_pitch_least [of 1366 4] by simp
qed

text \<open>C39: A dumb buffer is large enough for the picture it was asked for whenever pitch times
  height fits 32 bits: the object created for it holds \<open>height\<close> lines of the pitch reported to
  user space.\<close>

theorem dumb_create_size_sufficient:
  assumes "unat (dumb_pitch width bpp) * unat height < 2 ^ 32"
    and "evdi_dumb_create ok comm hc width height bpp = Inr (obj, handle, pitch, sz)"
  shows "pitch = dumb_pitch width bpp \<and> unat sz = unat pitch * unat height \<and>
    unat pitch * unat height \<le> gem_size obj \<and> gem_size obj mod 4096 = 0"
proof -
  have p: "pitch = dumb_pitch width bpp" and s: "sz = dumb_size width height bpp"
    and o: "gem_size obj = unat (roundup_page sz)"
    using assms(2)
    by (auto simp: evdi_dumb_create_def evdi_gem_create_def evdi_gem_alloc_object_def
        split: sum.splits prod.splits option.splits if_splits)
  have u: "unat sz = unat pitch * unat height"
  proof -
    have "unat (pitch * height) = unat pitch * unat height"
      using assms(1) p by (intro unat_mult_exact) simp
    moreover have "unat (ucast (pitch * height) :: u64) = unat (pitch * height)"
      using unat_32_less [of "pitch * height"] by (simp add: unsigned_ucast_eq take_bit_nat_eq_self)
    ultimately show ?thesis by (simp add: s p dumb_size_def)
  qed
  then have "unat sz + 4095 < 2 ^ 64" using assms(1) p by simp
  then have "gem_size obj = DIV_ROUND_UP (unat sz) 4096 * 4096"
    unfolding o by (rule unat_roundup_page)
  with p u show ?thesis using DIV_ROUND_UP_ge [of 4096 "unat sz"] by simp
qed

theorem dumb_create_size_sufficient_witness:
  "\<exists>obj. evdi_dumb_create True ''Xorg'' (Inr 1) 640 480 32 = Inr (obj, 1, 2560, 1228800) \<and>
    1228800 \<le> gem_size obj"
proof -
  have p: "dumb_pitch 640 32 = 2560"
    by (simp add: dumb_pitch_def evdi_align_pitch_def pitch_mask_def)
  have s: "dumb_size 640 480 32 = 1228800" by (simp add: dumb_size_def p)
  obtain obj where o: "evdi_dumb_create True ''Xorg'' (Inr 1) 640 480 32 = Inr (obj, 1, 2560, 1228800)"
    by (simp add: evdi_dumb_create_def evdi_gem_create_def evdi_gem_alloc_object_def p s)
  have "unat (dumb_pitch 640 32) * unat (480 :: u32) < 2 ^ 32" by (simp add: p)
  from dumb_create_size_sufficient [OF this o] o show ?thesis by auto
qed

text \<open>The bound is needed: the product of pitch and height is computed in 32 bits, so a one
  pixel wide, \<open>2 ^ 24 + 1\<close> pixels high buffer is reported with a pitch of 256 bytes and gets a
  single page, although its own 4-byte line times its height fits 32 bits.\<close>

theorem dumb_create_size_wraps:
  "\<exists>obj. evdi_dumb_create True ''Xorg'' (Inr 1) 1 16777217 32 = Inr (obj, 1, 256, 256) \<and>
    gem_size obj = 4096 \<and> gem_size obj < 256 * 16777217 \<and> 4 * 16777217 < (2 :: nat) ^ 32"
proof -
  have p: "dumb_pitch 1 32 = 256"
    by (simp add: dumb_pitch_def evdi_align_pitch_def pitch_mask_def)
  have s: "dumb_size 1 16777217 32 = 256" by (simp add: dumb_size_def p)
  show ?thesis
    by (simp add: evdi_dumb_create_def evdi_gem_create_def evdi_gem_alloc_object_def p s
        roundup_page_def)
qed


section \<open>The life of an object\<close>

text \<open>
  The states an object goes through between its allocation or import and its release, with the
  pins \<open>k\<close> outstanding besides the one its own mapping holds. Mapping is asked for while there is
  no mapping, as all callers do. A mapping that fails after the pages were pinned leaves its pin
  behind, which is then one of the \<open>k\<close>.
\<close>

inductive gem_reach :: "nat \<Rightarrow> evdi_gem_object \<Rightarrow> bool" where
  alloc: "evdi_gem_alloc_object ok sz = Some obj \<Longrightarrow> gem_reach 0 obj"
| import: "evdi_prime_import_sg_table ok arr_ok comm dmabuf sg_pages = Ret (Inr obj) \<Longrightarrow> gem_reach 0 obj"
| pin: "gem_reach k obj \<Longrightarrow> k < 2 ^ 32 - 2 \<Longrightarrow> evdi_pin_pages got obj = (Inr u, obj') \<Longrightarrow>
    gem_reach (k + 1) obj'"
| pin_fail: "gem_reach k obj \<Longrightarrow> evdi_pin_pages got obj = (Inl e, obj') \<Longrightarrow> gem_reach k obj'"
| unpin: "gem_reach (k + 1) obj \<Longrightarrow> gem_reach k (evdi_unpin_pages obj)"
| vmap: "gem_reach k obj \<Longrightarrow> vmapping obj = None \<Longrightarrow> k < 2 ^ 32 - 2 \<Longrightarrow>
    evdi_gem_vmap env obj = (Inr u, obj') \<Longrightarrow> gem_reach k obj'"
| vmap_fail: "gem_reach k obj \<Longrightarrow> vmapping obj = None \<Longrightarrow> k < 2 ^ 32 - 2 \<Longrightarrow>
    evdi_gem_vmap env obj = (Inl e, obj') \<Longrightarrow>
    gem_reach (if pages_pin_count obj' = pages_pin_count obj then k else k + 1) obj'"
| vunmap: "gem_reach k obj \<Longrightarrow> vmapping obj \<noteq> None \<Longrightarrow> gem_reach k (evdi_gem_vunmap obj)"

lemma gem_inv_import:
  "evdi_prime_import_sg_table ok arr_ok comm dmabuf sg_pages = Ret (Inr obj) \<Longrightarrow> gem_inv 0 obj"
  by (auto simp: evdi_prime_import_sg_table_def evdi_gem_alloc_object_def gem_inv_def own_mapped_def
      log_defs Let_def gem_emit_def split: if_splits)

lemma vmap_failed:
  assumes "evdi_gem_vmap env obj = (Inl e, obj')" and "vmapping obj = None"
  shows "obj' = obj \<or> (\<exists>u. evdi_pin_pages (env_get_pages env) obj = (Inr u, obj'))"
proof (cases "evdi_drm_gem_object_use_import_attach obj")
  case True
  then show ?thesis using assms by (auto simp: evdi_gem_vmap_def split: sum.splits)
next
  case False
  obtain r obj1 where p: "evdi_pin_pages (env_get_pages env) obj = (r, obj1)" by fastforce
  show ?thesis
  proof (cases r)
    case (Inl e')
    then show ?thesis
      using False assms p pin_pages_fail [of "env_get_pages env" obj e' obj1]
      by (simp add: evdi_gem_vmap_def)
  next
    case (Inr u)
    have "vmapping obj1 = None" using pin_pages_ok [of "env_get_pages env" obj u obj1] p Inr assms(2) by simp
    then have "obj1\<lparr>vmapping := None\<rparr> = obj1" by simp
    then show ?thesis
      using False assms(1) p Inr by (auto simp: evdi_gem_vmap_def split: option.splits)
  qed
qed

lemma gem_reach_inv: "gem_reach k obj \<Longrightarrow> gem_inv k obj"
proof (induction rule: gem_reach.induct)
  case (vmap_fail k obj env e obj')
  from vmap_failed [OF vmap_fail.hyps(4,2)] show ?case
  proof
    assume "\<exists>u. evdi_pin_pages (env_get_pages env) obj = (Inr u, obj')"
    then obtain u where u: "evdi_pin_pages (env_get_pages env) obj = (Inr u, obj')" ..
    then have "pages_pin_count obj' = pages_pin_count obj + 1" using pin_pages_ok by blast
    then have "pages_pin_count obj' \<noteq> pages_pin_count obj" by simp
    then show ?thesis using gem_inv_pin [OF vmap_fail.IH vmap_fail.hyps(3) u] by simp
  qed (use vmap_fail.IH in simp)
next
  case (pin k obj got u obj')
  show ?case by (rule gem_inv_pin [OF pin.IH pin.hyps(2,3)])
qed (auto intro: gem_inv_fresh gem_inv_import gem_inv_pin_fail gem_inv_unpin gem_inv_vmap
    gem_inv_vunmap)


definition sample_vmap_env :: vmap_env where
  "sample_vmap_env = \<lparr>env_xe_vmap = Inl EINVAL, env_dma_vmap = Inl EINVAL, env_get_pages = Inr [7],
     env_vmap = Some (replicate 4096 0)\<rparr>"


text \<open>
  Pins are counted. After any sequence of pins, some of which may fail, and matching unpins,
  the object's pin count is the number of pins outstanding and its pages are there as long as
  one is.
\<close>

theorem pins_are_counted:
  assumes "pin.run_holds ops 0 obj = Some (k, obj')" and "pages_pin_count obj = 0"
  shows "unat (pages_pin_count obj') = k \<and> (0 < k \<longrightarrow> pages obj' \<noteq> None)"
  using pin.run_holds_count [OF assms(1)] assms(2) by simp

theorem pins_are_counted_witness:
  "\<exists>obj k obj'. evdi_gem_alloc_object True 4096 = Some obj \<and>
     pin.run_holds [Acquire (Inr [7]), Acquire (Inr [8]), Release] 0 obj = Some (k, obj') \<and>
     k = 1 \<and> pages obj' \<noteq> None"
proof -
  obtain obj where a: "evdi_gem_alloc_object True 4096 = Some obj"
    by (simp add: evdi_gem_alloc_object_def)
  then have n: "pages obj = None" "pages_pin_count obj = 0"
    by (auto simp: evdi_gem_alloc_object_def)
  then have "\<exists>obj'. pin.run_holds [Acquire (Inr [7]), Acquire (Inr [8]), Release] 0 obj = Some (1, obj')"
    unfolding pin.run_holds.simps
    by (simp add: pin_acquire_def evdi_pin_pages_def evdi_gem_get_pages_def Let_def)
  then obtain obj' where
    r: "pin.run_holds [Acquire (Inr [7]), Acquire (Inr [8]), Release] 0 obj = Some (1, obj')" ..
  show ?thesis using pins_are_counted [OF r n(2)] a r by auto
qed

text \<open>
  A fault on a mapping of an object never reads beyond its page array, provided the array has
  a page for every page of the object; outside the object the fault is a SIGBUS.
\<close>

theorem gem_fault_in_range:
  assumes "\<And>ps. pages obj = Some ps \<Longrightarrow> gem_size obj div PAGE_SIZE \<le> length ps"
  shows "\<exists>r. evdi_gem_fault vm_insert obj vm_start address = Ret r \<and>
    (gem_size obj div PAGE_SIZE \<le> unat ((address - vm_start) div 4096) \<longrightarrow> r = VM_FAULT_SIGBUS)"
  using assms
  by (cases "pages obj") (auto simp: evdi_gem_fault_def Let_def split: sum.splits)

theorem gem_fault_in_range_witness:
  "\<exists>obj. evdi_gem_alloc_object True 4096 = Some obj \<and>
     evdi_gem_fault (\<lambda>_. Inr ()) (obj\<lparr>pages := Some [7]\<rparr>) 0 8192 = Ret VM_FAULT_SIGBUS"
proof -
  obtain obj where a: "evdi_gem_alloc_object True 4096 = Some obj" and s: "gem_size obj = 4096"
    by (simp add: evdi_gem_alloc_object_def)
  then show ?thesis
    using gem_fault_in_range [of "obj\<lparr>pages := Some [7]\<rparr>" "\<lambda>_. Inr ()" 0 8192]
    by (simp add: PAGE_SIZE_def)
qed

text \<open>
  An import whose scatter table has fewer pages than the buffer's size gets a page array that
  is too short, although the code computes the size of a long enough one, and a fault in the
  missing part reads beyond it.
\<close>

theorem import_short_table_faults_outside:
  "\<exists>obj. evdi_prime_import_sg_table True True ''Xorg''
       \<lparr>ops_vmap_is_drm = False, owner = None, priv_has_funcs = False, priv_vmap_null = False,
        buf_size = 8192\<rparr> [7] = Ret (Inr obj) \<and>
     evdi_gem_fault vm_insert obj 0 4096 = Oops"
  by (simp add: evdi_prime_import_sg_table_def evdi_gem_alloc_object_def Let_def evdi_gem_fault_def
      PAGE_SIZE_def gem_emit_def)

end
