(* ===== verification/Evdi_Events.thy ===== *)
theory Evdi_Events
  imports Evdi_Prelude "HOL-Library.Multiset"
begin

text \<open>
  The events the driver sends to user space (\<open>module/evdi_drm.h\<close>) and the queue they wait in
  (\<open>module/evdi_painter.c\<close>): which events are squashed, how an event joins the pending list, how
  the list is flushed to the DRM file. The calls the driver makes into the DRM core are values of
  \<open>drm_call\<close>; the device theories keep the log of them.
\<close>

section \<open>Events\<close>

text \<open>\<open>struct drm_evdi_event_cursor_set\<close>, without its header.\<close>

record cursor_set_event =
  ev_hot_x :: s32
  ev_hot_y :: s32
  ev_width :: u32
  ev_height :: u32
  ev_enabled :: u8
  ev_buffer_handle :: u32
  ev_buffer_length :: u32
  ev_pixel_format :: u32
  ev_stride :: u32

text \<open>
  One constructor per event structure, with its payload in the order of the structure:
  \<open>ModeChanged hdisplay vdisplay vrefresh bits_per_pixel pixel_format\<close>,
  \<open>DdcciData buffer buffer_length flags address\<close>.
\<close>

datatype drm_event =
    UpdateReady
  | Dpms s32
  | ModeChanged s32 s32 s32 s32 u32
  | CrtcState s32
  | CursorSet cursor_set_event
  | CursorMove s32 s32
  | DdcciData "u8 list" u32 u16 u16

fun event_type :: "drm_event \<Rightarrow> u32" where
  "event_type UpdateReady = 0x80000000"
| "event_type (Dpms _) = 0x80000001"
| "event_type (ModeChanged _ _ _ _ _) = 0x80000002"
| "event_type (CrtcState _) = 0x80000003"
| "event_type (CursorSet _) = 0x80000004"
| "event_type (CursorMove _ _) = 0x80000005"
| "event_type (DdcciData _ _ _ _) = 0x80000006"

text \<open>The length field: \<open>sizeof\<close> of the event structure, header included.\<close>

fun event_length :: "drm_event \<Rightarrow> u32" where
  "event_length UpdateReady = 8"
| "event_length (Dpms _) = 12"
| "event_length (ModeChanged _ _ _ _ _) = 28"
| "event_length (CrtcState _) = 12"
| "event_length (CursorSet _) = 44"
| "event_length (CursorMove _ _) = 16"
| "event_length (DdcciData _ _ _ _) = 80"

type_synonym drm_file = nat

datatype drm_call =
    SendEvent drm_file drm_event
  | FreeEvent drm_event
  | SendVblank nat nat
  | FbGet nat
  | FbPut nat
  | GemGet nat
  | GemPut nat
  | GemHandleCreate drm_file nat
  | HpdIrq
  | I2cAdd
  | I2cRemove
  | VtRegister
  | VtUnregister

section \<open>Slots that hold a reference\<close>

text \<open>
  Several components keep one counted object in a field and exchange it: the cursor its GEM
  object, the painter its scanout framebuffer. \<open>assign old new\<close> is the calls of one exchange,
  \<open>taken cs a\<close> the references to \<open>a\<close> that \<open>cs\<close> takes, less those it drops. The contract: an
  exchange moves the reference from the old object to the new one, and putting the same object
  in again never lets its count drop on the way.
\<close>

locale ref_slot =
  fixes assign :: "nat option \<Rightarrow> nat option \<Rightarrow> drm_call list"
    and taken :: "drm_call list \<Rightarrow> nat \<Rightarrow> int"
  assumes taken_append: "taken (cs @ ds) a = taken cs a + taken ds a"
    and taken_nil: "taken [] a = 0"
    and assign_taken: "taken (assign old new) a = of_bool (new = Some a) - of_bool (old = Some a)"
    and assign_again: "assign (Some a) (Some a) = cs @ ds \<Longrightarrow> 0 \<le> taken cs a"
begin

fun assign_all :: "nat option \<Rightarrow> nat option list \<Rightarrow> drm_call list" where
  "assign_all old [] = []"
| "assign_all old (new # news) = assign old new @ assign_all new news"

lemma assign_all_taken:
  "taken (assign_all old news) a = of_bool (last (old # news) = Some a) - of_bool (old = Some a)"
  by (induction old news rule: assign_all.induct) (simp_all add: taken_nil taken_append assign_taken)

text \<open>A slot that starts and ends empty has dropped every reference it took.\<close>

lemma assign_all_balanced: "taken (assign_all None (news @ [None])) a = 0"
  by (simp add: assign_all_taken)

end

definition gem_slot_calls :: "nat option \<Rightarrow> nat option \<Rightarrow> drm_call list" where
  "gem_slot_calls old new =
     (case new of None \<Rightarrow> [] | Some b \<Rightarrow> [GemGet b]) @ (case old of None \<Rightarrow> [] | Some a \<Rightarrow> [GemPut a])"

definition fb_slot_calls :: "nat option \<Rightarrow> nat option \<Rightarrow> drm_call list" where
  "fb_slot_calls old new =
     (case new of None \<Rightarrow> [] | Some b \<Rightarrow> [FbGet b]) @ (case old of None \<Rightarrow> [] | Some a \<Rightarrow> [FbPut a])"

definition gem_refs_taken :: "drm_call list \<Rightarrow> nat \<Rightarrow> int" where
  "gem_refs_taken cs a = int (count_list cs (GemGet a)) - int (count_list cs (GemPut a))"

definition fb_refs_taken :: "drm_call list \<Rightarrow> nat \<Rightarrow> int" where
  "fb_refs_taken cs a = int (count_list cs (FbGet a)) - int (count_list cs (FbPut a))"

lemma append_eq_two: "[x, y] = cs @ ds \<Longrightarrow> cs = [] \<or> cs = [x] \<or> cs = [x, y]"
  by (auto simp: Cons_eq_append_conv)

lemma count_list_append: "count_list (cs @ ds) c = count_list cs c + count_list ds c"
  by (induction cs) simp_all

interpretation gem_slot: ref_slot gem_slot_calls gem_refs_taken
proof (unfold_locales, goal_cases)
  case (3 old new a)
  then show ?case
    by (cases old; cases new) (auto simp: gem_slot_calls_def gem_refs_taken_def)
next
  case (4 a cs ds)
  then show ?case
    using append_eq_two [of "GemGet a" "GemPut a" cs ds]
    by (auto simp: gem_slot_calls_def gem_refs_taken_def)
qed (simp_all add: gem_refs_taken_def count_list_append)

interpretation fb_slot: ref_slot fb_slot_calls fb_refs_taken
proof (unfold_locales, goal_cases)
  case (3 old new a)
  then show ?case
    by (cases old; cases new) (auto simp: fb_slot_calls_def fb_refs_taken_def)
next
  case (4 a cs ds)
  then show ?case
    using append_eq_two [of "FbGet a" "FbPut a" cs ds]
    by (auto simp: fb_slot_calls_def fb_refs_taken_def)
qed (simp_all add: fb_refs_taken_def count_list_append)

section \<open>The pending list\<close>

definition is_evdi_event_squashable :: "drm_event \<Rightarrow> bool" where
  "is_evdi_event_squashable event \<longleftrightarrow>
     event_type event = 0x80000004 \<or> event_type event = 0x80000005"

text \<open>The new list, and the events freed: a squashed event replaces the last one in place.\<close>

definition add_event_to_pending_list ::
  "drm_event list \<Rightarrow> drm_event \<Rightarrow> drm_event list \<times> drm_event list" where
  "add_event_to_pending_list lst event =
     (if lst \<noteq> [] \<and> event_type event = event_type (last lst) \<and> is_evdi_event_squashable event
      then (butlast lst @ [event], [last lst])
      else (lst @ [event], []))"

text \<open>
  \<open>reserve k e\<close> says whether the DRM core grants space for \<open>e\<close>, the \<open>k\<close>-th event of this flush.
  The result is the events sent and the events left; the flush stops at the first refusal.
\<close>

fun flush_pending :: "(nat \<Rightarrow> drm_event \<Rightarrow> bool) \<Rightarrow> nat \<Rightarrow> drm_event list \<Rightarrow>
    drm_event list \<times> drm_event list" where
  "flush_pending reserve k [] = ([], [])"
| "flush_pending reserve k (e # es) =
     (if reserve k e
      then let (sent, left) = flush_pending reserve (k + 1) es in (e # sent, left)
      else ([], e # es))"

section \<open>Order and squashing\<close>

lemma flush_pending_append: "flush_pending reserve k es = (sent, left) \<Longrightarrow> sent @ left = es"
  by (induction reserve k es arbitrary: sent left rule: flush_pending.induct)
    (auto split: if_splits prod.splits)

lemma flush_pending_stops:
  "flush_pending reserve k es = (sent, e # left) \<Longrightarrow> \<not> reserve (k + length sent) e"
  by (induction reserve k es arbitrary: sent rule: flush_pending.induct)
    (auto split: if_splits prod.splits)

lemma flush_pending_granted:
  "flush_pending reserve k es = (sent, left) \<Longrightarrow> i < length sent \<Longrightarrow> reserve (k + i) (sent ! i)"
proof (induction reserve k es arbitrary: sent i rule: flush_pending.induct)
  case (2 reserve k e es)
  then show ?case
    by (cases i) (fastforce split: if_splits prod.splits)+
qed simp

lemma squashable_iff: "is_evdi_event_squashable e \<longleftrightarrow> (\<exists>c. e = CursorSet c) \<or> (\<exists>x y. e = CursorMove x y)"
  by (cases e) (simp_all add: is_evdi_event_squashable_def)

lemma squashable_type:
  "event_type e = event_type e' \<Longrightarrow> is_evdi_event_squashable e = is_evdi_event_squashable e'"
  by (simp add: is_evdi_event_squashable_def)

definition kept :: "drm_event list \<Rightarrow> drm_event list" where
  "kept es = filter (\<lambda>e. \<not> is_evdi_event_squashable e) es"

lemma kept_simps [simp]: "kept [] = []" "kept (xs @ ys) = kept xs @ kept ys"
  "kept (e # es) = (if is_evdi_event_squashable e then kept es else e # kept es)"
  by (simp_all add: kept_def)

text \<open>Joining the list loses no event that is not squashable and keeps the order of those.\<close>

lemma kept_add_event:
  assumes "add_event_to_pending_list lst e = (lst', freed)"
  shows "kept lst' = kept (lst @ [e])"
proof (cases "lst \<noteq> [] \<and> event_type e = event_type (last lst) \<and> is_evdi_event_squashable e")
  case True
  then have "is_evdi_event_squashable (last lst)" by (metis is_evdi_event_squashable_def)
  then have "kept lst = kept (butlast lst)"
    using True append_butlast_last_id [of lst] kept_simps(2) [of "butlast lst" "[last lst]"] by simp
  then show ?thesis using assms True by (auto simp: add_event_to_pending_list_def)
qed (use assms in \<open>auto simp: add_event_to_pending_list_def\<close>)

text \<open>No event is lost: each one given is in the list or was freed.\<close>

lemma mset_add_event:
  assumes "add_event_to_pending_list lst e = (lst', freed)"
  shows "mset lst' + mset freed = add_mset e (mset lst)"
proof (cases "lst \<noteq> [] \<and> event_type e = event_type (last lst) \<and> is_evdi_event_squashable e")
  case True
  then have "mset lst = add_mset (last lst) (mset (butlast lst))"
    by (metis append_butlast_last_id mset.simps(2) mset_append union_mset_add_mset_right
        add_0_right mset.simps(1))
  then show ?thesis using assms True by (auto simp: add_event_to_pending_list_def)
qed (use assms in \<open>auto simp: add_event_to_pending_list_def\<close>)

lemma add_event_nonempty: "fst (add_event_to_pending_list lst e) \<noteq> []"
  by (simp add: add_event_to_pending_list_def)

lemma last_add_event: "last (fst (add_event_to_pending_list lst e)) = e"
  by (simp add: add_event_to_pending_list_def)

text \<open>
  Squashing is sound for a client on which a cursor event overwrites what the previous event of
  the same kind told it. The client is a function that folds events into what it knows.
\<close>

locale event_client =
  fixes handle :: "drm_event \<Rightarrow> 's \<Rightarrow> 's"
  assumes overwrite: "event_type e = event_type e' \<Longrightarrow> is_evdi_event_squashable e' \<Longrightarrow>
      handle e' (handle e s) = handle e' s"
begin

lemma add_event_view:
  assumes "add_event_to_pending_list lst e = (lst', freed)"
  shows "fold handle lst' s = fold handle (lst @ [e]) s"
proof (cases "lst \<noteq> [] \<and> event_type e = event_type (last lst) \<and> is_evdi_event_squashable e")
  case True
  then have l: "lst = butlast lst @ [last lst]" by simp
  have "fold handle (lst @ [e]) s = handle e (handle (last lst) (fold handle (butlast lst) s))"
    by (subst l) (simp del: append_butlast_last_id)
  also have "\<dots> = handle e (fold handle (butlast lst) s)"
    using True by (simp add: overwrite)
  finally show ?thesis using assms True by (auto simp: add_event_to_pending_list_def)
qed (use assms in \<open>auto simp: add_event_to_pending_list_def\<close>)

lemma flush_view:
  assumes "flush_pending reserve k es = (sent, left)"
  shows "fold handle (before @ sent @ left) s = fold handle (before @ es) s"
  using flush_pending_append [OF assms] by simp

end

text \<open>
  What a client of libevdi knows after a sequence of events: the last cursor shape and position,
  the power state and mode, and how many updates it was told are ready.
\<close>

record client_view =
  seen_cursor :: "cursor_set_event option"
  seen_position :: "(s32 \<times> s32) option"
  seen_dpms :: "s32 list"
  seen_modes :: "drm_event list"
  seen_updates :: nat
  seen_ddcci :: "drm_event list"

fun view_event :: "drm_event \<Rightarrow> client_view \<Rightarrow> client_view" where
  "view_event UpdateReady v = v\<lparr>seen_updates := seen_updates v + 1\<rparr>"
| "view_event (Dpms m) v = v\<lparr>seen_dpms := seen_dpms v @ [m]\<rparr>"
| "view_event (ModeChanged w h r b f) v =
     v\<lparr>seen_modes := seen_modes v @ [ModeChanged w h r b f]\<rparr>"
| "view_event (CrtcState _) v = v"
| "view_event (CursorSet c) v = v\<lparr>seen_cursor := Some c\<rparr>"
| "view_event (CursorMove x y) v = v\<lparr>seen_position := Some (x, y)\<rparr>"
| "view_event (DdcciData b l f a) v = v\<lparr>seen_ddcci := seen_ddcci v @ [DdcciData b l f a]\<rparr>"

interpretation view: event_client view_event
proof
  fix e e' :: drm_event and s :: client_view
  assume "event_type e = event_type e'" and "is_evdi_event_squashable e'"
  then show "view_event e' (view_event e s) = view_event e' s"
    by (cases e; cases e') (simp_all add: is_evdi_event_squashable_def)
qed

end
