(* ===== verification/Evdi_Fb.thy ===== *)
theory Evdi_Fb
  imports Evdi_Rects Evdi_Gem Evdi_Events
begin

text \<open>
  Framebuffers, \<open>module/evdi_fb.c\<close>: the damage rectangle made sane, the pixel depth of a format,
  framebuffers created for user space from a buffer handle, and the mapping of the console
  framebuffer to user space. The DRM format table is a parameter: it gives the bytes per pixel of
  the formats it knows.
\<close>

section \<open>Framebuffers\<close>

text \<open>
  \<open>struct evdi_framebuffer\<close>: \<open>fb_id\<close> identifies the DRM object, \<open>fb_obj\<close> is the GEM object as
  an address in the object store, \<open>None\<close> for NULL.
\<close>

record evdi_framebuffer =
  fb_id :: nat
  fb_width :: u32
  fb_height :: u32
  fb_pitch :: u32
  fb_offset :: u32
  fb_format :: u32
  fb_cpp :: u8
  fb_obj :: "nat option"
  active :: bool
  is_from_xe :: bool

text \<open>The console's draws give signed 32-bit corners, stored in the unsigned shorts of the rectangle.\<close>

definition damage_rect :: "s32 \<Rightarrow> s32 \<Rightarrow> s32 \<Rightarrow> s32 \<Rightarrow> drm_clip_rect" where
  "damage_rect x y width height =
     \<lparr>x1 = ucast x, y1 = ucast y, x2 = ucast (x + width), y2 = ucast (y + height)\<rparr>"

definition normalise_rect :: "drm_clip_rect \<Rightarrow> drm_clip_rect" where
  "normalise_rect rect =
     (let r1 = (if x2 rect < x1 rect then rect\<lparr>x1 := x2 rect, x2 := x1 rect\<rparr> else rect)
      in if y2 r1 < y1 r1 then r1\<lparr>y1 := y2 r1, y2 := y1 r1\<rparr> else r1)"

definition clamp :: "u16 \<Rightarrow> u32 \<Rightarrow> u16" where
  "clamp v limit = (if limit < ucast v then ucast limit else v)"

definition evdi_framebuffer_sanitize_rect ::
  "evdi_framebuffer \<Rightarrow> drm_clip_rect \<Rightarrow> drm_clip_rect" where
  "evdi_framebuffer_sanitize_rect fb dirty_rect =
     (let rect = normalise_rect dirty_rect
      in \<lparr>x1 = clamp (x1 rect) (fb_width fb), y1 = clamp (y1 rect) (fb_height fb),
          x2 = clamp (x2 rect) (fb_width fb), y2 = clamp (y2 rect) (fb_height fb)\<rparr>)"

section \<open>Formats and user framebuffers\<close>

type_synonym format_table = "u32 \<Rightarrow> u8 option"

definition evdi_fb_get_bpp :: "format_table \<Rightarrow> u32 \<Rightarrow> s32" where
  "evdi_fb_get_bpp format_info format =
     (case format_info format of None \<Rightarrow> 0 | Some cpp0 \<Rightarrow> ucast cpp0 * 8)"

text \<open>\<open>priv\<close> holds an object with its functions exactly when \<open>priv_has_funcs\<close>.\<close>

definition is_xe_gem :: "dma_buf option \<Rightarrow> bool" where
  "is_xe_gem dmabuf =
     (case dmabuf of
        None \<Rightarrow> False
      | Some b \<Rightarrow>
          if \<not> ops_vmap_is_drm b then False
          else case owner b of
              None \<Rightarrow> False
            | Some name \<Rightarrow> if \<not> priv_has_funcs b then False else has_xe_name name)"

record drm_mode_fb_cmd2 =
  cmd_width :: u32
  cmd_height :: u32
  cmd_pixel_format :: u32
  cmd_handle0 :: u32
  cmd_pitch0 :: u32
  cmd_offset0 :: u32

text \<open>
  \<open>drm_helper_mode_fill_fb_struct\<close> copies the command and the format's depth; \<open>fresh\<close> is the id
  \<open>drm_framebuffer_init\<close> gives, or its error.
\<close>

definition evdi_framebuffer_init ::
  "format_table \<Rightarrow> nat result \<Rightarrow> drm_mode_fb_cmd2 \<Rightarrow> nat option \<Rightarrow> evdi_framebuffer \<Rightarrow>
     unit result \<times> evdi_framebuffer" where
  "evdi_framebuffer_init format_info fresh mode_cmd obj efb =
     (let efb1 = efb\<lparr>fb_obj := obj, fb_width := cmd_width mode_cmd,
                     fb_height := cmd_height mode_cmd, fb_pitch := cmd_pitch0 mode_cmd,
                     fb_offset := cmd_offset0 mode_cmd, fb_format := cmd_pixel_format mode_cmd,
                     fb_cpp := (case format_info (cmd_pixel_format mode_cmd) of
                                  None \<Rightarrow> 0 | Some cpp0 \<Rightarrow> cpp0)\<rparr>
      in case fresh of
          Inl ret \<Rightarrow> (Inl ret, efb1)
        | Inr i \<Rightarrow> (Inr (), efb1\<lparr>fb_id := i\<rparr>))"

definition zero_framebuffer :: evdi_framebuffer where
  "zero_framebuffer = \<lparr>fb_id = 0, fb_width = 0, fb_height = 0, fb_pitch = 0, fb_offset = 0,
     fb_format = 0, fb_cpp = 0, fb_obj = None, active = False, is_from_xe = False\<rparr>"

text \<open>The 32-bit size the command asks for: sum, product and alignment all wrap.\<close>

definition user_fb_size :: "drm_mode_fb_cmd2 \<Rightarrow> u32" where
  "user_fb_size mode_cmd =
     ALIGN_PAGE (cmd_offset0 mode_cmd + cmd_pitch0 mode_cmd * cmd_height mode_cmd)"

text \<open>
  The result and the reference calls made. \<open>lookup\<close> is the answer of \<open>drm_gem_object_lookup\<close>,
  which takes a reference: the address and size of the object and the \<open>dma_buf\<close> it was exported
  as, if any.
\<close>

definition evdi_fb_user_fb_create ::
  "format_table \<Rightarrow> (nat \<times> nat \<times> dma_buf option) option \<Rightarrow> bool \<Rightarrow> nat result \<Rightarrow>
     drm_mode_fb_cmd2 \<Rightarrow> evdi_framebuffer result \<times> drm_call list" where
  "evdi_fb_user_fb_create format_info lookup efb_ok fresh mode_cmd =
     (if evdi_fb_get_bpp format_info (cmd_pixel_format mode_cmd) \<noteq> 32 then (Inl EINVAL, [])
      else case lookup of
          None \<Rightarrow> (Inl ENOENT, [])
        | Some (obj, obj_size, obj_dma_buf) \<Rightarrow>
            if obj_size < unat (user_fb_size mode_cmd) then (Inl ENOMEM, [GemGet obj, GemPut obj])
            else if \<not> efb_ok then (Inl ENOMEM, [GemGet obj, GemPut obj])
            else case evdi_framebuffer_init format_info fresh mode_cmd (Some obj) zero_framebuffer of
                (Inl _, _) \<Rightarrow> (Inl EINVAL, [GemGet obj, GemPut obj])
              | (Inr _, efb) \<Rightarrow>
                  (Inr (efb\<lparr>is_from_xe := is_xe_gem obj_dma_buf\<rparr>), [GemGet obj]))"

definition evdi_user_framebuffer_create_handle ::
  "(nat \<Rightarrow> u32 result) \<Rightarrow> evdi_framebuffer \<Rightarrow> u32 result outcome" where
  "evdi_user_framebuffer_create_handle handle_create fb =
     (case fb_obj fb of None \<Rightarrow> Oops | Some obj \<Rightarrow> Ret (handle_create obj))"

definition evdi_user_framebuffer_destroy :: "evdi_framebuffer \<Rightarrow> drm_call list" where
  "evdi_user_framebuffer_destroy fb =
     (case fb_obj fb of None \<Rightarrow> [] | Some obj \<Rightarrow> [GemPut obj])"

section \<open>Mapping the console framebuffer\<close>

lemma mmap_rest_less: "0 < sz \<Longrightarrow> unat (if 4096 < sz then sz - 4096 else 0 :: u64) < unat sz"
  by (auto simp: word_less_nat_alt unat_sub_if')

text \<open>
  The loop of \<open>evdi_fb_mmap\<close>: each round maps one page at \<open>start\<close> to the page frame of the kernel
  address \<open>pos\<close>. The result keeps the (user address, kernel address) pairs mapped so far, also
  when a mapping fails.
\<close>

function fb_mmap_loop ::
  "(u64 \<Rightarrow> u64 \<Rightarrow> bool) \<Rightarrow> u64 \<Rightarrow> u64 \<Rightarrow> u64 \<Rightarrow> unit result \<times> (u64 \<times> u64) list" where
  "fb_mmap_loop remap_fails start pos sz =
     (if 0 < sz then
        if remap_fails start pos then (Inl EAGAIN, [])
        else let (ret, ms) = fb_mmap_loop remap_fails (start + 4096) (pos + 4096)
                    (if 4096 < sz then sz - 4096 else 0)
             in (ret, (start, pos) # ms)
      else (Inr (), []))"
  by pat_completeness auto

termination
  by (relation "measure (\<lambda>(_, _, _, sz). unat sz)") (simp_all only: wf_measure in_measure
      prod.case mmap_rest_less)

declare fb_mmap_loop.simps [simp del]

record fb_fix =
  smem_start :: u64
  smem_len :: u32

definition evdi_fb_mmap ::
  "(u64 \<Rightarrow> u64 \<Rightarrow> bool) \<Rightarrow> fb_fix \<Rightarrow> u64 \<Rightarrow> u64 \<Rightarrow> u64 \<Rightarrow>
     unit result \<times> (u64 \<times> u64) list" where
  "evdi_fb_mmap remap_fails fix vm_start vm_end vm_pgoff =
     (let sz = vm_end - vm_start;
          offset = push_bit PAGE_SHIFT vm_pgoff
      in if drop_bit PAGE_SHIFT (NOT 0) < vm_pgoff then (Inl EINVAL, [])
         else if ucast (smem_len fix) < offset \<or> ucast (smem_len fix) - offset < sz
         then (Inl EINVAL, [])
         else fb_mmap_loop remap_fails vm_start (smem_start fix + offset) sz)"

section \<open>Properties of the rectangle sanitiser\<close>

lemma unat_clamp: "unat (clamp v limit) = min (unat v) (unat limit)"
proof (cases "limit < ucast v")
  case True
  then have l: "unat limit < unat v" by (simp add: word_less_nat_alt)
  then have "unat (ucast limit :: u16) = unat limit"
    using unat_16_less [of v] by (simp add: unsigned_ucast_eq take_bit_nat_eq_self)
  then show ?thesis using True l by (simp add: clamp_def)
next
  case False
  then show ?thesis by (simp add: clamp_def word_less_nat_alt)
qed

lemma normalise_sel [simp]:
  "x1 (normalise_rect r) = min (x1 r) (x2 r)" "x2 (normalise_rect r) = max (x1 r) (x2 r)"
  "y1 (normalise_rect r) = min (y1 r) (y2 r)" "y2 (normalise_rect r) = max (y1 r) (y2 r)"
  by (auto simp: normalise_rect_def Let_def min_def max_def not_le not_less)

lemma normalise_id: "x1 r \<le> x2 r \<Longrightarrow> y1 r \<le> y2 r \<Longrightarrow> normalise_rect r = r"
  by (simp add: normalise_rect_def Let_def)

lemma sanitize_sel [simp]:
  "unat (x1 (evdi_framebuffer_sanitize_rect fb r)) = min (unat (min (x1 r) (x2 r))) (unat (fb_width fb))"
  "unat (y1 (evdi_framebuffer_sanitize_rect fb r)) = min (unat (min (y1 r) (y2 r))) (unat (fb_height fb))"
  "unat (x2 (evdi_framebuffer_sanitize_rect fb r)) = min (unat (max (x1 r) (x2 r))) (unat (fb_width fb))"
  "unat (y2 (evdi_framebuffer_sanitize_rect fb r)) = min (unat (max (y1 r) (y2 r))) (unat (fb_height fb))"
  by (simp_all add: evdi_framebuffer_sanitize_rect_def Let_def unat_clamp)

definition frame_of :: "evdi_framebuffer \<Rightarrow> (nat \<times> nat) set" where
  "frame_of fb = {..<unat (fb_width fb)} \<times> {..<unat (fb_height fb)}"

lemma sanitize_within [inv_intros]:
  "within (unat (fb_width fb)) (unat (fb_height fb)) (evdi_framebuffer_sanitize_rect fb r)"
  by (auto simp: within_def word_le_nat_alt word_bridge)

lemma sanitize_pixels:
  "pixels (evdi_framebuffer_sanitize_rect fb r) = pixels (normalise_rect r) \<inter> frame_of fb"
  by (auto simp: pixel_simps frame_of_def)

section \<open>Properties of user framebuffers\<close>

lemma framebuffer_init_ok:
  assumes "evdi_framebuffer_init format_info fresh cmd obj efb = (Inr u, efb')"
  shows "fb_obj efb' = obj \<and> fb_width efb' = cmd_width cmd \<and> fb_height efb' = cmd_height cmd \<and>
    fb_pitch efb' = cmd_pitch0 cmd \<and> fb_offset efb' = cmd_offset0 cmd"
  using assms by (auto simp: evdi_framebuffer_init_def Let_def split: sum.splits)

lemma user_fb_create_ok:
  assumes "evdi_fb_user_fb_create format_info lookup efb_ok fresh cmd = (Inr efb, cs)"
  shows "\<exists>obj sz buf. lookup = Some (obj, sz, buf) \<and> unat (user_fb_size cmd) \<le> sz \<and>
    cs = [GemGet obj] \<and> fb_obj efb = Some obj \<and> fb_width efb = cmd_width cmd \<and>
    fb_height efb = cmd_height cmd \<and> fb_pitch efb = cmd_pitch0 cmd \<and>
    fb_offset efb = cmd_offset0 cmd \<and> is_from_xe efb = is_xe_gem buf"
proof (cases lookup)
  case None
  then show ?thesis using assms by (simp add: evdi_fb_user_fb_create_def split: if_splits)
next
  case (Some l)
  obtain obj sz buf where l: "l = (obj, sz, buf)" by (cases l) auto
  obtain r efb1 where i:
      "evdi_framebuffer_init format_info fresh cmd (Some obj) zero_framebuffer = (r, efb1)"
    by fastforce
  have "\<not> sz < unat (user_fb_size cmd) \<and> cs = [GemGet obj] \<and>
      efb = efb1\<lparr>is_from_xe := is_xe_gem buf\<rparr> \<and> (\<exists>u. r = Inr u)"
    using assms Some l i
    by (simp add: evdi_fb_user_fb_create_def split: if_splits sum.splits)
  then show ?thesis using Some l i framebuffer_init_ok [of format_info fresh cmd "Some obj"] by auto
qed

lemma user_fb_create_error:
  assumes "evdi_fb_user_fb_create format_info lookup efb_ok fresh cmd = (Inl e, cs)"
  shows "gem_refs_taken cs a = 0"
  using assms
  by (auto simp: evdi_fb_user_fb_create_def gem_refs_taken_def split: if_splits option.splits
      sum.splits prod.splits)

lemma user_fb_size_exact:
  assumes "unat (cmd_offset0 cmd) + unat (cmd_pitch0 cmd) * unat (cmd_height cmd) + 4095 < 2 ^ 32"
  shows "unat (cmd_offset0 cmd) + unat (cmd_pitch0 cmd) * unat (cmd_height cmd)
    \<le> unat (user_fb_size cmd)"
proof -
  let ?w = "cmd_offset0 cmd + cmd_pitch0 cmd * cmd_height cmd"
  have m: "unat (cmd_pitch0 cmd * cmd_height cmd) = unat (cmd_pitch0 cmd) * unat (cmd_height cmd)"
    by (rule unat_mult_exact) (use assms in linarith)
  have w: "unat ?w = unat (cmd_offset0 cmd) + unat (cmd_pitch0 cmd) * unat (cmd_height cmd)"
    by (subst unat_add_exact) (use assms m in linarith)+
  show ?thesis
    using unat_ALIGN_PAGE [of ?w] DIV_ROUND_UP_ge [of 4096 "unat ?w"] assms w
    by (simp add: user_fb_size_def)
qed

section \<open>Properties of the console mapping\<close>

lemma fb_mmap_loop_pages:
  assumes "fb_mmap_loop remap start pos sz = (ret, ms)" and "(u, k) \<in> set ms"
  shows "\<exists>i. u = start + of_nat (i * 4096) \<and> k = pos + of_nat (i * 4096) \<and> i * 4096 < unat sz \<and>
    \<not> remap u k"
  using assms
proof (induction remap start pos sz arbitrary: ret ms rule: fb_mmap_loop.induct)
  case (1 remap start pos sz)
  let ?sz = "if 4096 < sz then sz - 4096 else 0"
  show ?case
  proof (cases "0 < sz \<and> \<not> remap start pos")
    case True
    obtain ret' ms' where r: "fb_mmap_loop remap (start + 4096) (pos + 4096) ?sz = (ret', ms')"
      by fastforce
    have ms: "ms = (start, pos) # ms'"
      using 1(2) True r fb_mmap_loop.simps [of remap start pos sz] by simp
    show ?thesis
    proof (cases "(u, k) = (start, pos)")
      case True
      then show ?thesis
        using \<open>0 < sz \<and> \<not> remap start pos\<close>
        by (intro exI [of _ 0]) (simp add: word_less_nat_alt)
    next
      case False
      then have "(u, k) \<in> set ms'" using 1(3) ms by auto
      then obtain i where i: "u = start + 4096 + of_nat (i * 4096)"
          "k = pos + 4096 + of_nat (i * 4096)" "i * 4096 < unat ?sz" "\<not> remap u k"
        using 1(1) [of ret' ms'] True r by blast
      then have "4096 < sz" by (auto split: if_splits)
      then have "unat ?sz = unat sz - 4096" and "4096 < unat sz"
        by (simp_all add: word_less_nat_alt unat_sub_if')
      with i show ?thesis by (intro exI [of _ "Suc i"]) (simp add: algebra_simps)
    qed
  next
    case False
    then show ?thesis using 1(2,3) fb_mmap_loop.simps [of remap start pos sz] by (auto split: if_splits)
  qed
qed

lemma fb_mmap_loop_length:
  "fb_mmap_loop remap start pos sz = (Inr u, ms) \<Longrightarrow> length ms = DIV_ROUND_UP (unat sz) 4096"
proof (induction remap start pos sz arbitrary: u ms rule: fb_mmap_loop.induct)
  case (1 remap start pos sz)
  let ?sz = "if 4096 < sz then sz - 4096 else 0"
  show ?case
  proof (cases "0 < sz")
    case True
    then have nr: "\<not> remap start pos"
      using 1(2) fb_mmap_loop.simps [of remap start pos sz] by (auto split: if_splits)
    obtain ret' ms' where r: "fb_mmap_loop remap (start + 4096) (pos + 4096) ?sz = (ret', ms')"
      by fastforce
    have ms: "ms = (start, pos) # ms'" "ret' = Inr u"
      using 1(2) True nr r fb_mmap_loop.simps [of remap start pos sz] by simp_all
    have IH: "length ms' = DIV_ROUND_UP (unat ?sz) 4096"
      using 1(1) [of u ms'] True nr r ms by simp
    show ?thesis
    proof (cases "4096 < sz")
      case True
      then have "unat ?sz = unat sz - 4096" and "4096 < unat sz"
        by (simp_all add: word_less_nat_alt unat_sub_if')
      then show ?thesis using IH ms by (simp add: DIV_ROUND_UP_def)
    next
      case False
      then have "unat sz \<le> 4096" "0 < unat sz"
        using \<open>0 < sz\<close> by (simp_all add: word_less_nat_alt)
      then have "(unat sz + 4095) div 4096 = 1" by linarith
      then show ?thesis using IH ms False by (simp add: DIV_ROUND_UP_def)
    qed
  next
    case False
    then have "unat sz = 0" by (simp add: word_less_nat_alt)
    then show ?thesis
      using False 1(2) fb_mmap_loop.simps [of remap start pos sz] by (simp add: DIV_ROUND_UP_def)
  qed
qed

end
