(* ===== verification/Evdi_Cursor.thy ===== *)
theory Evdi_Cursor
  imports Evdi_Fb
begin

text \<open>
  The cursor, \<open>module/evdi_cursor.c\<close>: its shape, position and the reference it keeps on its GEM
  object, the blending of a cursor pixel over a framebuffer pixel, and the loop that composes the
  cursor into the user buffer a frame was copied to. The cursor's lock makes each operation one
  step.
\<close>

section \<open>State and operations\<close>

record evdi_cursor =
  enabled :: bool
  cur_x :: s32
  cur_y :: s32
  cur_width :: u32
  cur_height :: u32
  hot_x :: s32
  hot_y :: s32
  cur_format :: u32
  stride :: u32
  cur_obj :: "nat option"

definition zero_cursor :: evdi_cursor where
  "zero_cursor = \<lparr>enabled = False, cur_x = 0, cur_y = 0, cur_width = 0, cur_height = 0,
     hot_x = 0, hot_y = 0, cur_format = 0, stride = 0, cur_obj = None\<rparr>"

definition evdi_cursor_set_gem ::
  "nat option \<Rightarrow> evdi_cursor \<Rightarrow> evdi_cursor \<times> drm_call list" where
  "evdi_cursor_set_gem obj cursor =
     (cursor\<lparr>cur_obj := obj\<rparr>, gem_slot_calls (cur_obj cursor) obj)"

definition evdi_cursor_init :: "bool \<Rightarrow> evdi_cursor option \<Rightarrow> evdi_cursor result" where
  "evdi_cursor_init ok cursor =
     (if cursor \<noteq> None then Inl EINVAL else if ok then Inr zero_cursor else Inl ENOMEM)"

definition evdi_cursor_free :: "evdi_cursor option \<Rightarrow> drm_call list" where
  "evdi_cursor_free cursor =
     (case cursor of None \<Rightarrow> [] | Some c \<Rightarrow> snd (evdi_cursor_set_gem None c))"

definition evdi_cursor_enable :: "bool \<Rightarrow> evdi_cursor \<Rightarrow> evdi_cursor \<times> drm_call list" where
  "evdi_cursor_enable enable cursor =
     (let c1 = cursor\<lparr>enabled := enable\<rparr>
      in if \<not> enable then evdi_cursor_set_gem None c1 else (c1, []))"

text \<open>
  The operation maps the object first when it is not mapped yet; the objects live in a store.
\<close>

type_synonym gem_store = "nat \<Rightarrow> evdi_gem_object"

definition evdi_cursor_set ::
  "vmap_env \<Rightarrow> nat option \<Rightarrow> u32 \<Rightarrow> u32 \<Rightarrow> s32 \<Rightarrow> s32 \<Rightarrow> u32 \<Rightarrow> u32 \<Rightarrow>
     evdi_cursor \<Rightarrow> gem_store \<Rightarrow> evdi_cursor \<times> gem_store \<times> drm_call list" where
  "evdi_cursor_set env obj width height hx hy pixel_format strd cursor gems =
     (let (err, gems1) =
            (case obj of
               None \<Rightarrow> (Inr (), gems)
             | Some a \<Rightarrow>
                 if vmapping (gems a) = None
                 then let (r, o1) = evdi_gem_vmap env (gems a) in (r, gems(a := o1))
                 else (Inr (), gems));
          obj1 = (case err of Inl _ \<Rightarrow> None | Inr _ \<Rightarrow> obj);
          c1 = cursor\<lparr>enabled := (obj1 \<noteq> None), cur_width := width, cur_height := height,
                 hot_x := hx, hot_y := hy, cur_format := pixel_format, stride := strd\<rparr>;
          (c2, cs) = evdi_cursor_set_gem obj1 c1
      in (c2, gems1, cs))"

definition evdi_cursor_move :: "s32 \<Rightarrow> s32 \<Rightarrow> evdi_cursor \<Rightarrow> evdi_cursor" where
  "evdi_cursor_move x y cursor = cursor\<lparr>cur_x := x, cur_y := y\<rparr>"

definition evdi_cursor_position :: "evdi_cursor \<Rightarrow> s32 \<times> s32" where
  "evdi_cursor_position cursor = (cur_x cursor, cur_y cursor)"

definition evdi_cursor_hotpoint :: "evdi_cursor \<Rightarrow> s32 \<times> s32" where
  "evdi_cursor_hotpoint cursor = (hot_x cursor, hot_y cursor)"

definition evdi_cursor_size :: "evdi_cursor \<Rightarrow> u32 \<times> u32" where
  "evdi_cursor_size cursor = (cur_width cursor, cur_height cursor)"

section \<open>Blending\<close>

definition blend_component :: "u32 \<Rightarrow> u32 \<Rightarrow> u32 \<Rightarrow> u32" where
  "blend_component pixel blend alpha =
     (let pre_blend = pixel * (255 - alpha) + blend * alpha
      in drop_bit 16 (pre_blend + push_bit 8 (pre_blend + 1)))"

definition blend_alpha :: "u32 \<Rightarrow> u32 \<Rightarrow> u32" where
  "blend_alpha pixel_val32 blend_val32 =
     (let alpha = drop_bit 24 blend_val32
      in blend_component (pixel_val32 AND 0xff) (blend_val32 AND 0xff) alpha OR
         push_bit 8 (blend_component (drop_bit 8 (pixel_val32 AND 0xff00))
           (drop_bit 8 (blend_val32 AND 0xff00)) alpha) OR
         push_bit 16 (blend_component (drop_bit 16 (pixel_val32 AND 0xff0000))
           (drop_bit 16 (blend_val32 AND 0xff0000)) alpha))"

section \<open>Composing the cursor into a copied frame\<close>

text \<open>The result says whether \<open>copy_to_user\<close> failed.\<close>

definition evdi_cursor_compose_pixel ::
  "copy_to_user \<Rightarrow> u64 \<Rightarrow> u32 \<Rightarrow> u32 \<Rightarrow> s32 \<Rightarrow> umem \<Rightarrow> bool \<times> umem" where
  "evdi_cursor_compose_pixel ctu buffer cursor_value fb_value cmd_offset mem =
     ctu mem (buffer + scast cmd_offset) (le_bytes 4 (blend_alpha fb_value cursor_value))"

text \<open>
  The body of the loop for one cursor pixel \<open>(y, x)\<close>, relative to the middle of the cursor.
  \<open>cbuf\<close> and \<open>fbuf\<close> are the mapped bytes of the cursor and of the framebuffer (\<open>None\<close> when not
  mapped); a read outside them is an \<open>Oops\<close>.
\<close>

definition mouse_pix :: "s32 \<Rightarrow> int \<Rightarrow> u32 \<Rightarrow> s32" where
  "mouse_pix pos k half = pos + of_int k + half"

definition compose_step ::
  "copy_to_user \<Rightarrow> evdi_cursor \<Rightarrow> u8 list \<Rightarrow> evdi_framebuffer \<Rightarrow> u8 list option \<Rightarrow> u64 \<Rightarrow> s32 \<Rightarrow>
     int \<times> int \<Rightarrow> umem \<Rightarrow> (unit result \<times> umem) outcome" where
  "compose_step ctu cursor cbuf fb fbuf buffer buf_byte_stride p mem =
     (let (y, x) = p;
          h_cursor_w = drop_bit 1 (cur_width cursor);
          h_cursor_h = drop_bit 1 (cur_height cursor);
          mouse_pix_x = mouse_pix (cur_x cursor) x h_cursor_w;
          mouse_pix_y = mouse_pix (cur_y cursor) y h_cursor_h;
          is_pix_sane = (0 \<le> sint mouse_pix_x \<and> 0 \<le> sint mouse_pix_y \<and>
            sint mouse_pix_x < sint (fb_width fb) \<and> sint mouse_pix_y < sint (fb_height fb))
      in if \<not> is_pix_sane then Ret (Inr (), mem)
         else
           let cursor_pix = h_cursor_w + of_int x + (h_cursor_h + of_int y) * cur_width cursor;
               fb_pix = drop_bit 2 (fb_pitch fb) * mouse_pix_y + mouse_pix_x;
               cmd_offset = buf_byte_stride * mouse_pix_y + mouse_pix_x * 4
           in case (kread cbuf (4 * sint cursor_pix) 4, fbuf) of
                (Some cb, Some fbytes) \<Rightarrow>
                  (case kread fbytes (uint (fb_offset fb) + 4 * uint fb_pix) 4 of
                     None \<Rightarrow> Oops
                   | Some fv \<Rightarrow>
                       let (failed, mem1) = evdi_cursor_compose_pixel ctu buffer (le_word cb)
                             (le_word fv) cmd_offset mem
                       in if failed then Ret (Inl EFAULT, mem1) else Ret (Inr (), mem1))
              | _ \<Rightarrow> Oops)"

fun compose_loop ::
  "('p \<Rightarrow> umem \<Rightarrow> (unit result \<times> umem) outcome) \<Rightarrow> 'p list \<Rightarrow> umem \<Rightarrow>
     (unit result \<times> umem) outcome" where
  "compose_loop body [] mem = Ret (Inr (), mem)"
| "compose_loop body (p # ps) mem =
     (case body p mem of
        Oops \<Rightarrow> Oops
      | Ret (Inl e, mem1) \<Rightarrow> Ret (Inl e, mem1)
      | Ret (Inr _, mem1) \<Rightarrow> compose_loop body ps mem1)"

text \<open>The two nested loops, from minus one half to one half of the cursor's height and width.\<close>

definition cursor_points :: "evdi_cursor \<Rightarrow> (int \<times> int) list" where
  "cursor_points cursor =
     (let w = sint (drop_bit 1 (cur_width cursor)); h = sint (drop_bit 1 (cur_height cursor))
      in concat (map (\<lambda>y. map (\<lambda>x. (y, x)) [-w..w - 1]) [-h..h - 1]))"

definition evdi_cursor_compose_and_copy ::
  "format_table \<Rightarrow> copy_to_user \<Rightarrow> gem_store \<Rightarrow> evdi_cursor \<Rightarrow> evdi_framebuffer \<Rightarrow> u64 \<Rightarrow> s32 \<Rightarrow>
     umem \<Rightarrow> (unit result \<times> umem) outcome" where
  "evdi_cursor_compose_and_copy format_info ctu gems cursor efb buffer buf_byte_stride mem =
     (if \<not> enabled cursor then Ret (Inr (), mem)
      else case cur_obj cursor of
          None \<Rightarrow> Ret (Inl EINVAL, mem)
        | Some co \<Rightarrow>
            (case vmapping (gems co) of
               None \<Rightarrow> Ret (Inl EINVAL, mem)
             | Some cbuf \<Rightarrow>
                 let bytespp = (evdi_fb_get_bpp format_info (cur_format cursor) + 7) div 8
                 in if bytespp \<noteq> 4 then Ret (Inl EINVAL, mem)
                    else if gem_size (gems co) < unat (cur_width cursor * cur_height cursor * bytespp)
                    then Ret (Inl EINVAL, mem)
                    else compose_loop
                      (compose_step ctu cursor cbuf efb
                         (Option.bind (fb_obj efb) (\<lambda>a. vmapping (gems a))) buffer buf_byte_stride)
                      (cursor_points cursor) mem))"

section \<open>The reference the cursor keeps\<close>

text \<open>Every operation exchanges the cursor's object with the calls of the slot contract.\<close>

lemma cursor_set_gem_slot:
  "evdi_cursor_set_gem obj c = (c', cs) \<Longrightarrow>
     cs = gem_slot_calls (cur_obj c) (cur_obj c') \<and> cur_obj c' = obj"
  by (auto simp: evdi_cursor_set_gem_def)

lemma cursor_set_slot:
  "evdi_cursor_set env obj w h hx hy pf st c gems = (c', gems', cs) \<Longrightarrow>
     cs = gem_slot_calls (cur_obj c) (cur_obj c') \<and> (enabled c' \<longleftrightarrow> cur_obj c' \<noteq> None)"
  by (auto simp: evdi_cursor_set_def evdi_cursor_set_gem_def Let_def split: prod.splits)

lemma cursor_enable_slot:
  "evdi_cursor_enable en c = (c', cs) \<Longrightarrow>
     (if en then cs = [] \<and> cur_obj c' = cur_obj c
      else cs = gem_slot_calls (cur_obj c) (cur_obj c') \<and> cur_obj c' = None)"
  by (auto simp: evdi_cursor_enable_def evdi_cursor_set_gem_def split: if_splits)

section \<open>Blending is exact\<close>

lemma div_255_shift:
  assumes "v \<le> 255 * 255"
  shows "(v + (v + 1) * 256) div 65536 = v div (255 :: nat)"
proof -
  obtain q r where v: "v = 255 * q + r" "r < 255"
    using mult_div_mod_eq [of 255 v] mod_less_divisor [of 255 v] by (metis zero_less_numeral)
  then have "q \<le> 255" using assms by simp
  then show ?thesis using v by simp
qed

lemma unat_push_8: "unat (x :: u32) < 2 ^ 24 \<Longrightarrow> unat (push_bit 8 x) = unat x * 256"
  by (simp add: push_bit_eq_mult unat_mult_exact)

lemma mix_le:
  assumes "p \<le> 255" and "b \<le> 255" and "a \<le> (255 :: nat)"
  shows "p * (255 - a) + b * a \<le> 255 * 255"
proof -
  have "p * (255 - a) \<le> 255 * (255 - a)" and "b * a \<le> 255 * a"
    using assms by (auto intro: mult_right_mono)
  moreover have "255 * (255 - a) + 255 * a = 255 * (255 :: nat)" using assms(3) by simp
  ultimately show ?thesis by linarith
qed

lemma unat_blend_component:
  assumes "unat pixel \<le> 255" and "unat blend \<le> 255" and "unat alpha \<le> 255"
  shows "unat (blend_component pixel blend alpha)
    = (unat pixel * (255 - unat alpha) + unat blend * unat alpha) div 255"
proof -
  define v where "v = unat pixel * (255 - unat alpha) + unat blend * unat alpha"
  let ?w = "pixel * (255 - alpha) + blend * alpha"
  have le: "v \<le> 255 * 255" unfolding v_def by (rule mix_le [OF assms])
  have d: "unat (255 - alpha) = 255 - unat alpha"
    by (subst unat_sub_exact) (use assms(3) in simp_all)
  have m1: "unat (pixel * (255 - alpha)) = unat pixel * (255 - unat alpha)"
    by (subst unat_mult_exact) (use le d in \<open>simp_all add: v_def\<close>)
  have m2: "unat (blend * alpha) = unat blend * unat alpha"
    by (rule unat_mult_exact) (use le in \<open>simp add: v_def\<close>)
  have w: "unat ?w = v"
    by (subst unat_add_exact) (use le m1 m2 in \<open>simp_all add: v_def\<close>)
  have w1: "unat (?w + 1) = v + 1"
    by (subst unat_add_exact) (use le w in simp_all)
  have p: "unat (push_bit 8 (?w + 1)) = (v + 1) * 256"
    using unat_push_8 [of "?w + 1"] w1 le by simp
  have "unat (?w + push_bit 8 (?w + 1)) = v + (v + 1) * 256"
    by (subst unat_add_exact) (use le in \<open>simp_all add: w p\<close>)
  then show ?thesis
    using div_255_shift [OF le]
    by (simp add: blend_component_def Let_def unat_drop_bit_eq drop_bit_eq_div unat_div v_def [symmetric])
qed

text \<open>Colour channel \<open>i\<close> of a pixel: blue, green, red, alpha.\<close>

definition channel :: "nat \<Rightarrow> u32 \<Rightarrow> nat" where
  "channel i w = unat (take_bit 8 (drop_bit (8 * i) w))"

lemma channel_less: "channel i w < 256"
proof -
  have "channel i w = unat (drop_bit (8 * i) w) mod 2 ^ 8"
    unfolding channel_def by (rule trans [OF unsigned_take_bit_eq take_bit_eq_mod])
  then show ?thesis by simp
qed

lemma small_bits: "unat (c :: u32) < 256 \<Longrightarrow> 8 \<le> n \<Longrightarrow> \<not> bit c n"
proof -
  assume "unat c < 256" and n: "8 \<le> n"
  then have "take_bit 8 c = c"
    by (intro word_unat_eq_iff [THEN iffD2]) (simp add: unsigned_take_bit_eq take_bit_nat_eq_self)
  then show ?thesis using n by (metis bit_take_bit_iff not_less)
qed

lemma pack_channels:
  fixes a b c :: u32
  assumes "unat a < 256" and "unat b < 256" and "unat c < 256"
  shows "take_bit 8 (a OR push_bit 8 b OR push_bit 16 c) = a"
    and "take_bit 8 (drop_bit 8 (a OR push_bit 8 b OR push_bit 16 c)) = b"
    and "take_bit 8 (drop_bit 16 (a OR push_bit 8 b OR push_bit 16 c)) = c"
    and "take_bit 8 (drop_bit 24 (a OR push_bit 8 b OR push_bit 16 c)) = 0"
  using small_bits [OF assms(1)] small_bits [OF assms(2)] small_bits [OF assms(3)]
  by (auto intro!: bit_word_eqI simp: bit_simps simp flip: not_le)


text \<open>The masks and shifts of the code read the channels.\<close>

lemma channel_masks:
  "p AND 0xff = take_bit 8 (drop_bit 0 (p :: u32))"
  "drop_bit 8 (p AND 0xff00) = take_bit 8 (drop_bit 8 p)"
  "drop_bit 16 (p AND 0xff0000) = take_bit 8 (drop_bit 16 p)"
  "take_bit 8 (drop_bit 24 p) = drop_bit 24 p"
proof -
  have m: "(0xff :: u32) = mask 8" "(0xff00 :: u32) = push_bit 8 (mask 8)"
    "(0xff0000 :: u32) = push_bit 16 (mask 8)"
    by (simp_all add: mask_eq_exp_minus_1)
  show "p AND 0xff = take_bit 8 (drop_bit 0 p)" by (simp add: m take_bit_eq_mask)
  show "drop_bit 8 (p AND 0xff00) = take_bit 8 (drop_bit 8 p)"
    "drop_bit 16 (p AND 0xff0000) = take_bit 8 (drop_bit 16 p)"
    unfolding m by (auto intro!: bit_word_eqI simp: bit_simps)
  have "unat p div 2 ^ 24 < 2 ^ 8" using unat_32_less [of p] by simp
  then show "take_bit 8 (drop_bit 24 p) = drop_bit 24 p"
    by (intro word_unat_eq_iff [THEN iffD2])
      (simp add: unsigned_take_bit_eq take_bit_nat_eq_self drop_bit_eq_div unat_div)
qed

definition blended :: "u32 \<Rightarrow> u32 \<Rightarrow> nat \<Rightarrow> nat" where
  "blended fb_value curs_val i =
     (channel i fb_value * (255 - channel 3 curs_val) + channel i curs_val * channel 3 curs_val) div 255"

lemma blend_alpha_channels:
  "channel 0 (blend_alpha p b) = blended p b 0" "channel 1 (blend_alpha p b) = blended p b 1"
  "channel 2 (blend_alpha p b) = blended p b 2" "channel 3 (blend_alpha p b) = 0"
proof -
  let ?k = "\<lambda>i. take_bit 8 (drop_bit (8 * i) p)" and ?b = "\<lambda>i. take_bit 8 (drop_bit (8 * i) b)"
  let ?m = "\<lambda>i. blend_component (?k i) (?b i) (?b 3)"
  have c: "unat (?k i) \<le> 255" "unat (?b i) \<le> 255" for i
    using channel_less [of i p] channel_less [of i b] by (simp_all add: channel_def)
  have m: "unat (?m i) = blended p b i" for i
    using unat_blend_component [OF c(1) c(2) c(2), of i i 3] by (simp add: blended_def channel_def)
  have le: "unat (?m i) \<le> 255" for i
  proof -
    have "blended p b i \<le> 255 * 255 div 255"
      unfolding blended_def by (rule div_le_mono, rule mix_le)
        (use channel_less [of i p] channel_less [of i b] channel_less [of 3 b] in simp_all)
    then show ?thesis using m [of i] by simp
  qed
  have l: "unat (?m i) < 256" for i using le [of i] by linarith
  have e: "blend_alpha p b = ?m 0 OR push_bit 8 (?m 1) OR push_bit 16 (?m 2)"
    by (simp add: blend_alpha_def Let_def channel_masks)
  note pk = pack_channels [OF l l l, of 0 1 2]
  show "channel 0 (blend_alpha p b) = blended p b 0" "channel 1 (blend_alpha p b) = blended p b 1"
    "channel 2 (blend_alpha p b) = blended p b 2" "channel 3 (blend_alpha p b) = 0"
    using pk m [of 0] m [of 1] m [of 2] unfolding e channel_def by simp_all
qed

section \<open>Composing reads and writes inside its buffers\<close>

text \<open>
  A framebuffer whose mapped bytes hold every line of it, and whose sizes fit the 32-bit
  arithmetic on them.
\<close>

definition fb_readable :: "gem_store \<Rightarrow> evdi_framebuffer \<Rightarrow> bool" where
  "fb_readable gems fb =
     (case Option.bind (fb_obj fb) (\<lambda>a. vmapping (gems a)) of
        None \<Rightarrow> False
      | Some bytes \<Rightarrow>
          unat (fb_offset fb) + unat (fb_pitch fb) * unat (fb_height fb) \<le> length bytes \<and>
          4 * unat (fb_width fb) \<le> unat (fb_pitch fb) \<and>
          unat (fb_pitch fb) * unat (fb_height fb) < 2 ^ 32 \<and>
          unat (fb_width fb) < 2 ^ 31 \<and> unat (fb_height fb) < 2 ^ 31)"

lemma sint_nonneg: "0 \<le> sint (m :: s32) \<Longrightarrow> sint m = int (unat m)"
proof -
  assume "0 \<le> sint m"
  moreover have "sint m < 2 ^ 31" using sint_lt [of m] by simp
  ultimately have "uint m = sint m" by (simp add: uint_sint take_bit_int_eq_self)
  then show ?thesis by simp
qed

lemma row_pixel_le:
  assumes "y < h" and "4 * x + 4 \<le> (p :: nat)"
  shows "4 * (p div 4 * y + x) + 4 \<le> p * h"
proof -
  have "4 * (p div 4) * y \<le> p * y" by (rule mult_right_mono) simp_all
  moreover have "p * (y + 1) \<le> p * h" by (rule mult_left_mono) (use assms in simp_all)
  moreover have "4 * (p div 4 * y + x) = 4 * (p div 4) * y + 4 * x" "p * (y + 1) = p * y + p"
    by (simp_all add: algebra_simps)
  ultimately show ?thesis using assms by linarith
qed

lemma four_bound: "4 * k + 4 \<le> c \<Longrightarrow> c < 2 ^ 32 \<Longrightarrow> (k :: nat) < 2 ^ 32"
  by simp

lemma four_bound': "k + 1 \<le> c \<Longrightarrow> c * 4 < 2 ^ 32 \<Longrightarrow> (k :: nat) < 2 ^ 31"
  by simp

lemma four_index: "k + 1 \<le> c \<Longrightarrow> c * 4 \<le> n \<Longrightarrow> 4 * int k + 4 \<le> int (n :: nat)"
  by simp

lemma fb_pixel_read:
  assumes "fb_readable gems fb" and "Option.bind (fb_obj fb) (\<lambda>a. vmapping (gems a)) = Some bytes"
    and "unat mx < unat (fb_width fb)" and "unat my < unat (fb_height fb)"
  shows "kread bytes (uint (fb_offset fb) + 4 * uint (drop_bit 2 (fb_pitch fb) * my + mx)) 4 \<noteq> None"
proof -
  let ?p = "unat (fb_pitch fb)"
  have r: "unat (fb_offset fb) + ?p * unat (fb_height fb) \<le> length bytes"
    "4 * unat (fb_width fb) \<le> ?p" "?p * unat (fb_height fb) < 2 ^ 32"
    using assms(1,2) by (simp_all add: fb_readable_def)
  have le: "4 * (?p div 4 * unat my + unat mx) + 4 \<le> ?p * unat (fb_height fb)"
    by (rule row_pixel_le) (use assms r in simp_all)
  have d: "unat (drop_bit 2 (fb_pitch fb)) = ?p div 4" by (simp only: unat_drop_bit_div) simp
  have "?p div 4 * unat my + unat mx < 2 ^ 32"
    by (rule four_bound [OF le r(3)])
  then have b: "?p div 4 * unat my < 2 ^ 32" "?p div 4 * unat my + unat mx < 2 ^ 32" by simp_all
  have m: "unat (drop_bit 2 (fb_pitch fb) * my) = ?p div 4 * unat my"
    using unat_mult_exact [of "drop_bit 2 (fb_pitch fb)" my] b(1) unfolding d .
  have i: "unat (drop_bit 2 (fb_pitch fb) * my + mx) = ?p div 4 * unat my + unat mx"
    using unat_add_exact [of "drop_bit 2 (fb_pitch fb) * my" mx] b(2) unfolding m .
  have "uint (drop_bit 2 (fb_pitch fb) * my + mx) = int (?p div 4 * unat my + unat mx)"
    using i by (metis uint_nat)
  moreover have "uint (fb_offset fb) = int (unat (fb_offset fb))" by simp
  moreover have "int (unat (fb_offset fb)) + 4 * int (?p div 4 * unat my + unat mx) + 4
      \<le> int (length bytes)"
    using le r(1) by linarith
  ultimately show ?thesis by (simp add: kread_def)
qed

text \<open>The index of a cursor pixel, for a cursor whose pixels fit 32-bit byte counts.\<close>

lemma half_sint: "sint (drop_bit 1 (w :: u32)) = int (unat w div 2)"
proof -
  have u: "unat (drop_bit 1 w) = unat w div 2" by (simp only: unat_drop_bit_div) simp
  then have "unat (drop_bit 1 w) < 2 ^ 31" using unat_32_less [of w] by simp
  then show ?thesis using sint_eq_unat [of "drop_bit 1 w"] u by (simp only:)
qed

lemma half_plus: "- int (unat w div 2) \<le> x \<Longrightarrow> x < int (unat w div 2) \<Longrightarrow>
    \<exists>i. i < unat w \<and> drop_bit 1 w + of_int x = (of_nat i :: u32)"
proof -
  assume x: "- int (unat w div 2) \<le> x" "x < int (unat w div 2)"
  let ?i = "nat (int (unat w div 2) + x)"
  have "of_nat (unat (drop_bit 1 w)) = drop_bit 1 w" by (simp only: of_nat_unat ucast_id)
  then have "drop_bit 1 w = (of_nat (unat w div 2) :: u32)"
    unfolding unat_drop_bit_div by simp
  then have "drop_bit 1 w + of_int x = (of_int (int ?i) :: u32)" using x by simp
  moreover have "?i < unat w" using x by linarith
  ultimately show ?thesis by (intro exI [of _ ?i]) simp
qed

lemma index_le: "i < w \<Longrightarrow> j < h \<Longrightarrow> i + j * w + 1 \<le> w * (h :: nat)"
proof -
  assume "i < w" "j < h"
  then have "w * (j + 1) \<le> w * h" by (intro mult_left_mono) simp_all
  then show ?thesis using \<open>i < w\<close> by (simp add: algebra_simps)
qed

lemma cursor_pixel_read:
  assumes "unat w * unat h * 4 < 2 ^ 32" and "unat w * unat h * 4 \<le> length cbuf"
    and x: "- int (unat w div 2) \<le> x" "x < int (unat w div 2)"
    and y: "- int (unat h div 2) \<le> y" "y < int (unat h div 2)"
  shows "kread cbuf (4 * sint (drop_bit 1 w + of_int x + (drop_bit 1 h + of_int y) * (w :: u32))) 4
    \<noteq> None"
proof -
  obtain i where i: "i < unat w" "drop_bit 1 w + of_int x = (of_nat i :: u32)"
    using half_plus [OF x] by blast
  obtain j where j: "j < unat h" "drop_bit 1 h + of_int y = (of_nat j :: u32)"
    using half_plus [OF y] by blast
  have le: "i + j * unat w + 1 \<le> unat w * unat h" by (rule index_le [OF i(1) j(1)])
  then have s: "i + j * unat w < 2 ^ 31" by (rule four_bound' [OF _ assms(1)])
  have "drop_bit 1 w + of_int x + (drop_bit 1 h + of_int y) * w
      = (of_nat (i + j * unat w) :: u32)"
    unfolding i j by simp
  moreover have u: "unat (of_nat (i + j * unat w) :: u32) = i + j * unat w"
    by (rule unat_of_nat_32) (use le assms(1) in linarith)
  moreover have "sint (of_nat (i + j * unat w) :: u32) = int (i + j * unat w)"
    using sint_eq_unat [of "of_nat (i + j * unat w)"] s unfolding u .
  moreover have "4 * int (i + j * unat w) + 4 \<le> int (length cbuf)"
    by (rule four_index [OF le assms(2)])
  ultimately show ?thesis by (simp add: kread_def)
qed

text \<open>The byte offset of a pixel in the user buffer.\<close>

lemma user_pixel_offset:
  assumes "4 * unat w \<le> unat s" and "unat s * unat h < 2 ^ 31" and "unat mx < unat w"
    and "unat my < unat h"
  shows "\<exists>off. scast (s * my + mx * 4 :: s32) = (of_nat off :: u64) \<and> off + 4 \<le> unat s * unat h"
proof -
  let ?off = "unat s * unat my + unat mx * 4"
  have "unat s * (unat my + 1) \<le> unat s * unat h"
    by (rule mult_left_mono) (use assms(4) in simp_all)
  then have le: "?off + 4 \<le> unat s * unat h" using assms(1,3) by (simp add: algebra_simps)
  have m: "unat (s * my) = unat s * unat my" by (rule unat_mult_exact) (use le assms(2) in simp)
  have x: "unat (mx * 4) = unat mx * 4"
    by (subst unat_mult_exact) (use le assms(2) in simp_all)
  have u: "unat (s * my + mx * 4) = ?off"
    by (subst unat_add_exact) (use le assms(2) in \<open>simp_all add: m x\<close>)
  then have "sint (s * my + mx * 4) = int ?off"
    by (subst sint_eq_unat) (use le assms(2) in simp_all)
  then have "scast (s * my + mx * 4 :: s32) = (of_nat ?off :: u64)"
    unfolding scast_eq by (simp only: of_int_of_nat_eq)
  then show ?thesis using le by blast
qed

text \<open>One step, and the whole loop: no access out of bounds, no write outside the user buffer.\<close>

definition in_halves :: "evdi_cursor \<Rightarrow> int \<times> int \<Rightarrow> bool" where
  "in_halves c p \<longleftrightarrow>
     - int (unat (cur_height c) div 2) \<le> fst p \<and> fst p < int (unat (cur_height c) div 2) \<and>
     - int (unat (cur_width c) div 2) \<le> snd p \<and> snd p < int (unat (cur_width c) div 2)"

lemma cursor_points_halves: "p \<in> set (cursor_points c) \<Longrightarrow> in_halves c p"
  unfolding cursor_points_def in_halves_def half_sint Let_def by auto

definition step_safe :: "u64 \<Rightarrow> nat \<Rightarrow> umem \<Rightarrow> (unit result \<times> umem) outcome \<Rightarrow> bool" where
  "step_safe buffer n mem r \<longleftrightarrow>
     (case r of Oops \<Rightarrow> False
      | Ret (_, mem') \<Rightarrow> \<forall>b. b \<notin> addressed buffer n \<longrightarrow> mem' b = mem b)"

lemma compose_loop_safe:
  "(\<And>p m. p \<in> set ps \<Longrightarrow> step_safe buffer n m (body p m)) \<Longrightarrow>
     step_safe buffer n mem (compose_loop body ps mem)"
proof (induction ps arbitrary: mem)
  case Nil
  then show ?case by (simp add: step_safe_def)
next
  case (Cons p ps)
  have p: "step_safe buffer n mem (body p mem)" using Cons.prems by simp
  show ?case
  proof (cases "body p mem")
    case Oops
    then show ?thesis using p by (simp add: step_safe_def)
  next
    case (Ret r)
    obtain res mem1 where r: "r = (res, mem1)" by (cases r)
    have "step_safe buffer n mem1 (compose_loop body ps mem1)" using Cons by simp
    then show ?thesis
      using p Ret r by (cases res) (auto simp: step_safe_def split: outcome.splits)
  qed
qed

text \<open>Either the pixel is off screen or four bytes go to the address of an on-screen pixel.\<close>

lemma compose_step_cases:
  assumes fb: "fb_readable gems efb"
    and fbuf: "fbuf = Option.bind (fb_obj efb) (\<lambda>a. vmapping (gems a))"
    and cur: "unat (cur_width c) * unat (cur_height c) * 4 < 2 ^ 32"
      "unat (cur_width c) * unat (cur_height c) * 4 \<le> length cbuf"
    and p: "in_halves c p"
  shows "compose_step ctu c cbuf efb fbuf buffer s p mem = Ret (Inr (), mem) \<or>
    (\<exists>mx my bs. unat mx < unat (fb_width efb) \<and> unat my < unat (fb_height efb) \<and> length bs = 4 \<and>
       compose_step ctu c cbuf efb fbuf buffer s p mem =
         (case ctu mem (buffer + scast (s * my + mx * 4)) bs of
            (fl, mem1) \<Rightarrow> Ret (if fl then Inl EFAULT else Inr (), mem1)))"
proof -
  obtain y x where yx: "p = (y, x)" by (cases p)
  define mx my where "mx = mouse_pix (cur_x c) x (drop_bit 1 (cur_width c))"
    and "my = mouse_pix (cur_y c) y (drop_bit 1 (cur_height c))"
  let ?sane = "0 \<le> sint mx \<and> 0 \<le> sint my \<and> sint mx < sint (fb_width efb) \<and>
    sint my < sint (fb_height efb)"
  show ?thesis
  proof (cases ?sane)
    case False
    then have "compose_step ctu c cbuf efb fbuf buffer s p mem = Ret (Inr (), mem)"
      unfolding compose_step_def Let_def yx prod.case mx_def [symmetric] my_def [symmetric]
      by (simp only: if_True simp_thms)
    then show ?thesis ..
  next
    case True
    obtain bytes where bytes: "fbuf = Some bytes"
      using fb by (auto simp: fb_readable_def fbuf split: option.splits)
    have "unat (fb_width efb) < 2 ^ 31" "unat (fb_height efb) < 2 ^ 31"
      using fb bytes fbuf by (simp_all add: fb_readable_def)
    then have m: "unat mx < unat (fb_width efb)" "unat my < unat (fb_height efb)"
      using True sint_nonneg [of mx] sint_nonneg [of my] sint_eq_unat [of "fb_width efb"]
        sint_eq_unat [of "fb_height efb"] by linarith+
    let ?ci = "drop_bit 1 (cur_width c) + of_int x
      + (drop_bit 1 (cur_height c) + of_int y) * cur_width c"
    obtain cb where cb: "kread cbuf (4 * sint ?ci) 4 = Some cb"
      using cursor_pixel_read [OF cur, of x y] p by (auto simp: in_halves_def yx)
    let ?fi = "drop_bit 2 (fb_pitch efb) * my + mx"
    obtain fv where fv: "kread bytes (uint (fb_offset efb) + 4 * uint ?fi) 4 = Some fv"
      using fb_pixel_read [OF fb, of bytes mx my] m bytes fbuf by auto
    let ?bs = "le_bytes 4 (blend_alpha (le_word fv) (le_word cb))"
    obtain fl mem1 where w: "ctu mem (buffer + scast (s * my + mx * 4)) ?bs = (fl, mem1)"
      by fastforce
    have e: "compose_step ctu c cbuf efb fbuf buffer s p mem
        = Ret (if fl then Inl EFAULT else Inr (), mem1)"
      unfolding compose_step_def Let_def yx prod.case mx_def [symmetric] my_def [symmetric]
        bytes cb fv evdi_cursor_compose_pixel_def w
      using True by (simp add: cb fv w)
    show ?thesis
      using m e w by (intro disjI2 exI [of _ mx] exI [of _ my] exI [of _ ?bs] conjI) simp_all
  qed
qed

lemma compose_step_no_oops:
  assumes "fb_readable gems efb" and "fbuf = Option.bind (fb_obj efb) (\<lambda>a. vmapping (gems a))"
    and "unat (cur_width c) * unat (cur_height c) * 4 < 2 ^ 32"
    and "unat (cur_width c) * unat (cur_height c) * 4 \<le> length cbuf" and "in_halves c p"
  shows "compose_step ctu c cbuf efb fbuf buffer s p mem \<noteq> Oops"
  using compose_step_cases [OF assms, of ctu buffer s mem] by (auto simp: case_prod_unfold)

lemma compose_step_safe:
  assumes ctu: "copy_to_user_ok ctu" and fb: "fb_readable gems efb"
    and fbuf: "fbuf = Option.bind (fb_obj efb) (\<lambda>a. vmapping (gems a))"
    and cur: "unat (cur_width c) * unat (cur_height c) * 4 < 2 ^ 32"
      "unat (cur_width c) * unat (cur_height c) * 4 \<le> length cbuf"
    and stride: "4 * unat (fb_width efb) \<le> unat s" "unat s * unat (fb_height efb) < 2 ^ 31"
    and p: "in_halves c p"
  shows "step_safe buffer (unat s * unat (fb_height efb)) mem
    (compose_step ctu c cbuf efb fbuf buffer s p mem)"
  using compose_step_cases [OF fb fbuf cur p, of ctu buffer s mem]
proof (elim disjE exE conjE)
  assume "compose_step ctu c cbuf efb fbuf buffer s p mem = Ret (Inr (), mem)"
  then show ?thesis by (simp add: step_safe_def)
next
  fix mx my :: s32 and bs :: "u8 list"
  assume m: "unat mx < unat (fb_width efb)" "unat my < unat (fb_height efb)" "length bs = 4"
    and e: "compose_step ctu c cbuf efb fbuf buffer s p mem =
      (case ctu mem (buffer + scast (s * my + mx * 4)) bs of
         (fl, mem1) \<Rightarrow> Ret (if fl then Inl EFAULT else Inr (), mem1))"
  obtain fl mem1 where w: "ctu mem (buffer + scast (s * my + mx * 4)) bs = (fl, mem1)" by fastforce
  obtain off where off: "scast (s * my + mx * 4 :: s32) = (of_nat off :: u64)"
      "off + 4 \<le> unat s * unat (fb_height efb)"
    using user_pixel_offset [OF stride m(1,2)] by blast
  have "addressed (buffer + scast (s * my + mx * 4)) (length bs)
      \<subseteq> addressed buffer (unat s * unat (fb_height efb))"
    using addressed_mono [OF off(2), of buffer] off(1) m(3) by simp
  then show ?thesis
    using copy_frame [OF ctu w] unfolding e step_safe_def w by auto
qed

lemma compose_loop_no_oops:
  "(\<And>p m. p \<in> set ps \<Longrightarrow> body p m \<noteq> Oops) \<Longrightarrow> compose_loop body ps mem \<noteq> Oops"
  by (induction body ps mem rule: compose_loop.induct) (auto split: outcome.splits sum.splits)

text \<open>
  The cursors the driver can compose: the mapped object holds at least the bytes the DRM core
  says it has, and the cursor's size in bytes fits 32 bits, so that the size check of the
  composition is exact.
\<close>

definition cursor_sane :: "gem_store \<Rightarrow> evdi_cursor \<Rightarrow> bool" where
  "cursor_sane gems c \<longleftrightarrow>
     unat (cur_width c) * unat (cur_height c) * 4 < 2 ^ 32 \<and>
     (case cur_obj c of
        None \<Rightarrow> True
      | Some a \<Rightarrow> (case vmapping (gems a) of
            None \<Rightarrow> True
          | Some cbuf \<Rightarrow> gem_size (gems a) \<le> length cbuf))"

lemma size_check_exact:
  "unat w * unat h * 4 < 2 ^ 32 \<Longrightarrow> unat ((w :: u32) * h * 4) = unat w * unat h * 4"
proof -
  assume a: "unat w * unat h * 4 < 2 ^ 32"
  have "unat (w * h) = unat w * unat h" by (rule unat_mult_exact) (use a in linarith)
  then show ?thesis using unat_mult_exact [of "w * h" 4] a by simp
qed

lemma compose_and_copy_cases:
  assumes "cursor_sane gems c"
  shows "(\<exists>ret. evdi_cursor_compose_and_copy format_info ctu gems c efb buffer s mem = Ret (ret, mem)) \<or>
    (\<exists>cbuf. unat (cur_width c) * unat (cur_height c) * 4 \<le> length cbuf \<and>
       evdi_cursor_compose_and_copy format_info ctu gems c efb buffer s mem =
         compose_loop (compose_step ctu c cbuf efb
           (Option.bind (fb_obj efb) (\<lambda>a. vmapping (gems a))) buffer s) (cursor_points c) mem)"
proof (cases "enabled c \<and> (\<exists>a cbuf. cur_obj c = Some a \<and> vmapping (gems a) = Some cbuf)")
  case False
  then show ?thesis by (auto simp: evdi_cursor_compose_and_copy_def split: option.splits)
next
  case True
  then obtain a cbuf where ac: "enabled c" "cur_obj c = Some a" "vmapping (gems a) = Some cbuf"
    by blast
  let ?bpp = "(evdi_fb_get_bpp format_info (cur_format c) + 7) div 8"
  have sane: "unat (cur_width c) * unat (cur_height c) * 4 < 2 ^ 32" "gem_size (gems a) \<le> length cbuf"
    using assms ac by (simp_all add: cursor_sane_def)
  have "unat (cur_width c) * unat (cur_height c) * 4 \<le> length cbuf"
    if "?bpp = 4" "\<not> gem_size (gems a) < unat (cur_width c * cur_height c * ?bpp)"
    using that(2) sane(2) unfolding that(1) size_check_exact [OF sane(1)] by linarith
  then show ?thesis
    using ac by (auto simp: evdi_cursor_compose_and_copy_def Let_def)
qed

lemma compose_and_copy_no_oops:
  assumes "fb_readable gems efb" and "cursor_sane gems c"
  shows "evdi_cursor_compose_and_copy format_info ctu gems c efb buffer s mem \<noteq> Oops"
proof -
  have "unat (cur_width c) * unat (cur_height c) * 4 < 2 ^ 32"
    using assms(2) by (simp add: cursor_sane_def)
  then show ?thesis
    using compose_and_copy_cases [OF assms(2), of format_info ctu efb buffer s mem]
      compose_loop_no_oops compose_step_no_oops [OF assms(1) refl] cursor_points_halves
    by (smt (verit) outcome.distinct(1))
qed

text \<open>
  C17: composing the cursor into a copied frame reads inside the cursor's and the framebuffer's
  mappings and changes no user byte outside the frame buffer the user passed.
\<close>

theorem cursor_compose_in_bounds:
  assumes "copy_to_user_ok ctu" and "fb_readable gems efb" and "cursor_sane gems c"
    and "4 * unat (fb_width efb) \<le> unat s" and "unat s * unat (fb_height efb) < 2 ^ 31"
  shows "\<exists>ret mem'. evdi_cursor_compose_and_copy format_info ctu gems c efb buffer s mem = Ret (ret, mem') \<and>
    (\<forall>b. b \<notin> addressed buffer (unat s * unat (fb_height efb)) \<longrightarrow> mem' b = mem b)"
proof -
  have w: "unat (cur_width c) * unat (cur_height c) * 4 < 2 ^ 32"
    using assms(3) by (simp add: cursor_sane_def)
  have "step_safe buffer (unat s * unat (fb_height efb)) mem
      (evdi_cursor_compose_and_copy format_info ctu gems c efb buffer s mem)"
    using compose_and_copy_cases [OF assms(3), of format_info ctu efb buffer s mem]
  proof (elim disjE exE conjE)
    fix cbuf
    assume l: "unat (cur_width c) * unat (cur_height c) * 4 \<le> length cbuf"
      and e: "evdi_cursor_compose_and_copy format_info ctu gems c efb buffer s mem =
        compose_loop (compose_step ctu c cbuf efb
          (Option.bind (fb_obj efb) (\<lambda>a. vmapping (gems a))) buffer s) (cursor_points c) mem"
    show ?thesis
      unfolding e
      by (rule compose_loop_safe, rule compose_step_safe [OF assms(1,2) refl w l assms(4,5)],
          rule cursor_points_halves)
  qed (simp add: step_safe_def)
  then show ?thesis by (auto simp: step_safe_def split: outcome.splits prod.splits)
qed

definition sample_object :: evdi_gem_object where
  "sample_object = \<lparr>gem_size = 16, pages = None, pages_pin_count = 1,
     vmapping = Some (replicate 16 0xff), vmap_is_iomem = False, import_attach = None, sg = False,
     allow_sw_cursor_rect_updates = False, gem_log = []\<rparr>"

definition sample_fb :: evdi_framebuffer where
  "sample_fb = \<lparr>fb_id = 1, fb_width = 2, fb_height = 2, fb_pitch = 8, fb_offset = 0, fb_format = 0,
     fb_cpp = 4, fb_obj = Some 0, active = True, is_from_xe = False\<rparr>"

lemma sample_readable: "fb_readable (\<lambda>_. sample_object) sample_fb"
  by (simp add: fb_readable_def sample_fb_def sample_object_def)

theorem cursor_compose_in_bounds_witness:
  "\<exists>ret mem'. evdi_cursor_compose_and_copy (\<lambda>_. Some 4) user_store (\<lambda>_. sample_object)
      (zero_cursor\<lparr>enabled := True, cur_obj := Some 1, cur_width := 2, cur_height := 2\<rparr>) sample_fb
      0x1000 8 (\<lambda>_. 7) = Ret (ret, mem') \<and>
    (\<forall>b. b \<notin> addressed 0x1000 16 \<longrightarrow> mem' b = 7)"
proof -
  let ?c = "zero_cursor\<lparr>enabled := True, cur_obj := Some 1, cur_width := 2, cur_height := 2\<rparr>"
  have "cursor_sane (\<lambda>_. sample_object) ?c"
    by (simp add: cursor_sane_def sample_object_def)
  then show ?thesis
    using cursor_compose_in_bounds [OF user_store_ok sample_readable, of ?c 8 "\<lambda>_. Some 4" "0x1000" "\<lambda>_. 7"]
    by (simp add: sample_fb_def)
qed

text \<open>
  C38: a composed pixel has, in each colour channel, the weighted mean of the two pixels with the
  cursor's alpha, rounded down to an integer, and no carry leaves a channel.
\<close>

theorem blend_alpha_exact:
  "\<forall>i\<in>{0, 1, 2}. channel i (blend_alpha p b) =
     (channel i p * (255 - channel 3 b) + channel i b * channel 3 b) div 255"
  using blend_alpha_channels [of p b] by (simp add: blended_def)

theorem blend_alpha_exact_witness:
  "channel 1 (blend_alpha 0x00204060 0x80ff0000) = 64 * 127 div 255"
proof -
  have "channel 1 (0x00204060 :: u32) = 64" "channel 1 (0x80ff0000 :: u32) = 0"
    "channel 3 (0x80ff0000 :: u32) = 128"
    by (simp_all add: channel_def drop_bit_eq_div take_bit_eq_mod)
  then show ?thesis using blend_alpha_exact [of "0x00204060" "0x80ff0000"] by simp
qed

end
