(* ===== verification/Evdi_Painter.thy ===== *)
theory Evdi_Painter
  imports Evdi_Cursor
begin

text \<open>
  The painter, \<open>module/evdi_painter.c\<close>: its state and, one definition per function, the events it
  sends, the damage it collects, the vertical blank event it holds back, the connection of a
  client, and its start and end. A function that takes the painter's lock is one step. The
  operations return the state and the calls made into the DRM core, in order.
\<close>

section \<open>State\<close>

record evdi_painter =
  is_connected :: bool
  edid :: "u8 list option"
  edid_length :: u32
  dirty_rects :: "drm_clip_rect list"
  num_dirts :: int
  scanout_fb :: "evdi_framebuffer option"
  drm_filp :: "drm_file option"
  drm_device :: bool \<comment> \<open>not NULL\<close>
  was_update_requested :: bool
  needs_full_modeset :: bool
  crtc :: "nat option"
  vblank :: "nat option"
  pending_events :: "drm_event list"
  send_events_work :: bool \<comment> \<open>the delayed work is pending\<close>
  ddcci_response_received :: nat \<comment> \<open>the completion's count\<close>
  ddcci_buffer :: "u8 list option"
  ddcci_buffer_length :: u32
  fg_console :: nat

definition MAX_DIRTS :: nat where
  "MAX_DIRTS = 16"

text \<open>
  \<open>struct evdi_device\<close>; \<open>gems\<close> is the memory of the GEM objects and \<open>calls\<close> the calls made into
  the DRM core since the driver was loaded.
\<close>

record evdi_device =
  painter :: "evdi_painter option"
  cursor :: evdi_cursor
  cursor_events_enabled :: bool
  pixel_area_limit :: u32
  pixel_per_second_limit :: u32
  i2c_adapter :: bool
  gems :: gem_store
  calls :: "drm_call list"

text \<open>A painter step done on the device: the painter replaced, its calls appended.\<close>

definition emit :: "drm_call list \<Rightarrow> evdi_device \<Rightarrow> evdi_device" where
  "emit cs evdi = evdi\<lparr>calls := calls evdi @ cs\<rparr>"

definition on_painter ::
  "(evdi_painter \<Rightarrow> evdi_painter \<times> drm_call list) \<Rightarrow> evdi_device \<Rightarrow> evdi_device" where
  "on_painter f evdi =
     (case painter evdi of
        None \<Rightarrow> evdi
      | Some p \<Rightarrow> let (p', cs) = f p in emit cs (evdi\<lparr>painter := Some p'\<rparr>))"

definition evdi_painter_is_connected :: "evdi_painter option \<Rightarrow> bool" where
  "evdi_painter_is_connected p = (case p of None \<Rightarrow> False | Some p \<Rightarrow> is_connected p)"

text \<open>\<open>ok\<close> is the success of \<open>kmalloc\<close>.\<close>

definition evdi_painter_get_edid_copy :: "bool \<Rightarrow> evdi_painter \<Rightarrow> u8 list option" where
  "evdi_painter_get_edid_copy ok p =
     (if is_connected p \<and> edid p \<noteq> None \<and> edid_length p \<noteq> 0
      then if ok then Some (take (unat (edid_length p)) (the (edid p))) else None
      else None)"

section \<open>Sending events\<close>

type_synonym reserve = "nat \<Rightarrow> drm_event \<Rightarrow> bool"

definition evdi_painter_flush_pending_events ::
  "reserve \<Rightarrow> evdi_painter \<Rightarrow> bool \<times> evdi_painter \<times> drm_call list" where
  "evdi_painter_flush_pending_events reserve p =
     (let (sent, left) = flush_pending reserve 0 (pending_events p)
      in (left = [], p\<lparr>pending_events := left\<rparr>, map (SendEvent (the (drm_filp p))) sent))"

text \<open>\<open>None\<close> is a NULL event: its allocation failed.\<close>

definition evdi_painter_send_event ::
  "reserve \<Rightarrow> drm_event option \<Rightarrow> evdi_painter \<Rightarrow> evdi_painter \<times> drm_call list" where
  "evdi_painter_send_event reserve event p =
     (case event of
        None \<Rightarrow> (p, [])
      | Some e \<Rightarrow>
          if drm_filp p = None then (p, [FreeEvent e])
          else if \<not> drm_device p then (p, [FreeEvent e])
          else if \<not> is_connected p then (p, [FreeEvent e])
          else
            let (lst, freed) = add_event_to_pending_list (pending_events p) e;
                p1 = p\<lparr>pending_events := lst\<rparr>;
                cs = map FreeEvent freed
            in if send_events_work p1 then (p1, cs)
               else let (flushed_all, p2, sent) = evdi_painter_flush_pending_events reserve p1
                    in if flushed_all then (p2, cs @ sent)
                       else (p2\<lparr>send_events_work := True\<rparr>, cs @ sent))"

text \<open>The work function runs with its pending bit clear and schedules itself again.\<close>

definition evdi_send_events_work ::
  "reserve \<Rightarrow> evdi_painter \<Rightarrow> evdi_painter \<times> drm_call list" where
  "evdi_send_events_work reserve p =
     (let (flushed_all, p1, sent) =
            evdi_painter_flush_pending_events reserve (p\<lparr>send_events_work := False\<rparr>)
      in if flushed_all then (p1, sent) else (p1\<lparr>send_events_work := True\<rparr>, sent))"

text \<open>\<open>ok\<close> is the success of the event's allocation.\<close>

definition evdi_painter_send_update_ready ::
  "reserve \<Rightarrow> bool \<Rightarrow> evdi_painter \<Rightarrow> evdi_painter \<times> drm_call list" where
  "evdi_painter_send_update_ready reserve ok p =
     evdi_painter_send_event reserve (if ok then Some UpdateReady else None) p"

definition evdi_painter_send_dpms ::
  "reserve \<Rightarrow> bool \<Rightarrow> s32 \<Rightarrow> evdi_painter \<Rightarrow> evdi_painter \<times> drm_call list" where
  "evdi_painter_send_dpms reserve ok mode p =
     evdi_painter_send_event reserve (if ok then Some (Dpms mode) else None) p"

text \<open>\<open>vrefresh\<close> is the answer of \<open>drm_mode_vrefresh\<close> for the mode.\<close>

record drm_display_mode =
  hdisplay :: u16
  vdisplay :: u16
  vrefresh :: s32

definition evdi_painter_send_mode_changed ::
  "reserve \<Rightarrow> bool \<Rightarrow> drm_display_mode \<Rightarrow> s32 \<Rightarrow> u32 \<Rightarrow> evdi_painter \<Rightarrow>
     evdi_painter \<times> drm_call list" where
  "evdi_painter_send_mode_changed reserve ok current_mode bits_per_pixel pixel_format p =
     evdi_painter_send_event reserve
       (if ok then Some (ModeChanged (ucast (hdisplay current_mode)) (ucast (vdisplay current_mode))
          (vrefresh current_mode) bits_per_pixel pixel_format) else None) p"

definition evdi_painter_send_cursor_move ::
  "reserve \<Rightarrow> bool \<Rightarrow> evdi_cursor \<Rightarrow> evdi_painter \<Rightarrow> evdi_painter \<times> drm_call list" where
  "evdi_painter_send_cursor_move reserve ok c p =
     evdi_painter_send_event reserve
       (if ok then Some (case evdi_cursor_position c of (x, y) \<Rightarrow> CursorMove x y) else None) p"

text \<open>
  The handle table of a DRM file and the answer of \<open>drm_gem_handle_create\<close> come from the DRM
  core. The lookup reads the file without a NULL check (\<open>Oops\<close>).
\<close>

definition evdi_painter_get_gem_handle ::
  "(drm_file \<Rightarrow> (u32 \<times> nat) list) \<Rightarrow> u32 result \<Rightarrow> evdi_painter \<Rightarrow> nat option \<Rightarrow>
     (u32 \<times> drm_call list) outcome" where
  "evdi_painter_get_gem_handle handles handle_create p obj =
     (case obj of
        None \<Rightarrow> Ret (0, [])
      | Some a \<Rightarrow>
          (case drm_filp p of
             None \<Rightarrow> Oops
           | Some filp \<Rightarrow>
               let handle = evdi_gem_object_handle_lookup (handles filp) a
               in if handle \<noteq> 0 then Ret (handle, [])
                  else Ret (case handle_create of Inl _ \<Rightarrow> 0 | Inr h \<Rightarrow> h, [GemHandleCreate filp a])))"

definition create_cursor_set_event ::
  "(drm_file \<Rightarrow> (u32 \<times> nat) list) \<Rightarrow> u32 result \<Rightarrow> bool \<Rightarrow> gem_store \<Rightarrow> evdi_cursor \<Rightarrow>
     evdi_painter \<Rightarrow> (drm_event option \<times> drm_call list) outcome" where
  "create_cursor_set_event handles handle_create ok objs c p =
     (if \<not> ok then Ret (None, [])
      else case evdi_painter_get_gem_handle handles handle_create p (cur_obj c) of
          Oops \<Rightarrow> Oops
        | Ret (handle, cs) \<Rightarrow>
            Ret (Some (CursorSet
              \<lparr>ev_hot_x = fst (evdi_cursor_hotpoint c), ev_hot_y = snd (evdi_cursor_hotpoint c),
               ev_width = fst (evdi_cursor_size c), ev_height = snd (evdi_cursor_size c),
               ev_enabled = (if handle = 0 then 0 else of_bool (enabled c)),
               ev_buffer_handle = handle,
               ev_buffer_length =
                 (if handle = 0 then 0
                  else case cur_obj c of None \<Rightarrow> 0 | Some a \<Rightarrow> of_nat (gem_size (objs a))),
               ev_pixel_format = cur_format c, ev_stride = stride c\<rparr>), cs))"

definition evdi_painter_send_cursor_set ::
  "(drm_file \<Rightarrow> (u32 \<times> nat) list) \<Rightarrow> u32 result \<Rightarrow> reserve \<Rightarrow> bool \<Rightarrow> gem_store \<Rightarrow> evdi_cursor \<Rightarrow>
     evdi_painter \<Rightarrow> (evdi_painter \<times> drm_call list) outcome" where
  "evdi_painter_send_cursor_set handles handle_create reserve ok objs c p =
     (case create_cursor_set_event handles handle_create ok objs c p of
        Oops \<Rightarrow> Oops
      | Ret (event, cs) \<Rightarrow>
          let (p', cs') = evdi_painter_send_event reserve event p in Ret (p', cs @ cs'))"

section \<open>Damage\<close>

definition evdi_painter_get_num_dirts :: "evdi_painter option \<Rightarrow> int" where
  "evdi_painter_get_num_dirts p = (case p of None \<Rightarrow> 0 | Some p \<Rightarrow> num_dirts p)"

definition evdi_painter_framebuffer_size :: "evdi_painter option \<Rightarrow> drm_clip_rect" where
  "evdi_painter_framebuffer_size p =
     (case Option.bind p scanout_fb of
        None \<Rightarrow> \<lparr>x1 = 0, y1 = 0, x2 = 0, y2 = 0\<rparr>
      | Some efb \<Rightarrow> \<lparr>x1 = 0, y1 = 0, x2 = ucast (fb_width efb), y2 = ucast (fb_height efb)\<rparr>)"

text \<open>The array and its count, as the reducing routines take and return them.\<close>

definition reduce_dirts ::
  "(drm_clip_rect list \<Rightarrow> nat \<Rightarrow> drm_clip_rect list \<times> nat) \<Rightarrow> evdi_painter \<Rightarrow> evdi_painter" where
  "reduce_dirts f p =
     (let (rects, n) = f (dirty_rects p) (nat (num_dirts p))
      in p\<lparr>dirty_rects := rects, num_dirts := int n\<rparr>)"

definition evdi_painter_mark_dirty :: "drm_clip_rect \<Rightarrow> evdi_painter \<Rightarrow> evdi_painter" where
  "evdi_painter_mark_dirty dirty_rect p =
     (case scanout_fb p of
        None \<Rightarrow> p
      | Some efb \<Rightarrow>
          let rect = evdi_framebuffer_sanitize_rect efb dirty_rect;
              p1 = (if num_dirts p = int MAX_DIRTS then reduce_dirts merge_dirty_rects p else p);
              p2 = (if num_dirts p1 = int MAX_DIRTS then reduce_dirts collapse_dirty_rects p1 else p1)
          in p2\<lparr>dirty_rects := (dirty_rects p2)[nat (num_dirts p2) := rect],
                num_dirts := num_dirts p2 + 1\<rparr>)"

section \<open>The vertical blank event and the update-ready protocol\<close>

definition evdi_send_vblank :: "nat option \<Rightarrow> nat option \<Rightarrow> drm_call list" where
  "evdi_send_vblank crt vbl =
     (case (crt, vbl) of (Some c, Some v) \<Rightarrow> [SendVblank c v] | _ \<Rightarrow> [])"

definition evdi_painter_send_vblank :: "evdi_painter \<Rightarrow> evdi_painter \<times> drm_call list" where
  "evdi_painter_send_vblank p =
     (p\<lparr>crtc := None, vblank := None\<rparr>, evdi_send_vblank (crtc p) (vblank p))"

definition evdi_painter_set_vblank ::
  "nat option \<Rightarrow> nat option \<Rightarrow> evdi_painter option \<Rightarrow> evdi_painter option \<times> drm_call list" where
  "evdi_painter_set_vblank crt vbl p =
     (case p of
        None \<Rightarrow> (None, evdi_send_vblank crt vbl)
      | Some p \<Rightarrow>
          let (p1, cs) = evdi_painter_send_vblank p
          in if 0 < num_dirts p1 \<and> is_connected p1
             then (Some (p1\<lparr>crtc := crt, vblank := vbl\<rparr>), cs)
             else (Some p1, cs @ evdi_send_vblank crt vbl))"

definition evdi_painter_send_update_ready_if_needed ::
  "reserve \<Rightarrow> bool \<Rightarrow> evdi_painter \<Rightarrow> evdi_painter \<times> drm_call list" where
  "evdi_painter_send_update_ready_if_needed reserve ok p =
     (if was_update_requested p \<and> num_dirts p \<noteq> 0
      then let (p1, cs) = evdi_painter_send_update_ready reserve ok p
           in (p1\<lparr>was_update_requested := False\<rparr>, cs)
      else (p, []))"

text \<open>The result is 1 when there is damage to grab at once.\<close>

definition evdi_painter_request_update_ioctl ::
  "evdi_painter option \<Rightarrow> nat result \<times> evdi_painter option" where
  "evdi_painter_request_update_ioctl p =
     (case p of
        None \<Rightarrow> (Inl ENODEV, None)
      | Some p \<Rightarrow>
          if was_update_requested p then (Inr 0, Some p)
          else if 0 < num_dirts p then (Inr 1, Some p)
          else (Inr 0, Some (p\<lparr>was_update_requested := True\<rparr>)))"

section \<open>Power state and mode\<close>

definition DRM_MODE_DPMS_ON :: s32 where "DRM_MODE_DPMS_ON = 0"
definition DRM_MODE_DPMS_OFF :: s32 where "DRM_MODE_DPMS_OFF = 3"

text \<open>\<open>console\<close> is the console in the foreground when the function runs.\<close>

definition evdi_painter_dpms_notify ::
  "reserve \<Rightarrow> bool \<Rightarrow> nat \<Rightarrow> s32 \<Rightarrow> evdi_painter \<Rightarrow> evdi_painter \<times> drm_call list" where
  "evdi_painter_dpms_notify reserve ok console mode p =
     (if \<not> is_connected p then (p, [])
      else evdi_painter_send_dpms reserve ok mode
             (if mode = DRM_MODE_DPMS_ON then p\<lparr>fg_console := console\<rparr> else p))"

definition evdi_painter_mode_changed_notify ::
  "reserve \<Rightarrow> bool \<Rightarrow> drm_display_mode \<Rightarrow> evdi_painter \<Rightarrow> evdi_painter \<times> drm_call list" where
  "evdi_painter_mode_changed_notify reserve ok new_mode p =
     (case scanout_fb p of
        None \<Rightarrow> (p, [])
      | Some fb \<Rightarrow>
          let (p1, cs) = evdi_painter_send_mode_changed reserve ok new_mode
                (ucast (fb_cpp fb) * 8) (fb_format fb) p
          in (p1\<lparr>needs_full_modeset := False\<rparr>, cs))"

definition evdi_painter_needs_full_modeset :: "evdi_painter option \<Rightarrow> bool" where
  "evdi_painter_needs_full_modeset p = (case p of None \<Rightarrow> False | Some p \<Rightarrow> needs_full_modeset p)"

definition evdi_painter_force_full_modeset :: "evdi_painter \<Rightarrow> evdi_painter" where
  "evdi_painter_force_full_modeset p = p\<lparr>needs_full_modeset := True\<rparr>"

definition evdi_painter_vt_notifier_call ::
  "reserve \<Rightarrow> bool \<Rightarrow> nat \<Rightarrow> evdi_painter \<Rightarrow> evdi_painter \<times> drm_call list" where
  "evdi_painter_vt_notifier_call reserve ok console p =
     (if is_connected p \<and> console \<noteq> fg_console p \<and> \<not> needs_full_modeset p
      then let (p1, cs) = evdi_painter_dpms_notify reserve ok console DRM_MODE_DPMS_OFF p
           in (evdi_painter_force_full_modeset p1, cs)
      else (p, []))"

section \<open>Scanout buffer\<close>

definition evdi_painter_set_scanout_buffer ::
  "evdi_framebuffer option \<Rightarrow> evdi_painter \<Rightarrow> evdi_painter \<times> drm_call list" where
  "evdi_painter_set_scanout_buffer newfb p =
     (p\<lparr>scanout_fb := newfb\<rparr>,
      fb_slot_calls (map_option fb_id (scanout_fb p)) (map_option fb_id newfb))"

section \<open>Connection\<close>

text \<open>The pending events are freed and the delayed work is cancelled.\<close>

definition evdi_painter_events_cleanup :: "evdi_painter \<Rightarrow> evdi_painter \<times> drm_call list" where
  "evdi_painter_events_cleanup p =
     (p\<lparr>pending_events := [], send_events_work := False\<rparr>, map FreeEvent (pending_events p))"

text \<open>\<open>add_ok\<close> says that the adapter was allocated and \<open>evdi_i2c_add\<close> succeeded.\<close>

definition evdi_add_i2c_adapter :: "bool \<Rightarrow> evdi_device \<Rightarrow> evdi_device" where
  "evdi_add_i2c_adapter add_ok evdi =
     (if add_ok then emit [I2cAdd] (evdi\<lparr>i2c_adapter := True\<rparr>) else evdi\<lparr>i2c_adapter := False\<rparr>)"

definition evdi_remove_i2c_adapter :: "evdi_device \<Rightarrow> evdi_device" where
  "evdi_remove_i2c_adapter evdi =
     (if i2c_adapter evdi then emit [I2cRemove] (evdi\<lparr>i2c_adapter := False\<rparr>) else evdi)"

definition MAX_EDID_SIZE :: nat where
  "MAX_EDID_SIZE = 255 * 128 + 128"

definition evdi_painter_connect ::
  "copy_from_user \<Rightarrow> bool \<Rightarrow> bool \<Rightarrow> umem \<Rightarrow> u64 \<Rightarrow> u32 \<Rightarrow> u32 \<Rightarrow> u32 \<Rightarrow> drm_file \<Rightarrow>
     evdi_painter \<Rightarrow> evdi_device \<Rightarrow> unit result \<times> evdi_device" where
  "evdi_painter_connect cfu ok add_ok mem edid_data len area_limit pps_limit filp p evdi =
     (if unat len < 128 then (Inl EINVAL, evdi)
      else if MAX_EDID_SIZE < unat len then (Inl EINVAL, evdi)
      else if \<not> ok then (Inl ENOMEM, evdi)
      else case cfu mem edid_data (unat len) of
          None \<Rightarrow> (Inl EFAULT, evdi)
        | Some new_edid \<Rightarrow>
            let p1 = p\<lparr>drm_filp := Some filp, edid_length := len, edid := Some new_edid,
                       is_connected := True, needs_full_modeset := True\<rparr>;
                e1 = evdi\<lparr>pixel_area_limit := area_limit, pixel_per_second_limit := pps_limit,
                          painter := Some p1\<rparr>;
                e2 = (if \<not> i2c_adapter e1 then evdi_add_i2c_adapter add_ok e1 else e1)
            in (Inr (), emit [HpdIrq] e2))"

definition drop_scanout :: "evdi_painter \<Rightarrow> evdi_painter \<times> drm_call list" where
  "drop_scanout p =
     (case scanout_fb p of
        None \<Rightarrow> (p, [])
      | Some fb \<Rightarrow> (p\<lparr>scanout_fb := None\<rparr>, [FbPut (fb_id fb)]))"

definition evdi_painter_disconnect ::
  "drm_file \<Rightarrow> evdi_painter \<Rightarrow> evdi_device \<Rightarrow> unit result \<times> evdi_device" where
  "evdi_painter_disconnect filp p evdi =
     (if Some filp \<noteq> drm_filp p then (Inl EFAULT, evdi)
      else
        let (p1, c1) = drop_scanout p;
            p2 = p1\<lparr>is_connected := False\<rparr>;
            (p3, c3) = evdi_painter_events_cleanup p2;
            (p4, c4) = evdi_painter_send_vblank p3;
            (cur, c5) = evdi_cursor_enable False (cursor evdi);
            p6 = p4\<lparr>ddcci_buffer := None, ddcci_buffer_length := 0\<rparr>;
            e7 = evdi_remove_i2c_adapter (emit (c1 @ c3 @ c4 @ c5) (evdi\<lparr>cursor := cur\<rparr>));
            p8 = p6\<lparr>drm_filp := None, was_update_requested := False,
                    ddcci_response_received := ddcci_response_received p6 + 1\<rparr>
        in (Inr (), emit [HpdIrq] (e7\<lparr>painter := Some p8, cursor_events_enabled := False\<rparr>)))"

definition evdi_painter_close :: "drm_file \<Rightarrow> evdi_device \<Rightarrow> evdi_device" where
  "evdi_painter_close filp evdi =
     (case painter evdi of
        None \<Rightarrow> evdi
      | Some p \<Rightarrow>
          if Some filp = drm_filp p then snd (evdi_painter_disconnect filp p evdi) else evdi)"

record drm_evdi_connect =
  connected :: s32
  conn_edid :: u64
  conn_edid_length :: u32
  conn_pixel_area_limit :: u32
  conn_pixel_per_second_limit :: u32

definition evdi_painter_connect_ioctl ::
  "copy_from_user \<Rightarrow> bool \<Rightarrow> bool \<Rightarrow> umem \<Rightarrow> drm_evdi_connect \<Rightarrow> drm_file \<Rightarrow> evdi_device \<Rightarrow>
     unit result \<times> evdi_device" where
  "evdi_painter_connect_ioctl cfu ok add_ok mem cmd filp evdi =
     (case painter evdi of
        None \<Rightarrow> (Inl ENODEV, evdi)
      | Some p \<Rightarrow>
          if connected cmd \<noteq> 0
          then evdi_painter_connect cfu ok add_ok mem (conn_edid cmd) (conn_edid_length cmd)
                 (conn_pixel_area_limit cmd) (conn_pixel_per_second_limit cmd) filp p evdi
          else evdi_painter_disconnect filp p evdi)"

definition evdi_painter_enable_cursor_events_ioctl :: "u8 \<Rightarrow> evdi_device \<Rightarrow> evdi_device" where
  "evdi_painter_enable_cursor_events_ioctl enable evdi =
     evdi\<lparr>cursor_events_enabled := (enable \<noteq> 0)\<rparr>"

section \<open>Start and end\<close>

text \<open>\<open>kzalloc\<close> zeroes the painter; \<open>rects\<close> is the zeroed array.\<close>

definition fresh_painter :: evdi_painter where
  "fresh_painter =
     \<lparr>is_connected = False, edid = None, edid_length = 0,
      dirty_rects = replicate MAX_DIRTS \<lparr>x1 = 0, y1 = 0, x2 = 0, y2 = 0\<rparr>, num_dirts = 0,
      scanout_fb = None, drm_filp = None, drm_device = True, was_update_requested = False,
      needs_full_modeset = True, crtc = None, vblank = None, pending_events = [],
      send_events_work = False, ddcci_response_received = 0, ddcci_buffer = None,
      ddcci_buffer_length = 0, fg_console = 0\<rparr>"

definition evdi_painter_init :: "bool \<Rightarrow> evdi_device \<Rightarrow> unit result \<times> evdi_device" where
  "evdi_painter_init ok evdi =
     (if ok then (Inr (), emit [VtRegister] (evdi\<lparr>painter := Some fresh_painter\<rparr>))
      else (Inl ENOMEM, evdi\<lparr>painter := None\<rparr>))"

text \<open>The painter is freed: the result is the calls made on the way.\<close>

definition evdi_painter_cleanup :: "evdi_painter option \<Rightarrow> drm_call list" where
  "evdi_painter_cleanup p =
     (case p of
        None \<Rightarrow> []
      | Some p \<Rightarrow>
          let (p1, c1) = drop_scanout (p\<lparr>edid_length := 0, edid := None\<rparr>);
              (p2, c2) = evdi_painter_send_vblank p1;
              (p3, c3) = evdi_painter_events_cleanup p2
          in VtUnregister # c1 @ c2 @ c3)"

end
