(* ===== verification/Evdi_Grab.thy ===== *)
theory Evdi_Grab
  imports Evdi_Painter
begin

text \<open>
  Grabbing pixels, \<open>module/evdi_painter.c\<close>: the copy of the damaged rectangles of the scanout
  framebuffer to the user buffer and the \<open>GRABPIX\<close> ioctl around it. The ioctl takes the damage
  and a reference under the painter's lock and copies after releasing it, so it is two
  definitions and their composition.
\<close>

section \<open>Copying\<close>

text \<open>
  The inner loop of \<open>copy_primary_pixels\<close>: \<open>n\<close> rows of \<open>span\<close> bytes, \<open>src\<close> the offset in the
  mapped bytes \<open>vm\<close>, \<open>dst\<close> the user address. A read outside the mapping is an \<open>Oops\<close>.
\<close>

primrec copy_rows ::
  "copy_to_user \<Rightarrow> u8 list \<Rightarrow> int \<Rightarrow> int \<Rightarrow> int \<Rightarrow> nat \<Rightarrow> u64 \<Rightarrow> int \<Rightarrow> umem \<Rightarrow>
     (unit result \<times> umem) outcome" where
  "copy_rows ctu vm span pitch dstride 0 dst src mem = Ret (Inr (), mem)"
| "copy_rows ctu vm span pitch dstride (Suc n) dst src mem =
     (case kread vm src span of
        None \<Rightarrow> Oops
      | Some bs \<Rightarrow>
          let (failed, mem1) = ctu mem dst bs
          in if failed then Ret (Inl EFAULT, mem1)
             else copy_rows ctu vm span pitch dstride n (dst + of_int dstride) (src + pitch) mem1)"

text \<open>The offsets are \<open>int\<close>: computed in 32 bits, then read as signed.\<close>

definition copy_one_rect ::
  "copy_to_user \<Rightarrow> u8 list \<Rightarrow> evdi_framebuffer \<Rightarrow> u64 \<Rightarrow> s32 \<Rightarrow> s32 \<Rightarrow> s32 \<Rightarrow> drm_clip_rect \<Rightarrow> umem \<Rightarrow>
     (unit result \<times> umem) outcome" where
  "copy_one_rect ctu vm fb buffer buf_byte_stride max_x max_y r mem =
     (let byte_offset = ucast (x1 r) * 4 :: s32;
          byte_span = (ucast (x2 r) - ucast (x1 r)) * 4 :: s32;
          src_offset = fb_offset fb + fb_pitch fb * ucast (y1 r) + byte_offset;
          dst_offset = buf_byte_stride * ucast (y1 r) + byte_offset;
          y = int (unat (y2 r)) - int (unat (y1 r))
      in if max_x <s ucast (x2 r) \<or> max_y <s ucast (y2 r) then Ret (Inl EFAULT, mem)
         else copy_rows ctu vm (sint byte_span) (uint (fb_pitch fb)) (sint buf_byte_stride) (nat y)
           (buffer + scast dst_offset) (sint src_offset) mem)"

text \<open>
  \<open>copy_primary_pixels_on_xe\<close>: every line of the frame goes through a bounce buffer, here the
  bytes read; \<open>vmalloc_ok\<close> is its allocation, and a NULL one is written through (\<open>Oops\<close>).
\<close>

primrec copy_lines_xe ::
  "copy_to_user \<Rightarrow> u8 list \<Rightarrow> evdi_framebuffer \<Rightarrow> u64 \<Rightarrow> s32 \<Rightarrow> s32 \<Rightarrow> nat \<Rightarrow> nat \<Rightarrow> umem \<Rightarrow>
     (unit result \<times> umem) outcome" where
  "copy_lines_xe ctu vm fb buffer buf_byte_stride max_x 0 y mem = Ret (Inr (), mem)"
| "copy_lines_xe ctu vm fb buffer buf_byte_stride max_x (Suc n) y mem =
     (case kread vm (sint (fb_offset fb + fb_pitch fb * of_nat y)) (sint (max_x * 4)) of
        None \<Rightarrow> Oops
      | Some bs \<Rightarrow>
          let (failed, mem1) = ctu mem (buffer + scast (buf_byte_stride * of_nat y)) bs
          in if failed then Ret (Inl EFAULT, mem1)
             else copy_lines_xe ctu vm fb buffer buf_byte_stride max_x n (y + 1) mem1)"

definition copy_primary_pixels_on_xe ::
  "bool \<Rightarrow> copy_to_user \<Rightarrow> u8 list \<Rightarrow> evdi_framebuffer \<Rightarrow> u64 \<Rightarrow> s32 \<Rightarrow> s32 \<Rightarrow> s32 \<Rightarrow> umem \<Rightarrow>
     (unit result \<times> umem) outcome" where
  "copy_primary_pixels_on_xe vmalloc_ok ctu vm efb buffer buf_byte_stride max_x max_y mem =
     (if \<not> vmalloc_ok \<and> 0 < sint max_y then Oops
      else copy_lines_xe ctu vm efb buffer buf_byte_stride max_x (nat (sint max_y)) 0 mem)"

definition copy_primary_pixels ::
  "bool \<Rightarrow> copy_to_user \<Rightarrow> u8 list \<Rightarrow> evdi_framebuffer \<Rightarrow> u64 \<Rightarrow> s32 \<Rightarrow> drm_clip_rect list \<Rightarrow>
     s32 \<Rightarrow> s32 \<Rightarrow> umem \<Rightarrow> (unit result \<times> umem) outcome" where
  "copy_primary_pixels vmalloc_ok ctu vm efb buffer buf_byte_stride rects max_x max_y mem =
     (if is_from_xe efb
      then copy_primary_pixels_on_xe vmalloc_ok ctu vm efb buffer buf_byte_stride max_x max_y mem
      else compose_loop (copy_one_rect ctu vm efb buffer buf_byte_stride max_x max_y) rects mem)"

text \<open>The result of the composition is only logged.\<close>

definition copy_cursor_pixels ::
  "format_table \<Rightarrow> copy_to_user \<Rightarrow> gem_store \<Rightarrow> evdi_framebuffer \<Rightarrow> u64 \<Rightarrow> s32 \<Rightarrow> evdi_cursor \<Rightarrow>
     umem \<Rightarrow> umem outcome" where
  "copy_cursor_pixels format_info ctu objs efb buffer buf_byte_stride c mem =
     (case evdi_cursor_compose_and_copy format_info ctu objs c efb buffer buf_byte_stride mem of
        Oops \<Rightarrow> Oops
      | Ret (_, mem1) \<Rightarrow> Ret mem1)"

section \<open>The GRABPIX ioctl\<close>

datatype grabpix_mode = EVDI_GRABPIX_MODE_RECTS | EVDI_GRABPIX_MODE_DIRTY

record drm_evdi_grabpix =
  mode :: grabpix_mode
  buf_width :: s32
  buf_height :: s32
  buf_byte_stride :: s32
  buffer :: u64
  num_rects :: int
  rects_ptr :: u64

text \<open>What the locked section takes from the painter.\<close>

record grab =
  g_rects :: "drm_clip_rect list"
  g_fb :: evdi_framebuffer
  g_crtc :: "nat option"
  g_vblank :: "nat option"

text \<open>
  The command's count becomes the number of damaged rectangles, also when no framebuffer is set.
\<close>

definition grabpix_take ::
  "drm_evdi_grabpix \<Rightarrow> evdi_painter \<Rightarrow>
     grab result \<times> drm_evdi_grabpix \<times> evdi_painter \<times> drm_call list" where
  "grabpix_take cmd p =
     (if num_dirts p < 0 then (Inl EAGAIN, cmd, p, [])
      else
        let p1 = reduce_dirts merge_dirty_rects p;
            p2 = (if num_rects cmd < num_dirts p1 then reduce_dirts collapse_dirty_rects p1 else p1);
            cmd1 = cmd\<lparr>num_rects := num_dirts p2\<rparr>;
            taken = take (nat (num_dirts p2)) (dirty_rects p2)
        in case scanout_fb p2 of
            None \<Rightarrow> (Inl EAGAIN, cmd1, p2, [])
          | Some efb \<Rightarrow>
              (Inr \<lparr>g_rects = taken, g_fb = efb, g_crtc = crtc p2, g_vblank = vblank p2\<rparr>, cmd1,
               p2\<lparr>num_dirts := 0, crtc := None, vblank := None\<rparr>, [FbGet (fb_id efb)]))"

text \<open>The answers of the kernel during the copy.\<close>

record grab_env =
  ge_format :: format_table
  ge_ctu :: copy_to_user
  ge_vmap :: vmap_env
  ge_begin :: "unit result"
  ge_vmalloc :: bool

text \<open>The mapping of the scanout buffer, made when there is none: \<open>None\<close> is a failure.\<close>

definition grab_vmap :: "vmap_env \<Rightarrow> nat \<Rightarrow> gem_store \<Rightarrow> u8 list option \<times> gem_store" where
  "grab_vmap env a objs =
     (if vmapping (objs a) \<noteq> None then (vmapping (objs a), objs)
      else case evdi_gem_vmap env (objs a) of
          (ret, o1) \<Rightarrow> (if ret = Inl ENOMEM then None else vmapping o1, objs(a := o1)))"

definition rect_bytes :: "drm_clip_rect \<Rightarrow> u8 list" where
  "rect_bytes r = le_bytes 2 (x1 r) @ le_bytes 2 (y1 r) @ le_bytes 2 (x2 r) @ le_bytes 2 (y2 r)"

definition grabpix_copy ::
  "grab_env \<Rightarrow> drm_evdi_grabpix \<Rightarrow> grab \<Rightarrow> evdi_cursor \<Rightarrow> bool \<Rightarrow> gem_store \<Rightarrow> umem \<Rightarrow>
     (unit result \<times> gem_store \<times> umem) outcome" where
  "grabpix_copy env cmd g c cursor_events objs mem =
     (let efb = g_fb g
      in case fb_obj efb of
          None \<Rightarrow> Oops
        | Some a \<Rightarrow>
            (case grab_vmap (ge_vmap env) a objs of
               (None, objs1) \<Rightarrow> Ret (Inl EFAULT, objs1, mem)
             | (Some vm, objs1) \<Rightarrow>
                 if buf_width cmd \<noteq> fb_width efb \<or> buf_height cmd \<noteq> fb_height efb
                 then Ret (Inl EINVAL, objs1, mem)
                 else
                   let (failed, mem1) = ge_ctu env mem (rects_ptr cmd)
                         (concat (map rect_bytes (g_rects g)))
                   in if failed then Ret (Inl EFAULT, objs1, mem1)
                      else if import_attach (objs1 a) \<noteq> None \<and> ge_begin env \<noteq> Inr ()
                      then Ret (Inl EFAULT, objs1, mem1)
                      else case copy_primary_pixels (ge_vmalloc env) (ge_ctu env) vm efb
                             (buffer cmd) (buf_byte_stride cmd) (g_rects g) (buf_width cmd)
                             (buf_height cmd) mem1 of
                          Oops \<Rightarrow> Oops
                        | Ret (Inl e, mem2) \<Rightarrow> Ret (Inl e, objs1, mem2)
                        | Ret (Inr _, mem2) \<Rightarrow>
                            if cursor_events then Ret (Inr (), objs1, mem2)
                            else case copy_cursor_pixels (ge_format env) (ge_ctu env) objs1 efb
                                   (buffer cmd) (buf_byte_stride cmd) c mem2 of
                                Oops \<Rightarrow> Oops
                              | Ret mem3 \<Rightarrow> Ret (Inr (), objs1, mem3)))"

text \<open>The end of the ioctl: the vertical blank event is sent and the reference dropped.\<close>

definition grabpix_end :: "grab \<Rightarrow> drm_call list" where
  "grabpix_end g = evdi_send_vblank (g_crtc g) (g_vblank g) @ [FbPut (fb_id (g_fb g))]"

definition evdi_painter_grabpix_ioctl ::
  "grab_env \<Rightarrow> drm_evdi_grabpix \<Rightarrow> evdi_device \<Rightarrow> umem \<Rightarrow>
     (unit result \<times> drm_evdi_grabpix \<times> evdi_device \<times> umem) outcome" where
  "evdi_painter_grabpix_ioctl env cmd evdi mem =
     (if mode cmd \<noteq> EVDI_GRABPIX_MODE_DIRTY then Ret (Inl EINVAL, cmd, evdi, mem)
      else if num_rects cmd < 1 then Ret (Inl EINVAL, cmd, evdi, mem)
      else case painter evdi of
          None \<Rightarrow> Ret (Inl ENODEV, cmd, evdi, mem)
        | Some p \<Rightarrow>
            (case grabpix_take cmd p of
               (Inl e, cmd1, p1, cs) \<Rightarrow> Ret (Inl e, cmd1, emit cs (evdi\<lparr>painter := Some p1\<rparr>), mem)
             | (Inr g, cmd1, p1, cs) \<Rightarrow>
                 (case grabpix_copy env cmd1 g (cursor evdi) (cursor_events_enabled evdi) (gems evdi)
                         mem of
                    Oops \<Rightarrow> Oops
                  | Ret (err, objs, mem1) \<Rightarrow>
                      Ret (err, cmd1,
                        emit (cs @ grabpix_end g) (evdi\<lparr>painter := Some p1, gems := objs\<rparr>), mem1))))"

section \<open>What the copy of one rectangle writes\<close>

text \<open>
  Rows of \<open>span\<close> bytes go to user addresses \<open>ds\<close> apart. Afterwards each addressed byte holds the
  byte of its row, and no other byte has changed. The rows do not overlap because \<open>span \<le> ds\<close>.
\<close>

definition row_addr :: "u64 \<Rightarrow> nat \<Rightarrow> nat \<Rightarrow> nat \<Rightarrow> u64" where
  "row_addr dst ds i j = dst + of_nat (i * ds + j)"

definition in_rows :: "u64 \<Rightarrow> nat \<Rightarrow> nat \<Rightarrow> nat \<Rightarrow> u64 \<Rightarrow> bool" where
  "in_rows dst ds span n b \<longleftrightarrow> (\<exists>i<n. \<exists>j < span. b = row_addr dst ds i j)"

lemma row_addr_Suc: "row_addr dst ds (Suc i) j = row_addr (dst + of_nat ds) ds i j"
  by (simp add: row_addr_def algebra_simps)

lemma row_addr_0: "row_addr dst ds 0 j = dst + of_nat j"
  by (simp add: row_addr_def)

lemma in_rows_Suc: "in_rows dst ds span (Suc n) b \<longleftrightarrow>
    b \<in> addressed dst span \<or> in_rows (dst + of_nat ds) ds span n b"
proof -
  have "in_rows dst ds span (Suc n) b \<longleftrightarrow>
      (\<exists>j < span. b = row_addr dst ds 0 j) \<or> (\<exists>i<n. \<exists>j < span. b = row_addr dst ds (Suc i) j)"
    unfolding in_rows_def using less_Suc_eq_0_disj by auto
  then show ?thesis by (auto simp: row_addr_0 row_addr_Suc in_rows_def addressed_def)
qed

lemma of_nat_u64_inj: "a < 2 ^ 64 \<Longrightarrow> b < 2 ^ 64 \<Longrightarrow> of_nat a = (of_nat b :: u64) \<Longrightarrow> a = b"
  by (drule arg_cong [where f = unat]) (simp add: unat_of_nat)

text \<open>The first row is not among the later ones.\<close>

lemma first_row_apart:
  assumes "span \<le> ds" and "ds * Suc n < 2 ^ 64" and "b \<in> addressed dst span"
  shows "\<not> in_rows (dst + of_nat ds) ds span n b"
proof
  assume "in_rows (dst + of_nat ds) ds span n b"
  then obtain i j where ij: "i < n" "j < span" "b = row_addr dst ds (Suc i) j"
    unfolding in_rows_def row_addr_Suc [symmetric] by blast
  obtain k where k: "k < span" "b = dst + of_nat k" using assms(3) by (auto simp: addressed_def)
  have le: "ds * Suc (Suc i) \<le> ds * Suc n" by (rule mult_le_mono2) (use ij in simp)
  have "Suc i * ds + j < 2 ^ 64" using le ij(2) assms(1,2) by (simp add: algebra_simps)
  moreover have "k < 2 ^ 64" using k(1) assms(1) assms(2) by (simp add: algebra_simps)
  moreover have "of_nat (Suc i * ds + j) = (of_nat k :: u64)"
    using ij(3) k(2) by (simp only: row_addr_def add_left_cancel)
  ultimately have "Suc i * ds + j = k" by (intro of_nat_u64_inj)
  then show False using k(1) assms(1) by simp
qed

lemma copy_rows_result:
  assumes ctu: "copy_to_user_ok ctu" and "span \<le> ds" and "ds * n < 2 ^ 64" and "span < 2 ^ 64"
    and "0 < n \<Longrightarrow> src + pitch * (n - 1) + span \<le> length vm"
  shows "\<exists>ret mem'. copy_rows ctu vm (int span) (int pitch) (int ds) n dst (int src) mem = Ret (ret, mem') \<and>
    (\<forall>b. \<not> in_rows dst ds span n b \<longrightarrow> mem' b = mem b) \<and>
    (ret = Inr () \<longrightarrow> (\<forall>i<n. \<forall>j < span. mem' (row_addr dst ds i j) = vm ! (src + pitch * i + j)))"
  using assms(3,5)
proof (induction n arbitrary: dst src mem)
  case 0
  then show ?case by simp
next
  case (Suc n)
  have "src + span \<le> length vm" using Suc.prems(2) by simp
  then have rd: "kread vm (int src) (int span) = Some (take span (drop src vm))"
    by (simp add: kread_Some)
  let ?bs = "take span (drop src vm)"
  have len: "length ?bs = span" using \<open>src + span \<le> length vm\<close> by simp
  obtain fl mem1 where w: "ctu mem dst ?bs = (fl, mem1)" by fastforce
  have frame: "mem1 b = mem b" if "b \<notin> addressed dst span" for b
    using copy_frame [OF ctu w] that len by simp
  show ?case
  proof (cases fl)
    case True
    then show ?thesis using rd w frame by (auto simp: in_rows_Suc)
  next
    case False
    have row: "mem1 (dst + of_nat j) = vm ! (src + j)" if "j < span" for j
      using copy_written [OF ctu w [unfolded False [THEN eq_False [THEN iffD2]]], of j] False w len that
        assms(4) \<open>src + span \<le> length vm\<close> by simp
    have "ds * n < 2 ^ 64" using Suc.prems(1) by simp
    moreover have "src + pitch + pitch * (n - 1) + span \<le> length vm" if "0 < n"
      using Suc.prems(2) that by (cases n) (simp_all add: algebra_simps)
    ultimately obtain ret mem' where rest:
      "copy_rows ctu vm (int span) (int pitch) (int ds) n (dst + of_nat ds) (int (src + pitch)) mem1
         = Ret (ret, mem')"
      "\<And>b. \<not> in_rows (dst + of_nat ds) ds span n b \<Longrightarrow> mem' b = mem1 b"
      "ret = Inr () \<Longrightarrow> \<forall>i<n. \<forall>j < span. mem' (row_addr (dst + of_nat ds) ds i j)
         = vm ! (src + pitch + pitch * i + j)"
      using Suc.IH [of "src + pitch" "dst + of_nat ds" mem1] by blast
    have c: "copy_rows ctu vm (int span) (int pitch) (int ds) (Suc n) dst (int src) mem = Ret (ret, mem')"
      using rd w False rest(1) by simp
    have "mem' (row_addr dst ds i j) = vm ! (src + pitch * i + j)"
      if ok: "ret = Inr ()" and ij: "i < Suc n" "j < span" for i j
    proof (cases i)
      case 0
      then have b: "row_addr dst ds i j \<in> addressed dst span"
        using ij by (auto simp: row_addr_0 addressed_def)
      show ?thesis
        using rest(2) [OF first_row_apart [OF assms(2) Suc.prems(1) b]] row ij 0
        by (simp add: row_addr_0)
    next
      case (Suc i')
      then have "mem' (row_addr (dst + of_nat ds) ds i' j) = vm ! (src + pitch + pitch * i' + j)"
        using rest(3) [OF ok] ij by simp
      then show ?thesis using Suc by (simp add: row_addr_Suc algebra_simps)
    qed
    then show ?thesis
      using c rest(2) frame by (auto simp: in_rows_Suc)
  qed
qed

section \<open>Copying rectangles of a framebuffer\<close>

text \<open>
  The framebuffer's lines are inside its mapped bytes, hold its width, and lie at offsets that
  fit a signed \<open>int\<close>.
\<close>

definition geometry_ok :: "u8 list \<Rightarrow> evdi_framebuffer \<Rightarrow> bool" where
  "geometry_ok vm fb \<longleftrightarrow>
     unat (fb_offset fb) + unat (fb_pitch fb) * unat (fb_height fb) \<le> length vm \<and>
     unat (fb_offset fb) + unat (fb_pitch fb) * unat (fb_height fb) < 2 ^ 31 \<and>
     4 * unat (fb_width fb) \<le> unat (fb_pitch fb) \<and>
     unat (fb_width fb) < 2 ^ 29 \<and> unat (fb_height fb) < 2 ^ 31"

text \<open>Byte \<open>k\<close> of pixel \<open>(x, y)\<close>: in the framebuffer and in the user buffer.\<close>

definition fb_byte :: "u8 list \<Rightarrow> evdi_framebuffer \<Rightarrow> nat \<Rightarrow> nat \<Rightarrow> nat \<Rightarrow> u8" where
  "fb_byte vm fb x y k = vm ! (unat (fb_offset fb) + unat (fb_pitch fb) * y + 4 * x + k)"

definition user_addr :: "u64 \<Rightarrow> nat \<Rightarrow> nat \<Rightarrow> nat \<Rightarrow> nat \<Rightarrow> u64" where
  "user_addr buf s x y k = buf + of_nat (s * y + 4 * x + k)"

definition shows_pixel :: "u8 list \<Rightarrow> evdi_framebuffer \<Rightarrow> u64 \<Rightarrow> nat \<Rightarrow> umem \<Rightarrow> nat \<times> nat \<Rightarrow> bool" where
  "shows_pixel vm fb buf s mem p \<longleftrightarrow>
     (case p of (x, y) \<Rightarrow> \<forall>k<4. mem (user_addr buf s x y k) = fb_byte vm fb x y k)"

definition pixel_bytes :: "u64 \<Rightarrow> nat \<Rightarrow> (nat \<times> nat) set \<Rightarrow> u64 set" where
  "pixel_bytes buf s ps = {user_addr buf s x y k | x y k. (x, y) \<in> ps \<and> k < 4}"

text \<open>The hypotheses on a copy into a user buffer of stride \<open>s\<close> and the size of the framebuffer.\<close>

definition copy_setup ::
  "copy_to_user \<Rightarrow> u8 list \<Rightarrow> evdi_framebuffer \<Rightarrow> s32 \<Rightarrow> bool" where
  "copy_setup ctu vm fb s \<longleftrightarrow> copy_to_user_ok ctu \<and> geometry_ok vm fb \<and>
     4 * unat (fb_width fb) \<le> unat s \<and> unat s * unat (fb_height fb) < 2 ^ 31 \<and> unat s < 2 ^ 31"

definition upright :: "drm_clip_rect \<Rightarrow> bool" where
  "upright r \<longleftrightarrow> x1 r \<le> x2 r \<and> y1 r \<le> y2 r"

lemma sint_u16: "sint (ucast (w :: u16) :: s32) = int (unat w)"
  using sint_eq_unat [of "ucast w"] unat_16_less [of w] by simp

lemma sless_u16: "unat (w :: s32) < 2 ^ 31 \<Longrightarrow> w <s ucast (v :: u16) \<longleftrightarrow> unat w < unat v"
  unfolding word_sless_alt sint_u16 by (simp only: sint_eq_unat of_nat_less_iff)

lemma unat_times_4_u16: "unat (ucast (w :: u16) * 4 :: s32) = unat w * 4"
  by (subst unat_mult_exact) (use unat_16_less [of w] in simp_all)

text \<open>The offset of a line's first damaged pixel, computed in 32 bits without wrap.\<close>

lemma line_offset_exact:
  assumes "unat o0 + unat p * unat y + 4 * unat x < 2 ^ 31"
  shows "unat (o0 + p * ucast (y :: u16) + ucast (x :: u16) * 4 :: s32)
      = unat o0 + unat p * unat y + 4 * unat x"
    and "sint (o0 + p * ucast y + ucast x * 4 :: s32)
      = int (unat o0 + unat p * unat y + 4 * unat x)"
proof -
  have m: "unat (p * ucast y) = unat p * unat y"
    using unat_mult_exact [of p "ucast y"] assms by simp
  have a: "unat (o0 + p * ucast y) = unat o0 + unat p * unat y"
    using unat_add_exact [of o0 "p * ucast y"] assms m by simp
  show u: "unat (o0 + p * ucast y + ucast x * 4) = unat o0 + unat p * unat y + 4 * unat x"
    using unat_add_exact [of "o0 + p * ucast y" "ucast x * 4"] assms a unat_times_4_u16 [of x] by simp
  show "sint (o0 + p * ucast y + ucast x * 4) = int (unat o0 + unat p * unat y + 4 * unat x)"
    using sint_eq_unat [of "o0 + p * ucast y + ucast x * 4"] assms unfolding u by simp
qed

lemma span_exact:
  assumes "x1 r \<le> x2 r"
  shows "sint ((ucast (x2 r) - ucast (x1 r)) * 4 :: s32) = int (4 * (unat (x2 r) - unat (x1 r)))"
proof -
  have le: "unat (x1 r) \<le> unat (x2 r)" using assms by (simp add: word_le_nat_alt)
  have d: "unat (ucast (x2 r) - ucast (x1 r) :: s32) = unat (x2 r) - unat (x1 r)"
    by (subst unat_sub_exact) (use le in simp_all)
  have u: "unat ((ucast (x2 r) - ucast (x1 r)) * 4 :: s32) = 4 * (unat (x2 r) - unat (x1 r))"
    using unat_mult_exact [of "ucast (x2 r) - ucast (x1 r)" 4] d unat_16_less [of "x2 r"] by simp
  then show ?thesis
    using sint_eq_unat [of "(ucast (x2 r) - ucast (x1 r)) * 4"] unat_16_less [of "x2 r"] by simp
qed

lemma pixel_row:
  assumes "(x, y) \<in> pixels r" and "k < 4"
  shows "\<exists>i<unat (y2 r) - unat (y1 r). \<exists>j < 4 * (unat (x2 r) - unat (x1 r)).
    user_addr buf s x y k = row_addr (buf + of_nat (s * unat (y1 r) + 4 * unat (x1 r))) s i j \<and>
    (\<forall>o0 p :: nat. o0 + p * unat (y1 r) + 4 * unat (x1 r) + p * i + j = o0 + p * y + 4 * x + k)"
proof -
  have xy: "unat (x1 r) \<le> x" "x < unat (x2 r)" "unat (y1 r) \<le> y" "y < unat (y2 r)"
    using assms(1) by (auto simp: mem_pixels)
  let ?i = "y - unat (y1 r)" and ?j = "4 * (x - unat (x1 r)) + k"
  have y: "q * unat (y1 r) + q * ?i = q * y" for q :: nat
    unfolding distrib_left [symmetric] using xy by simp
  have x: "4 * unat (x1 r) + ?j = 4 * x + k" using xy by simp
  have o: "o0 + p * unat (y1 r) + 4 * unat (x1 r) + p * ?i + ?j = o0 + p * y + 4 * x + k" for o0 p
    using y [of p] x by linarith
  let ?A = "s * unat (y1 r) + 4 * unat (x1 r)"
  have e: "?A + (?i * s + ?j) = s * y + 4 * x + k"
    using o [of 0 s] by (simp add: mult.commute)
  have "row_addr (buf + of_nat ?A) s ?i ?j = buf + (of_nat ?A + of_nat (?i * s + ?j))"
    by (simp only: row_addr_def add.assoc)
  also have "\<dots> = buf + of_nat (s * y + 4 * x + k)"
    unfolding of_nat_add [symmetric] e ..
  finally have "row_addr (buf + of_nat ?A) s ?i ?j = buf + of_nat (s * y + 4 * x + k)" .
  moreover have "?i < unat (y2 r) - unat (y1 r)" "?j < 4 * (unat (x2 r) - unat (x1 r))"
    using xy assms(2) by linarith+
  ultimately show ?thesis
    using o by (intro exI [of _ ?i] exI [of _ ?j] conjI allI) (simp_all only: user_addr_def)
qed

text \<open>The bytes of the rows of a rectangle are the bytes of its pixels.\<close>

lemma rows_are_pixels:
  assumes "upright r"
  shows "in_rows (buf + of_nat (s * unat (y1 r) + 4 * unat (x1 r))) s
      (4 * (unat (x2 r) - unat (x1 r))) (unat (y2 r) - unat (y1 r)) b
    \<longleftrightarrow> b \<in> pixel_bytes buf s (pixels r)"
proof
  let ?d = "buf + of_nat (s * unat (y1 r) + 4 * unat (x1 r))"
  assume "in_rows ?d s (4 * (unat (x2 r) - unat (x1 r))) (unat (y2 r) - unat (y1 r)) b"
  then obtain i j where ij: "i < unat (y2 r) - unat (y1 r)" "j < 4 * (unat (x2 r) - unat (x1 r))"
      "b = row_addr ?d s i j"
    unfolding in_rows_def by blast
  have e: "s * unat (y1 r) + 4 * unat (x1 r) + (i * s + j)
      = s * (unat (y1 r) + i) + 4 * (unat (x1 r) + j div 4) + j mod 4"
    by (simp add: algebra_simps)
  have "b = buf + of_nat (s * unat (y1 r) + 4 * unat (x1 r) + (i * s + j))"
    by (simp only: ij(3) row_addr_def of_nat_add add.assoc)
  then have "b = user_addr buf s (unat (x1 r) + j div 4) (unat (y1 r) + i) (j mod 4)"
    unfolding e user_addr_def .
  moreover have "(unat (x1 r) + j div 4, unat (y1 r) + i) \<in> pixels r"
    using ij(1,2) by (auto simp: mem_pixels)
  ultimately show "b \<in> pixel_bytes buf s (pixels r)"
    unfolding pixel_bytes_def by (intro CollectI exI conjI) (assumption | simp)+
next
  let ?d = "buf + of_nat (s * unat (y1 r) + 4 * unat (x1 r))"
  assume "b \<in> pixel_bytes buf s (pixels r)"
  then obtain x y k where p: "(x, y) \<in> pixels r" "k < 4" "b = user_addr buf s x y k"
    unfolding pixel_bytes_def by blast
  show "in_rows ?d s (4 * (unat (x2 r) - unat (x1 r))) (unat (y2 r) - unat (y1 r)) b"
    using pixel_row [OF p(1,2), of buf s] p(3) unfolding in_rows_def by blast
qed

lemma pixel_in_line:
  assumes "x < w" and "4 * w \<le> s" and "k < 4"
  shows "4 * x + k < (s :: nat)"
  using assms by linarith

lemma user_addr_inj:
  assumes "4 * w \<le> s" and "s * h < 2 ^ 31" and "x < w" "y < h" "k < 4" and "x' < w" "y' < h" "k' < 4"
    and "user_addr buf s x y k = user_addr buf s x' y' k'"
  shows "x = x' \<and> y = y' \<and> k = k'"
proof -
  have l: "4 * x + k < s" "4 * x' + k' < s"
    using assms pixel_in_line by blast+
  have b: "s * y + (4 * x + k) < 2 ^ 64" if "y < h" "4 * x + k < s" for x y k
  proof -
    have "s * (y + 1) \<le> s * h" by (rule mult_le_mono2) (use that in simp)
    then show ?thesis using that(2) assms(2) by (simp add: algebra_simps)
  qed
  have "of_nat (s * y + (4 * x + k)) = (of_nat (s * y' + (4 * x' + k')) :: u64)"
    using assms(9) by (simp only: user_addr_def add_left_cancel add.assoc)
  then have e: "s * y + (4 * x + k) = s * y' + (4 * x' + k')"
    by (intro of_nat_u64_inj b assms l)
  have "y = (s * y + (4 * x + k)) div s" "y' = (s * y' + (4 * x' + k')) div s"
    using l by simp_all
  then have "y = y'" using e by simp
  then have "4 * x + k = 4 * x' + k'" using e by simp
  then show ?thesis using \<open>y = y'\<close> assms(5,8) by presburger
qed

text \<open>The test against the buffer's size, and the copy of a rectangle that passes it as rows.\<close>

lemma rect_fits:
  assumes "geometry_ok vm fb"
  shows "fb_width fb <s ucast (x2 r) \<longleftrightarrow> unat (fb_width fb) < unat (x2 r)"
    and "fb_height fb <s ucast (y2 r) \<longleftrightarrow> unat (fb_height fb) < unat (y2 r)"
  by (rule sless_u16, use assms in \<open>simp add: geometry_ok_def\<close>)+

lemma nat_int_diff: "nat (int a - int b) = a - b"
  by simp

lemma below_rows:
  assumes "(i :: nat) < j" and "j \<le> h"
  shows "q * i + q * (j - i - 1) + q \<le> q * h"
proof -
  have "Suc (i + (j - i - 1)) \<le> h" using assms by linarith
  then have "q * Suc (i + (j - i - 1)) \<le> q * h" by (rule mult_le_mono2)
  then show ?thesis by (simp only: mult_Suc_right add_mult_distrib2 add.commute)
qed

lemma copy_one_rect_rows:
  assumes g: "geometry_ok vm fb" and r: "upright r"
    and fit: "unat (x2 r) \<le> unat (fb_width fb)" "unat (y2 r) \<le> unat (fb_height fb)"
    and rows: "unat (y1 r) < unat (y2 r)"
  defines "so \<equiv> unat (fb_offset fb) + unat (fb_pitch fb) * unat (y1 r) + 4 * unat (x1 r)"
    and "sp \<equiv> 4 * (unat (x2 r) - unat (x1 r))" and "n \<equiv> unat (y2 r) - unat (y1 r)"
  shows "copy_one_rect ctu vm fb buf s (fb_width fb) (fb_height fb) r mem
      = copy_rows ctu vm (int sp) (int (unat (fb_pitch fb))) (sint s) n
          (buf + scast (s * ucast (y1 r) + ucast (x1 r) * 4)) (int so) mem"
    and "so + unat (fb_pitch fb) * (n - 1) + sp \<le> length vm" and "sp \<le> 4 * unat (fb_width fb)"
proof -
  let ?p = "unat (fb_pitch fb)" and ?h = "unat (fb_height fb)" and ?w = "unat (fb_width fb)"
  have st: "unat (fb_offset fb) + ?p * ?h \<le> length vm" "unat (fb_offset fb) + ?p * ?h < 2 ^ 31"
    "4 * ?w \<le> ?p"
    using g by (simp_all add: geometry_ok_def)
  have up: "unat (x1 r) \<le> unat (x2 r)" using r by (simp add: upright_def word_le_nat_alt)
  then have xs: "4 * unat (x1 r) + sp = 4 * unat (x2 r)" by (simp add: sp_def)
  note ph = below_rows [OF rows fit(2), of ?p, folded n_def]
  show "so + ?p * (n - 1) + sp \<le> length vm"
    using ph xs fit(1) st(1,3) unfolding so_def by linarith
  have "unat (fb_offset fb) + ?p * unat (y1 r) + 4 * unat (x1 r) < 2 ^ 31"
    using ph xs fit(1) st(2,3) by linarith
  note so = line_offset_exact(2) [OF this, folded so_def]
  show "sp \<le> 4 * ?w" using xs fit(1) by linarith
  have nn: "nat (int (unat (y2 r)) - int (unat (y1 r))) = n" unfolding n_def by (rule nat_int_diff)
  have "x1 r \<le> x2 r" using r by (simp add: upright_def)
  note spw = span_exact [OF this, folded sp_def]
  show "copy_one_rect ctu vm fb buf s (fb_width fb) (fb_height fb) r mem
      = copy_rows ctu vm (int sp) (int ?p) (sint s) n
          (buf + scast (s * ucast (y1 r) + ucast (x1 r) * 4)) (int so) mem"
    using fit unfolding copy_one_rect_def Let_def rect_fits [OF g] spw nn so not_less [symmetric]
    by (simp only: if_False uint_nat disj_not1 simp_thms)
qed

lemma copy_one_rect_trivial:
  assumes g: "geometry_ok vm fb"
    and "unat (fb_width fb) < unat (x2 r) \<or> unat (fb_height fb) < unat (y2 r) \<or> \<not> unat (y1 r) < unat (y2 r)"
  shows "(copy_one_rect ctu vm fb buf s (fb_width fb) (fb_height fb) r mem = Ret (Inl EFAULT, mem) \<and>
      (unat (fb_width fb) < unat (x2 r) \<or> unat (fb_height fb) < unat (y2 r))) \<or>
    (copy_one_rect ctu vm fb buf s (fb_width fb) (fb_height fb) r mem = Ret (Inr (), mem) \<and> pixels r = {})"
proof (cases "unat (fb_width fb) < unat (x2 r) \<or> unat (fb_height fb) < unat (y2 r)")
  case True
  then show ?thesis unfolding copy_one_rect_def Let_def rect_fits [OF g] by simp
next
  case False
  then have "\<not> unat (y1 r) < unat (y2 r)" using assms(2) by blast
  then have "unat (y2 r) - unat (y1 r) = 0" "pixels r = {}" by (simp_all add: pixels_def)
  then show ?thesis
    using False unfolding copy_one_rect_def Let_def rect_fits [OF g] nat_int_diff by simp
qed

text \<open>
  One rectangle: on success every pixel of it shows the framebuffer, and no byte of user memory
  changes but those of its on-screen pixels.
\<close>

lemma copy_one_rect_result:
  assumes cs: "copy_setup ctu vm fb s" and r: "upright r"
  shows "\<exists>ret mem'. copy_one_rect ctu vm fb buf s (fb_width fb) (fb_height fb) r mem = Ret (ret, mem') \<and>
    (\<forall>b. b \<notin> pixel_bytes buf (unat s) (pixels r \<inter> frame_of fb) \<longrightarrow> mem' b = mem b) \<and>
    (ret = Inr () \<longrightarrow> pixels r \<subseteq> frame_of fb \<and>
       (\<forall>p\<in>pixels r. shows_pixel vm fb buf (unat s) mem' p))"
proof -
  let ?w = "unat (fb_width fb)" and ?h = "unat (fb_height fb)" and ?p = "unat (fb_pitch fb)"
  have st: "copy_to_user_ok ctu" "geometry_ok vm fb" "4 * ?w \<le> unat s" "unat s * ?h < 2 ^ 31" "unat s < 2 ^ 31"
    using cs by (simp_all add: copy_setup_def)
  show ?thesis
  proof (cases "?w < unat (x2 r) \<or> ?h < unat (y2 r) \<or> \<not> unat (y1 r) < unat (y2 r)")
    case True
    then show ?thesis using copy_one_rect_trivial [OF st(2) True, of ctu buf s mem] by auto
  next
    case False
    let ?n = "unat (y2 r) - unat (y1 r)" and ?sp = "4 * (unat (x2 r) - unat (x1 r))"
    let ?so = "unat (fb_offset fb) + ?p * unat (y1 r) + 4 * unat (x1 r)"
    let ?do = "unat s * unat (y1 r) + 4 * unat (x1 r)"
    have fit: "unat (x2 r) \<le> ?w" "unat (y2 r) \<le> ?h" "unat (y1 r) < unat (y2 r)" using False by auto
    note rows = copy_one_rect_rows [OF st(2) r fit]
    have frame: "pixels r \<subseteq> frame_of fb" using fit by (auto simp: mem_pixels frame_of_def)
    have "unat (x1 r) \<le> unat (x2 r)" using r by (simp add: upright_def word_le_nat_alt)
    then have "0 + unat s * unat (y1 r) + 4 * unat (x1 r) < 2 ^ 31"
      using below_rows [OF fit(3,2), of "unat s"] fit(1) st(3,4) by linarith
    then have d: "scast (s * ucast (y1 r) + ucast (x1 r) * 4 :: s32) = (of_nat ?do :: u64)"
      using line_offset_exact(2) [of 0 s "y1 r" "x1 r"] unfolding scast_eq
      by (simp only: unsigned_0 add_0 of_int_of_nat_eq)
    have ss: "sint s = int (unat s)" by (rule sint_eq_unat) (rule st)
    have "unat s * ?n \<le> unat s * ?h" by (rule mult_le_mono2) (use fit in linarith)
    moreover have "unat s * ?h < 2 ^ 64" by (rule less_trans [OF st(4)]) simp
    ultimately have "unat s * ?n < 2 ^ 64" by (rule le_less_trans)
    moreover have "?sp \<le> unat s" using rows(3) st(3) by linarith
    moreover have "?sp < 2 ^ 64" using unat_16_less [of "x2 r"] by simp
    ultimately obtain ret mem' where res:
      "copy_rows ctu vm (int ?sp) (int ?p) (int (unat s)) ?n (buf + of_nat ?do) (int ?so) mem = Ret (ret, mem')"
      "\<forall>b. \<not> in_rows (buf + of_nat ?do) (unat s) ?sp ?n b \<longrightarrow> mem' b = mem b"
      "ret = Inr () \<longrightarrow> (\<forall>i<?n. \<forall>j < ?sp. mem' (row_addr (buf + of_nat ?do) (unat s) i j)
         = vm ! (?so + ?p * i + j))"
      using copy_rows_result [OF st(1), of ?sp "unat s" ?n ?so ?p vm "buf + of_nat ?do" mem] rows(2)
      by blast
    have "shows_pixel vm fb buf (unat s) mem' (x, y)" if "ret = Inr ()" "(x, y) \<in> pixels r" for x y
      unfolding shows_pixel_def prod.case fb_byte_def
      using pixel_row [OF that(2), of _ buf "unat s"] res(3) that(1) by metis
    then show ?thesis
      using rows(1) [of ctu buf s mem] res(1,2) frame rows_are_pixels [OF r, of buf "unat s"]
      unfolding d ss
      by (intro exI [of _ ret] exI [of _ mem']) (auto simp: Int_absorb2)
  qed
qed

section \<open>Copying the damage\<close>

lemma pixel_bytes_apart:
  assumes "4 * unat (fb_width fb) \<le> s" and "s * unat (fb_height fb) < 2 ^ 31"
    and "(x, y) \<in> frame_of fb" and "k < 4" and "ps \<subseteq> frame_of fb" and "(x, y) \<notin> ps"
  shows "user_addr buf s x y k \<notin> pixel_bytes buf s ps"
proof
  assume "user_addr buf s x y k \<in> pixel_bytes buf s ps"
  then obtain x' y' k' where p: "(x', y') \<in> ps" "k' < 4" "user_addr buf s x y k = user_addr buf s x' y' k'"
    unfolding pixel_bytes_def by blast
  then have "(x', y') \<in> frame_of fb" using assms(5) by blast
  then have "x = x' \<and> y = y' \<and> k = k'"
    using assms(3,4) p(2,3) user_addr_inj [OF assms(1,2)] by (auto simp: frame_of_def)
  then show False using p(1) assms(6) by simp
qed

lemma shows_pixel_kept:
  assumes "4 * unat (fb_width fb) \<le> s" and "s * unat (fb_height fb) < 2 ^ 31"
    and "p \<in> frame_of fb" and "ps \<subseteq> frame_of fb" and "p \<notin> ps"
    and "\<And>b. b \<notin> pixel_bytes buf s ps \<Longrightarrow> mem' b = mem b" and "shows_pixel vm fb buf s mem p"
  shows "shows_pixel vm fb buf s mem' p"
proof -
  obtain x y where xy: "p = (x, y)" by (cases p)
  have "mem' (user_addr buf s x y k) = mem (user_addr buf s x y k)" if "k < 4" for k
    using assms pixel_bytes_apart [OF assms(1,2), of x y k ps buf] that xy by simp
  then show ?thesis using assms(7) xy by (simp add: shows_pixel_def)
qed

lemma pixel_bytes_mono: "ps \<subseteq> qs \<Longrightarrow> pixel_bytes buf s ps \<subseteq> pixel_bytes buf s qs"
  unfolding pixel_bytes_def by blast

definition damage_of :: "drm_clip_rect list \<Rightarrow> (nat \<times> nat) set" where
  "damage_of rects = (\<Union>r\<in>set rects. pixels r)"

lemma copy_rects_result:
  assumes cs: "copy_setup ctu vm fb s" and "\<forall>r\<in>set rects. upright r"
  shows "\<exists>ret mem'. compose_loop (copy_one_rect ctu vm fb buf s (fb_width fb) (fb_height fb)) rects mem
      = Ret (ret, mem') \<and>
    (\<forall>b. b \<notin> pixel_bytes buf (unat s) (damage_of rects \<inter> frame_of fb) \<longrightarrow> mem' b = mem b) \<and>
    (ret = Inr () \<longrightarrow> damage_of rects \<subseteq> frame_of fb \<and>
       (\<forall>p\<in>damage_of rects. shows_pixel vm fb buf (unat s) mem' p))"
  using assms(2)
proof (induction rects arbitrary: mem)
  case Nil
  then show ?case by (simp add: damage_of_def)
next
  case (Cons r rects)
  let ?s = "unat s"
  have s: "4 * unat (fb_width fb) \<le> ?s" "?s * unat (fb_height fb) < 2 ^ 31"
    using cs by (simp_all add: copy_setup_def geometry_ok_def)
  have d: "damage_of (r # rects) = pixels r \<union> damage_of rects" by (simp add: damage_of_def)
  obtain ret1 mem1 where one:
    "copy_one_rect ctu vm fb buf s (fb_width fb) (fb_height fb) r mem = Ret (ret1, mem1)"
    "\<And>b. b \<notin> pixel_bytes buf ?s (pixels r \<inter> frame_of fb) \<Longrightarrow> mem1 b = mem b"
    "ret1 = Inr () \<Longrightarrow> pixels r \<subseteq> frame_of fb \<and> (\<forall>p\<in>pixels r. shows_pixel vm fb buf ?s mem1 p)"
    using copy_one_rect_result [OF cs, of r buf mem] Cons.prems by auto
  have m: "pixel_bytes buf ?s (pixels r \<inter> frame_of fb) \<subseteq> pixel_bytes buf ?s (damage_of (r # rects) \<inter> frame_of fb)"
    "pixel_bytes buf ?s (damage_of rects \<inter> frame_of fb) \<subseteq> pixel_bytes buf ?s (damage_of (r # rects) \<inter> frame_of fb)"
    unfolding d by (rule pixel_bytes_mono, blast)+
  show ?case
  proof (cases ret1)
    case (Inl e)
    then show ?thesis using one(1,2) m(1) by auto
  next
    case (Inr u)
    obtain ret mem' where rest:
      "compose_loop (copy_one_rect ctu vm fb buf s (fb_width fb) (fb_height fb)) rects mem1 = Ret (ret, mem')"
      "\<And>b. b \<notin> pixel_bytes buf ?s (damage_of rects \<inter> frame_of fb) \<Longrightarrow> mem' b = mem1 b"
      "ret = Inr () \<Longrightarrow> damage_of rects \<subseteq> frame_of fb \<and> (\<forall>p\<in>damage_of rects. shows_pixel vm fb buf ?s mem' p)"
      using Cons.IH [of mem1] Cons.prems by auto
    have r: "pixels r \<subseteq> frame_of fb" "\<forall>p\<in>pixels r. shows_pixel vm fb buf ?s mem1 p"
      using one(3) Inr by simp_all
    have "shows_pixel vm fb buf ?s mem' p" if ok: "ret = Inr ()" and p: "p \<in> pixels r \<union> damage_of rects" for p
    proof (cases "p \<in> damage_of rects")
      case True
      then show ?thesis using rest(3) [OF ok] by blast
    next
      case False
      have sub: "damage_of rects \<subseteq> frame_of fb" using rest(3) [OF ok] by blast
      show ?thesis
        by (rule shows_pixel_kept [OF s _ sub False, of buf mem' mem1])
          (use r p False rest(2) sub in \<open>auto simp: Int_absorb2\<close>)
    qed
    moreover have "mem' b = mem b"
      if "b \<notin> pixel_bytes buf ?s (damage_of (r # rects) \<inter> frame_of fb)" for b
      using rest(2) [OF contra_subsetD [OF m(2) that]] one(2) [OF contra_subsetD [OF m(1) that]]
      by (rule trans)
    ultimately show ?thesis
      using one(1) Inr rest(1) r(1) rest(3) unfolding d by auto
  qed
qed

text \<open>
  The copy for buffers of the xe driver is the copy of one rectangle, the whole frame, for every
  size a rectangle can hold.
\<close>

lemma copy_lines_xe_rows:
  assumes cs: "copy_setup ctu vm fb s" and "y + n \<le> unat (fb_height fb)"
  shows "copy_lines_xe ctu vm fb buf s (fb_width fb) n y mem =
    copy_rows ctu vm (int (4 * unat (fb_width fb))) (int (unat (fb_pitch fb))) (int (unat s)) n
      (buf + of_nat (unat s * y)) (int (unat (fb_offset fb) + unat (fb_pitch fb) * y)) mem"
  using assms(2)
proof (induction n arbitrary: y mem)
  case 0
  then show ?case by simp
next
  case (Suc n)
  let ?p = "unat (fb_pitch fb)" and ?h = "unat (fb_height fb)" and ?w = "unat (fb_width fb)"
  have st: "unat (fb_offset fb) + ?p * ?h < 2 ^ 31" "unat s * ?h < 2 ^ 31" "?w < 2 ^ 29" "?h < 2 ^ 31"
    using cs by (simp_all add: copy_setup_def geometry_ok_def)
  have y: "y < ?h" using Suc.prems by simp
  have q: "q * y \<le> q * ?h" for q by (rule mult_le_mono2) (use y in simp)
  have b1: "unat (fb_offset fb) + ?p * y < 2 ^ 31" using q [of ?p] st(1) by linarith
  have b2: "unat s * y < 2 ^ 31" by (rule le_less_trans [OF q st(2)])
  have uy: "unat (of_nat y :: u32) = y" by (rule unat_of_nat_32) (use y st(4) in simp)
  have m1: "unat (fb_pitch fb * of_nat y) = ?p * y"
    using unat_mult_exact [of "fb_pitch fb" "of_nat y"] b1 uy by simp
  have o: "unat (fb_offset fb + fb_pitch fb * of_nat y) = unat (fb_offset fb) + ?p * y"
    using unat_add_exact [of "fb_offset fb" "fb_pitch fb * of_nat y"] m1 b1 by simp
  have so: "sint (fb_offset fb + fb_pitch fb * of_nat y) = int (unat (fb_offset fb) + ?p * y)"
    using sint_eq_unat [of "fb_offset fb + fb_pitch fb * of_nat y"] b1 unfolding o by simp
  have m2: "unat (s * of_nat y) = unat s * y"
    using unat_mult_exact [of s "of_nat y"] b2 uy by simp
  have d: "scast (s * of_nat y :: s32) = (of_nat (unat s * y) :: u64)"
    using sint_eq_unat [of "s * of_nat y"] b2 unfolding m2 scast_eq
    by (simp only: of_int_of_nat_eq)
  have w4: "unat (fb_width fb * 4) = 4 * ?w"
    using unat_mult_exact [of "fb_width fb" 4] st(3) by simp
  have w: "sint (fb_width fb * 4) = int (4 * ?w)"
    using sint_eq_unat [of "fb_width fb * 4"] st(3) unfolding w4 by simp
  have nx: "buf + of_nat (unat s * y) + of_int (int (unat s)) = buf + of_nat (unat s * (y + 1))"
    by (simp add: algebra_simps)
  have sx: "int (unat (fb_offset fb) + ?p * y) + int ?p = int (unat (fb_offset fb) + ?p * (y + 1))"
    by simp
  show ?case
    unfolding copy_lines_xe.simps copy_rows.simps so w d nx sx
    using Suc.IH [of "y + 1"] Suc.prems by (simp only: add_Suc_right add_Suc Suc_eq_plus1 [symmetric])
qed

definition full_frame :: "evdi_framebuffer \<Rightarrow> drm_clip_rect" where
  "full_frame fb = \<lparr>x1 = 0, y1 = 0, x2 = ucast (fb_width fb), y2 = ucast (fb_height fb)\<rparr>"

lemma full_frame_sel:
  assumes "unat (fb_width fb) < 65536" and "unat (fb_height fb) < 65536"
  shows "unat (x2 (full_frame fb)) = unat (fb_width fb)" "unat (y2 (full_frame fb)) = unat (fb_height fb)"
    "x1 (full_frame fb) = 0" "y1 (full_frame fb) = 0"
  using assms by (simp_all add: full_frame_def unsigned_ucast_eq take_bit_nat_eq_self)

lemma upright_full_frame: "upright (full_frame fb)"
  by (simp add: upright_def full_frame_def)

lemma full_frame_pixels:
  assumes "unat (fb_width fb) < 65536" and "unat (fb_height fb) < 65536"
  shows "pixels (full_frame fb) = frame_of fb"
  using full_frame_sel [OF assms] by (auto simp: pixels_def frame_of_def)

lemma copy_xe_is_full_frame:
  assumes cs: "copy_setup ctu vm fb s" and "unat (fb_width fb) < 65536" and "unat (fb_height fb) < 65536"
  shows "copy_primary_pixels_on_xe True ctu vm fb buf s (fb_width fb) (fb_height fb) mem
    = copy_one_rect ctu vm fb buf s (fb_width fb) (fb_height fb) (full_frame fb) mem"
proof -
  note ff = full_frame_sel [OF assms(2,3)]
  have st: "unat s < 2 ^ 31" "unat (fb_width fb) < 2 ^ 31" "unat (fb_height fb) < 2 ^ 31"
    "unat (fb_offset fb) < 2 ^ 31"
    using cs by (simp_all add: copy_setup_def geometry_ok_def)
  have fits: "\<not> fb_width fb <s ucast (x2 (full_frame fb))" "\<not> fb_height fb <s ucast (y2 (full_frame fb))"
    using sless_u16 [OF st(2)] sless_u16 [OF st(3)] ff by simp_all
  have sp: "sint ((ucast (x2 (full_frame fb)) - ucast (x1 (full_frame fb))) * 4 :: s32) = int (4 * unat (fb_width fb))"
    using span_exact [of "full_frame fb"] upright_full_frame [of fb] ff by (simp add: upright_def)
  have h: "sint (fb_height fb) = int (unat (fb_height fb))" by (rule sint_eq_unat [OF st(3)])
  have ss: "sint s = int (unat s)" by (rule sint_eq_unat [OF st(1)])
  have so: "sint (fb_offset fb) = int (unat (fb_offset fb))" by (rule sint_eq_unat [OF st(4)])
  have "copy_one_rect ctu vm fb buf s (fb_width fb) (fb_height fb) (full_frame fb) mem =
    copy_rows ctu vm (int (4 * unat (fb_width fb))) (int (unat (fb_pitch fb))) (int (unat s))
      (unat (fb_height fb)) buf (int (unat (fb_offset fb))) mem"
    unfolding copy_one_rect_def Let_def sp
    using fits ff by (simp add: ss so del: uint_nat flip: uint_nat)
  moreover have "copy_primary_pixels_on_xe True ctu vm fb buf s (fb_width fb) (fb_height fb) mem
    = copy_rows ctu vm (int (4 * unat (fb_width fb))) (int (unat (fb_pitch fb))) (int (unat s))
      (unat (fb_height fb)) buf (int (unat (fb_offset fb))) mem"
    using copy_lines_xe_rows [OF cs, of 0 "unat (fb_height fb)" buf mem]
    unfolding copy_primary_pixels_on_xe_def h by simp
  ultimately show ?thesis by simp
qed

section \<open>The copy never reads outside the mapping, whatever the user passes\<close>

text \<open>
  The user chooses the buffer and its stride freely, and \<open>copy_to_user\<close> may do anything. What
  keeps the reads inside is the framebuffer's geometry and the check against its size.
\<close>

lemma copy_rows_no_oops:
  "(0 < n \<Longrightarrow> src + pitch * (n - 1) + span \<le> length vm) \<Longrightarrow>
     copy_rows ctu vm (int span) (int pitch) ds n dst (int src) mem \<noteq> Oops"
proof (induction n arbitrary: dst src mem)
  case (Suc n)
  have "src + span \<le> length vm" using Suc.prems by simp
  then have rd: "kread vm (int src) (int span) = Some (take span (drop src vm))"
    by (simp add: kread_Some)
  have "src + pitch + pitch * (n - 1) + span \<le> length vm" if "0 < n"
    using Suc.prems that by (cases n) (simp_all add: algebra_simps)
  then have "copy_rows ctu vm (int span) (int pitch) ds n d (int src + int pitch) m \<noteq> Oops" for d m
    using Suc.IH [of "src + pitch" d m] by simp
  then show ?case by (simp add: rd split: prod.splits)
qed simp

lemma copy_one_rect_no_oops:
  assumes g: "geometry_ok vm fb" and r: "upright r"
  shows "copy_one_rect ctu vm fb buf s (fb_width fb) (fb_height fb) r mem \<noteq> Oops"
proof (cases "unat (fb_width fb) < unat (x2 r) \<or> unat (fb_height fb) < unat (y2 r) \<or> \<not> unat (y1 r) < unat (y2 r)")
  case True
  then show ?thesis using copy_one_rect_trivial [OF g True, of ctu buf s mem] by auto
next
  case False
  then have fit: "unat (x2 r) \<le> unat (fb_width fb)" "unat (y2 r) \<le> unat (fb_height fb)"
      "unat (y1 r) < unat (y2 r)" by auto
  note rows = copy_one_rect_rows [OF g r fit]
  show ?thesis unfolding rows(1) by (rule copy_rows_no_oops) (rule rows(2))
qed

lemma line_offset_xe:
  assumes "geometry_ok vm fb" and "y < unat (fb_height fb)"
  shows "sint (fb_offset fb + fb_pitch fb * of_nat y) = int (unat (fb_offset fb) + unat (fb_pitch fb) * y)"
    and "sint (fb_width fb * 4) = int (4 * unat (fb_width fb))"
    and "unat (fb_offset fb) + unat (fb_pitch fb) * y + 4 * unat (fb_width fb) \<le> length vm"
proof -
  let ?p = "unat (fb_pitch fb)" and ?h = "unat (fb_height fb)" and ?w = "unat (fb_width fb)"
  have g: "unat (fb_offset fb) + ?p * ?h \<le> length vm" "unat (fb_offset fb) + ?p * ?h < 2 ^ 31"
    "4 * ?w \<le> ?p" "?w < 2 ^ 29" "?h < 2 ^ 31"
    using assms(1) by (simp_all add: geometry_ok_def)
  have q: "?p * y + ?p \<le> ?p * ?h"
    using mult_le_mono2 [of "Suc y" ?h ?p] assms(2) by simp
  have b1: "unat (fb_offset fb) + ?p * y < 2 ^ 31" using q g(2) by linarith
  have uy: "unat (of_nat y :: u32) = y" by (rule unat_of_nat_32) (use assms(2) g(5) in simp)
  have m1: "unat (fb_pitch fb * of_nat y) = ?p * y"
    using unat_mult_exact [of "fb_pitch fb" "of_nat y"] b1 uy by simp
  have o: "unat (fb_offset fb + fb_pitch fb * of_nat y) = unat (fb_offset fb) + ?p * y"
    using unat_add_exact [of "fb_offset fb" "fb_pitch fb * of_nat y"] m1 b1 by simp
  show "sint (fb_offset fb + fb_pitch fb * of_nat y) = int (unat (fb_offset fb) + ?p * y)"
    using sint_eq_unat [of "fb_offset fb + fb_pitch fb * of_nat y"] b1 unfolding o by simp
  have w4: "unat (fb_width fb * 4) = 4 * ?w"
    using unat_mult_exact [of "fb_width fb" 4] g(4) by simp
  show "sint (fb_width fb * 4) = int (4 * ?w)"
    using sint_eq_unat [of "fb_width fb * 4"] g(4) unfolding w4 by simp
  show "unat (fb_offset fb) + ?p * y + 4 * ?w \<le> length vm" using q g(1,3) by linarith
qed

lemma copy_lines_xe_no_oops:
  assumes g: "geometry_ok vm fb"
  shows "y + n \<le> unat (fb_height fb) \<Longrightarrow> copy_lines_xe ctu vm fb buf s (fb_width fb) n y mem \<noteq> Oops"
proof (induction n arbitrary: y mem)
  case (Suc n)
  have y: "y < unat (fb_height fb)" using Suc.prems by simp
  note l = line_offset_xe [OF g y]
  have "kread vm (sint (fb_offset fb + fb_pitch fb * of_nat y)) (sint (fb_width fb * 4)) \<noteq> None"
    unfolding l(1,2) kread_nat [OF l(3)] by simp
  moreover have "copy_lines_xe ctu vm fb buf s (fb_width fb) n (y + 1) m \<noteq> Oops" for m
    using Suc.IH [of "y + 1" m] Suc.prems by simp
  ultimately show ?case by (auto split: option.splits prod.splits)
qed simp

lemma copy_primary_pixels_no_oops:
  assumes g: "geometry_ok vm fb" and "\<forall>r\<in>set rects. upright r" and "is_from_xe fb \<Longrightarrow> vok"
  shows "copy_primary_pixels vok ctu vm fb buf s rects (fb_width fb) (fb_height fb) mem \<noteq> Oops"
proof (cases "is_from_xe fb")
  case True
  have h: "sint (fb_height fb) = int (unat (fb_height fb))"
    using g by (intro sint_eq_unat) (simp add: geometry_ok_def)
  show ?thesis
    using True assms(3) copy_lines_xe_no_oops [OF g, of 0 "unat (fb_height fb)" ctu buf s mem]
    unfolding copy_primary_pixels_def copy_primary_pixels_on_xe_def h by simp
next
  case False
  then show ?thesis
    using compose_loop_no_oops [of rects "copy_one_rect ctu vm fb buf s (fb_width fb) (fb_height fb)" mem]
      copy_one_rect_no_oops [OF g] assms(2) unfolding copy_primary_pixels_def by simp
qed

text \<open>The mapping the ioctl works on is the object's mapping in the store it leaves.\<close>

lemma grab_vmap_mapped: "grab_vmap env a objs = (Some vm, objs1) \<Longrightarrow> vmapping (objs1 a) = Some vm"
  by (auto simp: grab_vmap_def split: if_splits prod.splits)

lemma geometry_readable:
  assumes "geometry_ok vm fb" and "fb_obj fb = Some a" and "vmapping (objs a) = Some vm"
  shows "fb_readable objs fb"
  using assms by (simp add: geometry_ok_def fb_readable_def)

text \<open>What must hold of the framebuffer and the cursor once the scanout buffer is mapped.\<close>

definition grab_sane :: "grab_env \<Rightarrow> evdi_framebuffer \<Rightarrow> evdi_cursor \<Rightarrow> gem_store \<Rightarrow> bool" where
  "grab_sane env fb c objs \<longleftrightarrow> (is_from_xe fb \<longrightarrow> ge_vmalloc env) \<and>
     (case fb_obj fb of
        None \<Rightarrow> False
      | Some a \<Rightarrow> (case grab_vmap (ge_vmap env) a objs of
            (None, _) \<Rightarrow> True
          | (Some vm, objs1) \<Rightarrow> geometry_ok vm fb \<and> cursor_sane objs1 c))"

lemma grabpix_copy_no_oops:
  assumes sane: "grab_sane env (g_fb g) c objs" and up: "\<forall>r\<in>set (g_rects g). upright r"
  shows "grabpix_copy env cmd g c cursor_events objs mem \<noteq> Oops"
proof -
  let ?fb = "g_fb g"
  obtain a where a: "fb_obj ?fb = Some a"
    using sane by (auto simp: grab_sane_def split: option.splits)
  obtain v objs1 where v: "grab_vmap (ge_vmap env) a objs = (v, objs1)" by fastforce
  show ?thesis
  proof (cases v)
    case None
    then show ?thesis using a v by (simp add: grabpix_copy_def)
  next
    case (Some vm)
    then have g: "geometry_ok vm ?fb" and c: "cursor_sane objs1 c" and xe: "is_from_xe ?fb \<longrightarrow> ge_vmalloc env"
      using sane a v by (simp_all add: grab_sane_def)
    have "fb_readable objs1 ?fb"
      by (rule geometry_readable [OF g a grab_vmap_mapped]) (use v Some in simp)
    then have cur: "copy_cursor_pixels (ge_format env) (ge_ctu env) objs1 ?fb (buffer cmd)
        (buf_byte_stride cmd) c m \<noteq> Oops" for m
      using compose_and_copy_no_oops [OF _ c] by (auto simp: copy_cursor_pixels_def split: outcome.splits)
    have prim: "copy_primary_pixels (ge_vmalloc env) (ge_ctu env) vm ?fb (buffer cmd)
        (buf_byte_stride cmd) (g_rects g) (fb_width ?fb) (fb_height ?fb) m \<noteq> Oops" for m
      using copy_primary_pixels_no_oops [OF g up] xe by simp
    show ?thesis
    proof (cases "buf_width cmd = fb_width ?fb \<and> buf_height cmd = fb_height ?fb")
      case True
      then show ?thesis
        using a v Some cur prim
        by (simp add: grabpix_copy_def Let_def split: prod.splits outcome.splits sum.splits)
    next
      case False
      then show ?thesis using a v Some by (auto simp: grabpix_copy_def)
    qed
  qed
qed

end
