(* ===== verification/Evdi_Damage.thy ===== *)
theory Evdi_Damage
  imports Evdi_Grab
begin

text \<open>
  The damage the painter has collected, across \<open>evdi_painter_mark_dirty\<close> and the grabs: the
  invariant of the dirty-rectangle array, the pixels it stands for, and the contract
  \<open>damage_store\<close> between the compositor that marks pixels and the client that grabs them, with
  the lemma that no marked pixel is lost on the way.
\<close>

section \<open>The array of dirty rectangles\<close>

definition dirts_ok :: "evdi_painter \<Rightarrow> bool" where
  "dirts_ok p \<longleftrightarrow> 0 \<le> num_dirts p \<and> num_dirts p \<le> int MAX_DIRTS \<and>
     length (dirty_rects p) = MAX_DIRTS \<and>
     all_within 65535 65535 (dirty_rects p) (nat (num_dirts p))"

definition damage :: "evdi_painter \<Rightarrow> (nat \<times> nat) set" where
  "damage p = covered (dirty_rects p) (nat (num_dirts p))"

lemma within_u16: "within 65535 65535 r \<longleftrightarrow> upright r"
  using unat_16_less [of "x2 r"] unat_16_less [of "y2 r"] by (auto simp: within_def upright_def)

lemma dirts_okD:
  assumes "dirts_ok p"
  shows "0 \<le> num_dirts p" "nat (num_dirts p) \<le> length (dirty_rects p)"
    "length (dirty_rects p) = MAX_DIRTS" "nat (num_dirts p) \<le> MAX_DIRTS"
    "all_within 65535 65535 (dirty_rects p) (nat (num_dirts p))"
  using assms by (auto simp: dirts_ok_def)

lemma damage_cong:
  "dirty_rects p' = dirty_rects p \<Longrightarrow> num_dirts p' = num_dirts p \<Longrightarrow> damage p' = damage p"
  "dirty_rects p' = dirty_rects p \<Longrightarrow> num_dirts p' = num_dirts p \<Longrightarrow> dirts_ok p' = dirts_ok p"
  by (simp_all add: damage_def dirts_ok_def)

lemma fresh_painter_dirts: "dirts_ok fresh_painter" "damage fresh_painter = {}"
  by (simp_all add: dirts_ok_def damage_def fresh_painter_def all_within_def MAX_DIRTS_def)

lemma reduce_dirts_sel [simp]:
  "scanout_fb (reduce_dirts f p) = scanout_fb p" "crtc (reduce_dirts f p) = crtc p"
  "vblank (reduce_dirts f p) = vblank p"
  by (simp_all add: reduce_dirts_def split: prod.splits)

lemma num_dirts_collapse [simp]: "num_dirts (reduce_dirts collapse_dirty_rects p) = 1"
  by (simp add: reduce_dirts_def case_prod_unfold)

lemma reduce_dirts_only_rects:
  "\<exists>rs n. reduce_dirts f p = p\<lparr>dirty_rects := rs, num_dirts := int n\<rparr>"
  by (cases "f (dirty_rects p) (nat (num_dirts p))") (auto simp: reduce_dirts_def)

text \<open>The painter's clients see the two routines through their common contract only.\<close>

context rect_reducer
begin

lemma reduce_dirts_contract:
  assumes "dirts_ok p" and "0 < num_dirts p"
  shows "dirts_ok (reduce_dirts reduce p) \<and> damage p \<subseteq> damage (reduce_dirts reduce p) \<and>
    0 < num_dirts (reduce_dirts reduce p) \<and> num_dirts (reduce_dirts reduce p) \<le> num_dirts p"
proof -
  note d = dirts_okD [OF assms(1)]
  have n: "0 < nat (num_dirts p)" using assms(2) by simp
  obtain r m where rm: "reduce (dirty_rects p) (nat (num_dirts p)) = (r, m)" by fastforce
  have "length r = length (dirty_rects p)" "0 < m" "m \<le> nat (num_dirts p)"
    "covered (dirty_rects p) (nat (num_dirts p)) \<subseteq> covered r m" "all_within 65535 65535 r m"
    using reduce_length [of "dirty_rects p" "nat (num_dirts p)"] reduce_le [OF n, of "dirty_rects p"]
      reduce_pos [OF n, of "dirty_rects p"] reduce_covered [OF n d(2)] reduce_within [OF n d(2,5)]
    unfolding rm by simp_all
  then show ?thesis
    using d by (simp add: reduce_dirts_def rm dirts_ok_def damage_def)
qed

end

text \<open>Merging an empty array leaves it empty.\<close>

lemma merge_dirts_contract:
  assumes "dirts_ok p"
  shows "dirts_ok (reduce_dirts merge_dirty_rects p) \<and>
    damage p \<subseteq> damage (reduce_dirts merge_dirty_rects p) \<and>
    num_dirts (reduce_dirts merge_dirty_rects p) \<le> num_dirts p"
proof (cases "0 < num_dirts p")
  case True
  then show ?thesis using merge.reduce_dirts_contract [OF assms] by simp
next
  case False
  then have "num_dirts p = 0" using dirts_okD(1) [OF assms] by simp
  moreover have "snd (merge_dirty_rects (dirty_rects p) 0) = 0"
    using merge_count_le [of "dirty_rects p" 0] by simp
  moreover have "length (fst (merge_dirty_rects (dirty_rects p) 0)) = MAX_DIRTS"
    using dirts_okD(3) [OF assms] by simp
  ultimately show ?thesis
    by (simp add: reduce_dirts_def dirts_ok_def damage_def all_within_def case_prod_unfold)
qed

section \<open>Marking and grabbing\<close>

definition shown_part :: "evdi_painter \<Rightarrow> drm_clip_rect \<Rightarrow> (nat \<times> nat) set" where
  "shown_part p r =
     (case scanout_fb p of None \<Rightarrow> {} | Some fb \<Rightarrow> pixels (normalise_rect r) \<inter> frame_of fb)"

lemma MAX_DIRTS_gt: "0 < int MAX_DIRTS" "1 < MAX_DIRTS"
  by (simp_all add: MAX_DIRTS_def)

lemma sanitize_upright: "within 65535 65535 (evdi_framebuffer_sanitize_rect fb r)"
proof -
  have "upright (evdi_framebuffer_sanitize_rect fb r)"
    using sanitize_within [of fb r] unfolding upright_def within_def by blast
  then show ?thesis by (simp only: within_u16)
qed

text \<open>Room is made before the new rectangle is stored, and no damage goes with it.\<close>

definition make_room :: "evdi_painter \<Rightarrow> evdi_painter" where
  "make_room p =
     (let p1 = (if num_dirts p = int MAX_DIRTS then reduce_dirts merge_dirty_rects p else p)
      in if num_dirts p1 = int MAX_DIRTS then reduce_dirts collapse_dirty_rects p1 else p1)"

lemma make_room_ok:
  assumes "dirts_ok p"
  shows "dirts_ok (make_room p)" "damage p \<subseteq> damage (make_room p)"
    "num_dirts (make_room p) < int MAX_DIRTS" "num_dirts (make_room p) \<le> num_dirts p"
    "0 < num_dirts p \<Longrightarrow> 0 < num_dirts (make_room p)"
proof -
  let ?p1 = "if num_dirts p = int MAX_DIRTS then reduce_dirts merge_dirty_rects p else p"
  have 1: "dirts_ok ?p1" "damage p \<subseteq> damage ?p1" "num_dirts ?p1 \<le> num_dirts p"
    "0 < num_dirts p \<Longrightarrow> 0 < num_dirts ?p1"
    using assms merge_dirts_contract [OF assms] merge.reduce_dirts_contract [OF assms] by auto
  show "dirts_ok (make_room p)" "damage p \<subseteq> damage (make_room p)" "num_dirts (make_room p) \<le> num_dirts p"
    "0 < num_dirts p \<Longrightarrow> 0 < num_dirts (make_room p)"
    using 1 collapse.reduce_dirts_contract [OF 1(1)] MAX_DIRTS_gt
    by (force simp: make_room_def Let_def)+
  show "num_dirts (make_room p) < int MAX_DIRTS"
    using dirts_ok_def [of ?p1] 1(1) MAX_DIRTS_gt unfolding make_room_def Let_def
    by (simp add: order.strict_iff_order)
qed

lemma make_room_scanout: "scanout_fb (make_room p) = scanout_fb p"
  by (simp add: make_room_def Let_def)

lemma mark_dirty_eq:
  "evdi_painter_mark_dirty r p =
     (case scanout_fb p of None \<Rightarrow> p
      | Some fb \<Rightarrow> (make_room p)\<lparr>
          dirty_rects := (dirty_rects (make_room p))[nat (num_dirts (make_room p)) :=
            evdi_framebuffer_sanitize_rect fb r],
          num_dirts := num_dirts (make_room p) + 1\<rparr>)"
  by (simp add: evdi_painter_mark_dirty_def make_room_def Let_def split: option.splits)

lemma mark_dirty_contract:
  assumes "dirts_ok p"
  shows "dirts_ok (evdi_painter_mark_dirty r p)"
    and "damage p \<union> shown_part p r \<subseteq> damage (evdi_painter_mark_dirty r p)"
proof -
  have "dirts_ok (evdi_painter_mark_dirty r p) \<and>
      damage p \<union> shown_part p r \<subseteq> damage (evdi_painter_mark_dirty r p)"
  proof (cases "scanout_fb p")
    case None
    then show ?thesis using assms by (simp add: evdi_painter_mark_dirty_def shown_part_def)
  next
    case (Some fb)
    note room = make_room_ok [OF assms]
    note d = dirts_okD [OF room(1)]
    let ?r = "evdi_framebuffer_sanitize_rect fb r" and ?q = "make_room p"
    have lt: "nat (num_dirts ?q) < length (dirty_rects ?q)" using room(3) d by simp
    have s: "nat (num_dirts ?q + 1) = nat (num_dirts ?q) + 1" using d(1) by simp
    have "damage (evdi_painter_mark_dirty r p) = damage ?q \<union> pixels ?r"
      using covered_store [OF lt, of ?r] Some by (simp add: mark_dirty_eq damage_def s)
    moreover have "dirts_ok (evdi_painter_mark_dirty r p)"
      using all_within_store [OF lt d(5) sanitize_upright [of fb r]] Some d room(3)
      by (simp add: mark_dirty_eq dirts_ok_def s)
    ultimately show ?thesis
      using room(2) Some sanitize_pixels [of fb r] by (auto simp: shown_part_def)
  qed
  then show "dirts_ok (evdi_painter_mark_dirty r p)"
    and "damage p \<union> shown_part p r \<subseteq> damage (evdi_painter_mark_dirty r p)" by simp_all
qed

lemma damage_of_take:
  assumes "n \<le> length rects"
  shows "damage_of (take n rects) = covered rects n"
  unfolding damage_of_def covered_def nth_image [OF assms, symmetric] by (simp add: atLeast0LessThan)

text \<open>The array as the grab leaves it, before it takes the rectangles.\<close>

definition prepared :: "drm_evdi_grabpix \<Rightarrow> evdi_painter \<Rightarrow> evdi_painter" where
  "prepared cmd p =
     (let p1 = reduce_dirts merge_dirty_rects p
      in if num_rects cmd < num_dirts p1 then reduce_dirts collapse_dirty_rects p1 else p1)"

lemma prepared_ok:
  assumes "dirts_ok p" and "1 \<le> num_rects cmd"
  shows "dirts_ok (prepared cmd p)" "damage p \<subseteq> damage (prepared cmd p)"
    "num_dirts (prepared cmd p) \<le> num_rects cmd" "num_dirts (prepared cmd p) \<le> num_dirts p"
proof -
  let ?p1 = "reduce_dirts merge_dirty_rects p"
  note m = merge_dirts_contract [OF assms(1)]
  have c: "dirts_ok (reduce_dirts collapse_dirty_rects ?p1) \<and>
      damage p \<subseteq> damage (reduce_dirts collapse_dirty_rects ?p1) \<and> 1 \<le> num_dirts ?p1"
    if "num_rects cmd < num_dirts ?p1"
    using m collapse.reduce_dirts_contract [of ?p1] assms(2) that by (meson le_less_trans less_imp_le
        less_le_trans subset_trans zero_less_one)
  show "dirts_ok (prepared cmd p)" "damage p \<subseteq> damage (prepared cmd p)"
    "num_dirts (prepared cmd p) \<le> num_rects cmd" "num_dirts (prepared cmd p) \<le> num_dirts p"
    using m c assms(2) by (simp_all add: prepared_def Let_def)
qed

lemma prepared_pos:
  assumes "dirts_ok p" and "0 < num_dirts p"
  shows "0 < num_dirts (prepared cmd p)"
  using merge.reduce_dirts_contract [OF assms] by (simp add: prepared_def Let_def)

lemma prepared_scanout: "scanout_fb (prepared cmd p) = scanout_fb p" "crtc (prepared cmd p) = crtc p"
  "vblank (prepared cmd p) = vblank p"
  by (simp_all add: prepared_def Let_def)

lemma grabpix_take_eq:
  "grabpix_take cmd p =
     (if num_dirts p < 0 then (Inl EAGAIN, cmd, p, [])
      else case scanout_fb p of
          None \<Rightarrow> (Inl EAGAIN, cmd\<lparr>num_rects := num_dirts (prepared cmd p)\<rparr>, prepared cmd p, [])
        | Some efb \<Rightarrow>
            (Inr \<lparr>g_rects = take (nat (num_dirts (prepared cmd p))) (dirty_rects (prepared cmd p)),
                  g_fb = efb, g_crtc = crtc p, g_vblank = vblank p\<rparr>,
             cmd\<lparr>num_rects := num_dirts (prepared cmd p)\<rparr>,
             (prepared cmd p)\<lparr>num_dirts := 0, crtc := None, vblank := None\<rparr>, [FbGet (fb_id efb)]))"
  by (simp add: grabpix_take_def prepared_def Let_def split: option.splits)

lemma grabpix_take_contract:
  assumes "dirts_ok p" and "1 \<le> num_rects cmd" and "grabpix_take cmd p = (Inr g, cmd', p', cs)"
  shows "damage p \<subseteq> damage_of (g_rects g)" "\<forall>r\<in>set (g_rects g). upright r"
    "length (g_rects g) \<le> nat (num_rects cmd)" "length (g_rects g) \<le> MAX_DIRTS"
    "num_rects cmd' = int (length (g_rects g))" "dirts_ok p'" "damage p' = {}"
    "scanout_fb p = Some (g_fb g)"
proof -
  note pr = prepared_ok [OF assms(1,2)]
  note d = dirts_okD [OF pr(1)]
  let ?q = "prepared cmd p"
  have n: "\<not> num_dirts p < 0" using dirts_okD(1) [OF assms(1)] by simp
  have g: "g_rects g = take (nat (num_dirts ?q)) (dirty_rects ?q)" and s: "scanout_fb p = Some (g_fb g)"
    and c: "cmd' = cmd\<lparr>num_rects := num_dirts ?q\<rparr>"
    and p': "p' = ?q\<lparr>num_dirts := 0, crtc := None, vblank := None\<rparr>"
    using assms(3) n by (auto simp: grabpix_take_eq split: option.splits)
  show "damage p \<subseteq> damage_of (g_rects g)"
    using pr(2) unfolding g damage_of_take [OF d(2)] damage_def by simp
  show "\<forall>r\<in>set (g_rects g). upright r"
    using d(5,2) unfolding g by (auto simp: all_within_def in_set_conv_nth within_u16)
  show "length (g_rects g) \<le> nat (num_rects cmd)" "length (g_rects g) \<le> MAX_DIRTS"
    "num_rects cmd' = int (length (g_rects g))"
    using g c d(1,2,4) pr(3) by simp_all
  show "dirts_ok p'" "damage p' = {}"
    using d unfolding p' by (simp_all add: dirts_ok_def damage_def all_within_def)
  show "scanout_fb p = Some (g_fb g)" by (rule s)
qed

lemma grabpix_take_error:
  assumes "dirts_ok p" and "1 \<le> num_rects cmd" and "grabpix_take cmd p = (Inl e, cmd', p', cs)"
  shows "e = EAGAIN \<and> cs = [] \<and> scanout_fb p = None \<and> dirts_ok p' \<and> damage p \<subseteq> damage p' \<and>
    num_dirts p' \<le> num_rects cmd"
  using assms(3) prepared_ok [OF assms(1,2)] dirts_okD(1) [OF assms(1)]
  by (auto simp: grabpix_take_eq split: option.splits)

section \<open>No damage is lost\<close>

text \<open>
  The contract between a store of damage and its two clients. \<open>mark\<close> adds the visible part of a
  rectangle; \<open>grab\<close> delivers pixels and keeps the rest. Whatever the order of the operations,
  every marked pixel has been delivered or is still in the store.
\<close>

locale damage_store =
  fixes good :: "'s \<Rightarrow> bool" and pending :: "'s \<Rightarrow> 'p set"
    and mark :: "'r \<Rightarrow> 's \<Rightarrow> 's" and visible :: "'s \<Rightarrow> 'r \<Rightarrow> 'p set"
    and grab :: "'g \<Rightarrow> 's \<Rightarrow> 's" and delivered :: "'g \<Rightarrow> 's \<Rightarrow> 'p set"
  assumes mark_good: "good s \<Longrightarrow> good (mark r s)"
    and mark_pending: "good s \<Longrightarrow> pending s \<union> visible s r \<subseteq> pending (mark r s)"
    and grab_good: "good s \<Longrightarrow> good (grab g s)"
    and grab_pending: "good s \<Longrightarrow> pending s \<subseteq> delivered g s \<union> pending (grab g s)"
begin

fun run_marks :: "('r + 'g) list \<Rightarrow> 's \<Rightarrow> 'p set \<times> 'p set \<times> 's" where
  "run_marks [] s = ({}, {}, s)"
| "run_marks (Inl r # xs) s =
     (case run_marks xs (mark r s) of (m, d, s') \<Rightarrow> (visible s r \<union> m, d, s'))"
| "run_marks (Inr g # xs) s =
     (case run_marks xs (grab g s) of (m, d, s') \<Rightarrow> (m, delivered g s \<union> d, s'))"

lemma run_marks_no_loss:
  "good s \<Longrightarrow> run_marks xs s = (marked, del, s') \<Longrightarrow>
     good s' \<and> pending s \<union> marked \<subseteq> del \<union> pending s'"
proof (induction xs s arbitrary: marked del rule: run_marks.induct)
  case (1 s)
  then show ?case by simp
next
  case (2 r xs s)
  obtain m d t where mdt: "run_marks xs (mark r s) = (m, d, t)" by (metis prod_cases3)
  then show ?case using 2 mark_good [of s r] mark_pending [of s r] by auto
next
  case (3 g xs s)
  obtain m d t where mdt: "run_marks xs (grab g s) = (m, d, t)" by (metis prod_cases3)
  then show ?case using 3 grab_good [of s g] grab_pending [of s g] by auto
qed

end

text \<open>
  The painter as a store of damage. A grab is the locked section of the ioctl for a command with
  room for a rectangle; it delivers the pixels of the rectangles it takes.
\<close>

definition grab_step :: "drm_evdi_grabpix \<Rightarrow> evdi_painter \<Rightarrow> evdi_painter" where
  "grab_step cmd p =
     (if num_rects cmd < 1 then p else case grabpix_take cmd p of (_, _, p', _) \<Rightarrow> p')"

definition grab_delivers :: "drm_evdi_grabpix \<Rightarrow> evdi_painter \<Rightarrow> (nat \<times> nat) set" where
  "grab_delivers cmd p =
     (if num_rects cmd < 1 then {}
      else case grabpix_take cmd p of (Inl _, _) \<Rightarrow> {} | (Inr g, _) \<Rightarrow> damage_of (g_rects g))"

lemma grab_step_contract:
  assumes "dirts_ok p"
  shows "dirts_ok (grab_step cmd p) \<and> damage p \<subseteq> grab_delivers cmd p \<union> damage (grab_step cmd p)"
proof (cases "num_rects cmd < 1")
  case True
  then show ?thesis using assms by (simp add: grab_step_def)
next
  case False
  then have r: "1 \<le> num_rects cmd" by simp
  obtain res cmd' p' cs where t: "grabpix_take cmd p = (res, cmd', p', cs)" by (metis prod_cases4)
  show ?thesis
  proof (cases res)
    case (Inl e)
    then show ?thesis
      using grabpix_take_error [OF assms r t [unfolded Inl]] False t
      by (simp add: grab_step_def grab_delivers_def)
  next
    case (Inr g)
    then show ?thesis
      using grabpix_take_contract [OF assms r t [unfolded Inr]] False t
      by (simp add: grab_step_def grab_delivers_def)
  qed
qed

interpretation dirts: damage_store dirts_ok damage evdi_painter_mark_dirty shown_part grab_step grab_delivers
  by unfold_locales
    (use mark_dirty_contract grab_step_contract in \<open>blast+\<close>)

section \<open>Properties\<close>

text \<open>
  Marking a rectangle never overflows the sixteen-entry array, never loses a pixel that was
  damaged before, and makes every pixel of the rectangle that is on screen damaged.
\<close>

theorem mark_dirty_keeps_damage:
  assumes "dirts_ok p" and "scanout_fb p = Some fb"
  shows "dirts_ok (evdi_painter_mark_dirty r p) \<and>
    damage p \<union> (pixels (normalise_rect r) \<inter> frame_of fb) \<subseteq> damage (evdi_painter_mark_dirty r p)"
  using mark_dirty_contract [OF assms(1), of r] assms(2) by (simp add: shown_part_def)

definition sample_painter :: evdi_painter where
  "sample_painter = fresh_painter\<lparr>scanout_fb := Some sample_fb, is_connected := True, drm_filp := Some 3\<rparr>"

lemma sample_painter_ok: "dirts_ok sample_painter" "scanout_fb sample_painter = Some sample_fb"
  using fresh_painter_dirts by (simp_all add: sample_painter_def dirts_ok_def)

theorem mark_dirty_keeps_damage_witness:
  "(1, 1) \<in> damage (evdi_painter_mark_dirty \<lparr>x1 = 7, y1 = 0, x2 = 1, y2 = 9\<rparr> sample_painter)"
proof -
  have "(1, 1) \<in> pixels (normalise_rect \<lparr>x1 = 7, y1 = 0, x2 = 1, y2 = 9\<rparr>) \<inter> frame_of sample_fb"
    by (simp add: mem_pixels frame_of_def sample_fb_def)
  then show ?thesis
    using mark_dirty_keeps_damage [OF sample_painter_ok, of "\<lparr>x1 = 7, y1 = 0, x2 = 1, y2 = 9\<rparr>"] by blast
qed

text \<open>
  The grab takes rectangles that cover all the damage, no more of them than the client has
  room for or the array holds, tells the client how many, and leaves no damage behind.
\<close>

theorem grab_takes_all_damage:
  assumes "dirts_ok p" and "1 \<le> num_rects cmd" and "grabpix_take cmd p = (Inr g, cmd', p', cs)"
  shows "damage p \<subseteq> damage_of (g_rects g) \<and> int (length (g_rects g)) \<le> num_rects cmd \<and>
    length (g_rects g) \<le> MAX_DIRTS \<and> num_rects cmd' = int (length (g_rects g)) \<and>
    damage p' = {} \<and> dirts_ok p' \<and> scanout_fb p = Some (g_fb g)"
  using grabpix_take_contract [OF assms] assms(2) by linarith

definition sample_grab :: drm_evdi_grabpix where
  "sample_grab = \<lparr>mode = EVDI_GRABPIX_MODE_DIRTY, buf_width = 2, buf_height = 2,
     buf_byte_stride = 8, buffer = 0x1000, num_rects = 16, rects_ptr = 0x2000\<rparr>"

theorem grab_takes_all_damage_witness:
  "\<exists>g cmd' p' cs. grabpix_take sample_grab sample_painter = (Inr g, cmd', p', cs) \<and>
     damage p' = {} \<and> length (g_rects g) \<le> MAX_DIRTS"
proof -
  obtain g cmd' p' cs where t: "grabpix_take sample_grab sample_painter = (Inr g, cmd', p', cs)"
    by (auto simp: grabpix_take_eq sample_painter_def fresh_painter_def)
  then show ?thesis
    using grab_takes_all_damage [OF sample_painter_ok(1) _ t] by (simp add: sample_grab_def)
qed




definition sample_env :: grab_env where
  "sample_env = \<lparr>ge_format = (\<lambda>_. Some 4), ge_ctu = user_store,
     ge_vmap = \<lparr>env_xe_vmap = Inl EINVAL, env_dma_vmap = Inl EINVAL, env_get_pages = Inl ENOMEM,
       env_vmap = None\<rparr>, ge_begin = Inr (), ge_vmalloc = True\<rparr>"

definition sample_device :: evdi_device where
  "sample_device = \<lparr>painter = Some sample_painter, cursor = zero_cursor, cursor_events_enabled = True,
     pixel_area_limit = 0, pixel_per_second_limit = 0, i2c_adapter = False,
     gems = (\<lambda>_. sample_object), calls = []\<rparr>"

lemma sample_grab_vmap: "grab_vmap env a (\<lambda>_. sample_object) = (Some (replicate 16 0xff), \<lambda>_. sample_object)"
  by (simp add: grab_vmap_def sample_object_def)

lemma sample_geometry: "geometry_ok (replicate 16 0xff) sample_fb"
  by (simp add: geometry_ok_def sample_fb_def)

lemma sample_sane: "grab_sane sample_env sample_fb zero_cursor (\<lambda>_. sample_object)"
proof -
  have o: "fb_obj sample_fb = Some 0" "is_from_xe sample_fb = False" by (simp_all add: sample_fb_def)
  show ?thesis
    unfolding grab_sane_def o option.case sample_grab_vmap prod.case
    by (simp add: sample_geometry cursor_sane_def zero_cursor_def)
qed


text \<open>
  C15: when the copy of the damaged rectangles succeeds, every damaged pixel is on screen and the
  client's buffer holds the framebuffer's four bytes of it; and whether it succeeds or not, no
  byte of user memory changes but those of on-screen damaged pixels.
\<close>

theorem grab_copies_damage:
  assumes "copy_setup ctu vm fb s" and "\<forall>r\<in>set rects. upright r" and "\<not> is_from_xe fb"
  shows "\<exists>ret mem'. copy_primary_pixels vok ctu vm fb buf s rects (fb_width fb) (fb_height fb) mem
      = Ret (ret, mem') \<and>
    (\<forall>b. b \<notin> pixel_bytes buf (unat s) (damage_of rects \<inter> frame_of fb) \<longrightarrow> mem' b = mem b) \<and>
    (ret = Inr () \<longrightarrow> damage_of rects \<subseteq> frame_of fb \<and>
       (\<forall>p\<in>damage_of rects. shows_pixel vm fb buf (unat s) mem' p))"
  using copy_rects_result [OF assms(1,2), of buf mem] assms(3) by (simp add: copy_primary_pixels_def)

theorem grab_copies_damage_witness:
  "\<exists>ret mem'. copy_primary_pixels True user_store (replicate 16 0xff) sample_fb 0x1000 8
      [\<lparr>x1 = 0, y1 = 0, x2 = 2, y2 = 1\<rparr>] 2 2 (\<lambda>_. 0) = Ret (ret, mem') \<and>
    (ret = Inr () \<longrightarrow> shows_pixel (replicate 16 0xff) sample_fb 0x1000 8 mem' (1, 0))"
proof -
  let ?rs = "[\<lparr>x1 = 0, y1 = 0, x2 = 2, y2 = 1\<rparr>]"
  have "copy_setup user_store (replicate 16 0xff) sample_fb 8"
    unfolding copy_setup_def using user_store_ok sample_geometry by (simp add: sample_fb_def)
  moreover have "(1, 0) \<in> damage_of ?rs" by (simp add: damage_of_def mem_pixels)
  moreover have "\<forall>r\<in>set ?rs. upright r" "\<not> is_from_xe sample_fb" "fb_width sample_fb = 2"
    "fb_height sample_fb = 2"
    by (simp_all add: upright_def sample_fb_def)
  ultimately show ?thesis
    using grab_copies_damage [of user_store "replicate 16 0xff" sample_fb 8 ?rs True "0x1000" "\<lambda>_. 0"]
    by fastforce
qed

text \<open>
  C37: the line-by-line copy made for buffers of the xe driver does exactly what the copy of one
  rectangle that is the whole frame does, so both paths show the client the same pixels.
\<close>

theorem xe_copy_is_full_frame:
  assumes "copy_setup ctu vm fb s" and "unat (fb_width fb) < 65536" and "unat (fb_height fb) < 65536"
    and "is_from_xe fb"
  shows "copy_primary_pixels True ctu vm fb buf s rects (fb_width fb) (fb_height fb) mem
    = copy_primary_pixels True ctu vm (fb\<lparr>is_from_xe := False\<rparr>) buf s [full_frame fb]
        (fb_width fb) (fb_height fb) mem"
proof -
  have "copy_one_rect ctu vm (fb\<lparr>is_from_xe := False\<rparr>) = copy_one_rect ctu vm fb"
    by (intro ext) (simp add: copy_one_rect_def Let_def)
  moreover have "compose_loop f [r] m = f r m" for f :: "drm_clip_rect \<Rightarrow> umem \<Rightarrow> _" and r m
    by (simp split: outcome.splits sum.splits)
  ultimately show ?thesis
    using copy_xe_is_full_frame [OF assms(1-3), of buf mem] assms(4)
    by (simp add: copy_primary_pixels_def)
qed

theorem xe_copy_is_full_frame_witness:
  "copy_primary_pixels True user_fault (replicate 16 0xff) (sample_fb\<lparr>is_from_xe := True\<rparr>) 0x1000 8 [] 2 2
      (\<lambda>_. 0)
    = copy_primary_pixels True user_fault (replicate 16 0xff) sample_fb 0x1000 8
        [\<lparr>x1 = 0, y1 = 0, x2 = 2, y2 = 2\<rparr>] 2 2 (\<lambda>_. 0)"
proof -
  let ?fb = "sample_fb\<lparr>is_from_xe := True\<rparr>"
  have "copy_setup user_fault (replicate 16 0xff) ?fb 8"
    unfolding copy_setup_def using user_fault_ok by (simp add: sample_fb_def geometry_ok_def)
  then show ?thesis
    using xe_copy_is_full_frame [of user_fault "replicate 16 0xff" ?fb 8 "0x1000" "[]" "\<lambda>_. 0"]
    by (simp add: sample_fb_def full_frame_def)
qed

lemma copy_rows_oops: "0 < n \<Longrightarrow> kread vm src span = None \<Longrightarrow>
    copy_rows ctu vm span pitch ds n dst src mem = Oops"
  by (cases n) simp_all

definition far_command :: drm_mode_fb_cmd2 where
  "far_command = \<lparr>cmd_width = 64, cmd_height = 64, cmd_pixel_format = 0, cmd_handle0 = 1,
     cmd_pitch0 = 256, cmd_offset0 = 0x80000000\<rparr>"

text \<open>
  A framebuffer that starts two gigabytes into its object passes the checks of its creation,
  but the copy's signed offset is negative there and the read is outside the mapping, however
  large it is.
\<close>

theorem far_framebuffer_read_outside:
  "\<exists>fb. evdi_fb_user_fb_create (\<lambda>_. Some 4) (Some (0, 0x80004000, None)) True (Inr 1) far_command
       = (Inr fb, [GemGet 0]) \<and>
     copy_primary_pixels vok ctu vm fb buf s [full_frame fb] (fb_width fb) (fb_height fb) mem = Oops"
proof -
  let ?fb = "\<lparr>fb_id = 1, fb_width = 64, fb_height = 64, fb_pitch = 256, fb_offset = 0x80000000,
     fb_format = 0, fb_cpp = 4, fb_obj = Some 0, active = False, is_from_xe = False\<rparr>"
  have sz: "user_fb_size far_command = 0x80004000"
    by (simp add: user_fb_size_def far_command_def ALIGN_PAGE_def)
  have bpp: "evdi_fb_get_bpp (\<lambda>_. Some 4) 0 = 32" by (simp add: evdi_fb_get_bpp_def)
  have c: "evdi_fb_user_fb_create (\<lambda>_. Some 4) (Some (0, 0x80004000, None)) True (Inr 1) far_command
      = (Inr ?fb, [GemGet 0])"
    by (simp add: evdi_fb_user_fb_create_def sz bpp evdi_framebuffer_init_def zero_framebuffer_def
        is_xe_gem_def) (simp add: far_command_def bpp)
  have ff: "full_frame ?fb = \<lparr>x1 = 0, y1 = 0, x2 = 64, y2 = 64\<rparr>" by (simp add: full_frame_def)
  have neg: "sint (0x80000000 :: s32) = - 2147483648" by (simp add: sint_uint signed_take_bit_eq_if_negative)
  have "copy_one_rect ctu vm ?fb buf s 64 64 (full_frame ?fb) mem = Oops"
    unfolding ff by (simp add: copy_one_rect_def Let_def word_sless_alt neg copy_rows_oops kread_def)
  then show ?thesis using c by (simp add: copy_primary_pixels_def)
qed

end
