(* ===== verification/Evdi_Ddcci.thy ===== *)
theory Evdi_Ddcci
  imports Evdi_Painter
begin

text \<open>
  DDC/CI: the I2C adapter of \<open>module/evdi_i2c.c\<close>, which hands messages to the painter, and the
  exchange of a message for the client's response in \<open>module/evdi_painter.c\<close>. The driver sends
  the message as an event, waits up to 50 ms for the response and copies it into the message.
  While it waits any other operation may run: \<open>during\<close> is what they make of the painter.
\<close>

section \<open>Messages and responses\<close>

text \<open>\<open>struct i2c_msg\<close>; the I2C core gives \<open>msg_buf\<close> the \<open>msg_len\<close> bytes it announces.\<close>

record i2c_msg =
  msg_addr :: u16
  msg_flags :: u16
  msg_len :: u16
  msg_buf :: "u8 list"

definition DDCCI_BUFFER_SIZE :: nat where
  "DDCCI_BUFFER_SIZE = 64"

definition I2C_ADDRESS_DDCCI :: u16 where
  "I2C_ADDRESS_DDCCI = 0x37"

text \<open>The event has a buffer of 64 zeroed bytes; longer messages are cut.\<close>

definition ddcci_length :: "i2c_msg \<Rightarrow> nat" where
  "ddcci_length msg = min (unat (msg_len msg)) DDCCI_BUFFER_SIZE"

definition create_ddcci_data_event :: "bool \<Rightarrow> i2c_msg \<Rightarrow> drm_event option" where
  "create_ddcci_data_event ok msg =
     (if \<not> ok then None
      else Some (DdcciData
        (take (ddcci_length msg) (msg_buf msg) @ replicate (DDCCI_BUFFER_SIZE - ddcci_length msg) 0)
        (of_nat (ddcci_length msg)) (msg_flags msg) (msg_addr msg)))"

text \<open>The first half of \<open>evdi_painter_ddcci_data\<close>: the completion is reset, the event is sent.\<close>

definition ddcci_send ::
  "reserve \<Rightarrow> bool \<Rightarrow> i2c_msg \<Rightarrow> evdi_painter \<Rightarrow> evdi_painter \<times> drm_call list" where
  "ddcci_send reserve ok msg p =
     evdi_painter_send_event reserve (create_ddcci_data_event ok msg)
       (p\<lparr>ddcci_response_received := 0\<rparr>)"

text \<open>
  The second half: the wait succeeds when the completion was signalled and no signal interrupted
  it. A response of another length than the message's is not used.
\<close>

definition ddcci_receive :: "bool \<Rightarrow> i2c_msg \<Rightarrow> evdi_painter \<Rightarrow> i2c_msg \<times> evdi_painter" where
  "ddcci_receive interrupted msg p =
     (if 0 < ddcci_response_received p \<and> \<not> interrupted then
        let p1 = p\<lparr>ddcci_response_received := ddcci_response_received p - 1\<rparr>
        in if of_nat (ddcci_length msg) \<noteq> ddcci_buffer_length p1 then (msg, p1)
           else case ddcci_buffer p1 of
               None \<Rightarrow> (msg, p1)
             | Some buf \<Rightarrow>
                 (msg\<lparr>msg_buf := take (unat (ddcci_buffer_length p1)) buf @
                    drop (unat (ddcci_buffer_length p1)) (msg_buf msg)\<rparr>, p1)
      else (msg, p))"

definition evdi_painter_ddcci_data ::
  "reserve \<Rightarrow> bool \<Rightarrow> (evdi_painter \<Rightarrow> evdi_painter) \<Rightarrow> bool \<Rightarrow> i2c_msg \<Rightarrow> evdi_painter \<Rightarrow>
     i2c_msg \<times> evdi_painter \<times> drm_call list" where
  "evdi_painter_ddcci_data reserve ok during interrupted msg p =
     (let (p1, cs) = ddcci_send reserve ok msg p;
          (msg1, p2) = ddcci_receive interrupted msg (during p1)
      in (msg1, p2, cs))"

definition evdi_painter_i2c_data_notify ::
  "reserve \<Rightarrow> bool \<Rightarrow> (evdi_painter \<Rightarrow> evdi_painter) \<Rightarrow> bool \<Rightarrow> i2c_msg option \<Rightarrow> evdi_painter \<Rightarrow>
     bool \<times> i2c_msg option \<times> evdi_painter \<times> drm_call list" where
  "evdi_painter_i2c_data_notify reserve ok during interrupted msg p =
     (if \<not> is_connected p then (False, msg, p, [])
      else case msg of
          None \<Rightarrow> (False, msg, p, [])
        | Some m \<Rightarrow>
            if msg_addr m \<noteq> I2C_ADDRESS_DDCCI then (False, msg, p, [])
            else let (m1, p1, cs) = evdi_painter_ddcci_data reserve ok during interrupted m p
                 in (True, Some m1, p1, cs))"

text \<open>The adapter's transfer: the number of messages taken; \<open>env\<close> gives the answers for each.\<close>

fun dli2c_access_master ::
  "(nat \<Rightarrow> reserve \<times> bool \<times> (evdi_painter \<Rightarrow> evdi_painter) \<times> bool) \<Rightarrow> nat \<Rightarrow> i2c_msg list \<Rightarrow>
     evdi_painter \<Rightarrow> nat \<times> i2c_msg list \<times> evdi_painter \<times> drm_call list" where
  "dli2c_access_master env i [] p = (0, [], p, [])"
| "dli2c_access_master env i (msg # msgs) p =
     (case env i of (reserve, ok, during, interrupted) \<Rightarrow>
      let (taken, m1, p1, cs) = evdi_painter_i2c_data_notify reserve ok during interrupted (Some msg) p;
          (result, ms, p2, ds) = dli2c_access_master env (i + 1) msgs p1
      in ((if taken then result + 1 else result), the m1 # ms, p2, cs @ ds))"

record drm_evdi_ddcci_response =
  resp_buffer :: u64
  resp_buffer_length :: u32
  resp_result :: u8

definition evdi_painter_ddcci_response_ioctl ::
  "copy_from_user \<Rightarrow> bool \<Rightarrow> umem \<Rightarrow> drm_evdi_ddcci_response \<Rightarrow> evdi_painter \<Rightarrow>
     unit result \<times> evdi_painter" where
  "evdi_painter_ddcci_response_ioctl cfu ok mem cmd p =
     (let p1 = p\<lparr>ddcci_buffer_length := min (resp_buffer_length cmd) 64\<rparr>
      in if \<not> ok then (Inl ENOMEM, p1\<lparr>ddcci_buffer := None\<rparr>)
         else case cfu mem (resp_buffer cmd) (unat (ddcci_buffer_length p1)) of
             None \<Rightarrow> (Inl EFAULT, p1\<lparr>ddcci_buffer := None\<rparr>)
           | Some bytes \<Rightarrow>
               (Inr (), p1\<lparr>ddcci_buffer := Some bytes,
                           ddcci_response_received := ddcci_response_received p1 + 1\<rparr>))"

section \<open>Lengths\<close>

lemma ddcci_length_le: "ddcci_length msg \<le> 64" "ddcci_length msg \<le> unat (msg_len msg)"
  by (simp_all add: ddcci_length_def DDCCI_BUFFER_SIZE_def)

definition msg_ok :: "i2c_msg \<Rightarrow> bool" where
  "msg_ok msg \<longleftrightarrow> length (msg_buf msg) = unat (msg_len msg)"

text \<open>The buffer kept for a response has the length the painter remembers, at most 64 bytes.\<close>

definition ddcci_ok :: "evdi_painter \<Rightarrow> bool" where
  "ddcci_ok p \<longleftrightarrow> unat (ddcci_buffer_length p) \<le> DDCCI_BUFFER_SIZE \<and>
     (\<forall>buf. ddcci_buffer p = Some buf \<longrightarrow> length buf = unat (ddcci_buffer_length p))"

lemma ddcci_response_ok [inv_intros]:
  assumes "copy_from_user_ok cfu"
    and "evdi_painter_ddcci_response_ioctl cfu ok mem cmd p = (r, p')"
  shows "ddcci_ok p'"
proof -
  have m: "unat (min (resp_buffer_length cmd) 64) \<le> 64" by (simp add: word_bridge)
  show ?thesis
    using assms(2) m copy_from_user_length [OF assms(1)]
    by (auto simp: evdi_painter_ddcci_response_ioctl_def Let_def ddcci_ok_def DDCCI_BUFFER_SIZE_def
        split: if_splits option.splits)
qed

lemma unat_ddcci_length: "unat (of_nat (ddcci_length msg) :: u32) = ddcci_length msg"
  by (rule unat_of_nat_32) (use ddcci_length_le(1) [of msg] in simp)

lemma ddcci_receive_cases:
  assumes "ddcci_ok p" and "msg_ok msg" and "ddcci_receive interrupted msg p = (msg', p')"
  shows "msg_ok msg' \<and> (msg' = msg \<or>
    (\<exists>buf. ddcci_buffer p = Some buf \<and> length buf = ddcci_length msg \<and>
       msg' = msg\<lparr>msg_buf := buf @ drop (length buf) (msg_buf msg)\<rparr>))"
proof (cases "0 < ddcci_response_received p \<and> \<not> interrupted \<and>
    of_nat (ddcci_length msg) = ddcci_buffer_length p")
  case True
  then have l: "unat (ddcci_buffer_length p) = ddcci_length msg"
    using unat_ddcci_length [of msg] by simp
  show ?thesis
  proof (cases "ddcci_buffer p")
    case None
    then show ?thesis using assms(2,3) True by (auto simp: ddcci_receive_def)
  next
    case (Some buf)
    then have "length buf = ddcci_length msg" using assms(1) l by (simp add: ddcci_ok_def)
    then show ?thesis
      using assms(2,3) True Some l ddcci_length_le(2) [of msg]
      by (auto simp: ddcci_receive_def msg_ok_def)
  qed
next
  case False
  then show ?thesis using assms(2,3) by (auto simp: ddcci_receive_def Let_def split: if_splits)
qed

text \<open>
  The exchange of a DDC/CI message keeps the message's length; the message comes back
  unchanged, or its first bytes, as many as were sent and at most 64, are the client's response
  and the others are unchanged. No byte of another response length is ever copied.
\<close>

theorem ddcci_exchange:
  assumes "msg_ok msg" and "ddcci_ok (during (fst (ddcci_send reserve ok msg p)))"
    and "evdi_painter_ddcci_data reserve ok during interrupted msg p = (msg', p', cs)"
  shows "length (msg_buf msg') = length (msg_buf msg) \<and>
    drop 64 (msg_buf msg') = drop 64 (msg_buf msg) \<and>
    (msg_buf msg' \<noteq> msg_buf msg \<longrightarrow>
      (\<exists>buf. ddcci_buffer (during (fst (ddcci_send reserve ok msg p))) = Some buf \<and>
         length buf = ddcci_length msg \<and> take (ddcci_length msg) (msg_buf msg') = buf))"
proof -
  let ?q = "during (fst (ddcci_send reserve ok msg p))"
  have "ddcci_receive interrupted msg ?q = (msg', p')"
    using assms(3) by (simp add: evdi_painter_ddcci_data_def case_prod_unfold Let_def prod_eq_iff)
  note k = ddcci_receive_cases [OF assms(2,1) this]
  then show ?thesis
  proof (elim conjE disjE exE)
    fix buf
    assume b: "ddcci_buffer ?q = Some buf" "length buf = ddcci_length msg"
      "msg' = msg\<lparr>msg_buf := buf @ drop (length buf) (msg_buf msg)\<rparr>"
    have "length buf \<le> 64" "length buf \<le> length (msg_buf msg)"
      using ddcci_length_le [of msg] b(2) assms(1) by (simp_all add: msg_ok_def)
    then show ?thesis using b by simp
  qed simp
qed

text \<open>
  The event sent for a message carries exactly the message's first 64 bytes, zero-padded,
  with their number, its address and its flags.
\<close>

theorem ddcci_event_carries_message:
  assumes "msg_ok msg" and "create_ddcci_data_event ok msg = Some (DdcciData bytes len flags address)"
  shows "length bytes = 64 \<and> take (unat len) bytes = take 64 (msg_buf msg) \<and>
    unat len = min 64 (length (msg_buf msg)) \<and>
    (\<forall>i<64. unat len \<le> i \<longrightarrow> bytes ! i = 0) \<and> flags = msg_flags msg \<and> address = msg_addr msg"
proof -
  let ?n = "ddcci_length msg"
  have e: "bytes = take ?n (msg_buf msg) @ replicate (64 - ?n) 0" "len = of_nat ?n"
    "flags = msg_flags msg" "address = msg_addr msg"
    using assms(2) by (auto simp: create_ddcci_data_event_def DDCCI_BUFFER_SIZE_def split: if_splits)
  have n: "?n = min 64 (length (msg_buf msg))"
    using assms(1) by (simp add: ddcci_length_def DDCCI_BUFFER_SIZE_def msg_ok_def)
  have "unat len = ?n" using e(2) unat_ddcci_length by simp
  moreover have "take ?n (msg_buf msg) = take 64 (msg_buf msg)" using n by (simp add: min_def)
  moreover have "length (take 64 (msg_buf msg)) = ?n" using n by simp
  ultimately show ?thesis using e n by (auto simp: nth_append)
qed

definition sample_msg :: i2c_msg where
  "sample_msg = \<lparr>msg_addr = 0x37, msg_flags = 1, msg_len = 3, msg_buf = [1, 2, 3]\<rparr>"

theorem ddcci_event_carries_message_witness:
  "\<exists>bytes. create_ddcci_data_event True sample_msg = Some (DdcciData bytes 3 1 0x37) \<and>
     length bytes = 64 \<and> take 3 bytes = [1, 2, 3]"
proof -
  have "create_ddcci_data_event True sample_msg
      = Some (DdcciData ([1, 2, 3] @ replicate 61 0) 3 1 0x37)"
    by (simp add: create_ddcci_data_event_def ddcci_length_def DDCCI_BUFFER_SIZE_def sample_msg_def)
  moreover have "msg_ok sample_msg" by (simp add: msg_ok_def sample_msg_def)
  ultimately show ?thesis
    using ddcci_event_carries_message [of sample_msg True] by (auto simp: sample_msg_def)
qed

theorem ddcci_exchange_witness:
  "\<exists>msg' p' cs. evdi_painter_ddcci_data (\<lambda>_ _. True) True
       (\<lambda>p. p\<lparr>ddcci_buffer := Some [7, 8, 9], ddcci_buffer_length := 3, ddcci_response_received := 1\<rparr>)
       False sample_msg fresh_painter = (msg', p', cs) \<and> length (msg_buf msg') = 3"
proof -
  let ?d = "\<lambda>p. p\<lparr>ddcci_buffer := Some [7, 8, 9], ddcci_buffer_length := 3, ddcci_response_received := 1\<rparr>"
  obtain msg' p' cs where r: "evdi_painter_ddcci_data (\<lambda>_ _. True) True ?d False sample_msg fresh_painter
      = (msg', p', cs)" by (metis prod_cases3)
  have "ddcci_ok (?d q)" for q by (simp add: ddcci_ok_def DDCCI_BUFFER_SIZE_def)
  moreover have "msg_ok sample_msg" by (simp add: msg_ok_def sample_msg_def)
  ultimately show ?thesis using ddcci_exchange [OF _ _ r] r by (auto simp: sample_msg_def)
qed

text \<open>
  A response the client marks as failed (\<open>result\<close> is 0) is not ignored: its bytes are copied
  into the waiting message like those of a successful one.
\<close>

theorem failed_response_is_used:
  "\<exists>p' p''. evdi_painter_ddcci_response_ioctl user_load True mem
       \<lparr>resp_buffer = 0, resp_buffer_length = 3, resp_result = 0\<rparr> p = (Inr (), p') \<and>
     ddcci_receive False sample_msg p' = (sample_msg\<lparr>msg_buf := [mem 0, mem 1, mem 2]\<rparr>, p'')"
proof -
  have "[0..<3] = [0, 1, 2 :: nat]" by (simp add: upt_rec)
  moreover have "min (3 :: u32) 64 = 3" by (simp add: min_def)
  ultimately show ?thesis
    by (simp add: evdi_painter_ddcci_response_ioctl_def Let_def user_load_def ddcci_receive_def
        ddcci_length_def DDCCI_BUFFER_SIZE_def sample_msg_def)
qed

end
