(* ===== verification/Evdi_Modeset.thy ===== *)
theory Evdi_Modeset
  imports Evdi_Painter
begin

text \<open>
  Mode setting, \<open>module/evdi_modeset.c\<close>, with the connector's \<open>module/evdi_connector.c\<close>: what the
  driver does when the compositor commits a new state of the CRTC, of the primary plane and of
  the cursor plane, which modes the connector accepts, and how these objects are created. The
  states come from the DRM core and are arguments; so is what happens around the commit: the
  event space left, the success of allocations, the console in the foreground.
\<close>

section \<open>The environment of a commit\<close>

text \<open>\<open>me_reserve i\<close> and \<open>me_ok i\<close> are the answers to the \<open>i\<close>-th event the handler sends.\<close>

record commit_env =
  me_reserve :: "nat \<Rightarrow> reserve"
  me_ok :: "nat \<Rightarrow> bool"
  me_console :: nat
  me_vmap :: vmap_env
  me_handles :: "drm_file \<Rightarrow> (u32 \<times> nat) list"
  me_handle_create :: "u32 result"

definition dpms_notify_on :: "commit_env \<Rightarrow> nat \<Rightarrow> s32 \<Rightarrow> evdi_device \<Rightarrow> evdi_device" where
  "dpms_notify_on env i m =
     on_painter (evdi_painter_dpms_notify (me_reserve env i) (me_ok env i) (me_console env) m)"

definition mark_on :: "drm_clip_rect \<Rightarrow> evdi_device \<Rightarrow> evdi_device" where
  "mark_on r = on_painter (\<lambda>p. (evdi_painter_mark_dirty r p, []))"

definition force_modeset_on :: "evdi_device \<Rightarrow> evdi_device" where
  "force_modeset_on = on_painter (\<lambda>p. (evdi_painter_force_full_modeset p, []))"

section \<open>The CRTC\<close>

record crtc_state =
  cs_active :: bool
  cs_mode_changed :: bool
  cs_active_changed :: bool
  cs_adjusted_mode :: drm_display_mode
  cs_event :: "nat option"

text \<open>\<open>crt\<close> is the CRTC the flush is called for.\<close>

definition evdi_crtc_atomic_flush ::
  "commit_env \<Rightarrow> nat \<Rightarrow> crtc_state \<Rightarrow> evdi_device \<Rightarrow> evdi_device \<times> crtc_state" where
  "evdi_crtc_atomic_flush env crt cs evdi =
     (let full = evdi_painter_needs_full_modeset (painter evdi);
          notify_mode_changed = (cs_active cs \<and> (cs_mode_changed cs \<or> full));
          notify_dpms = (cs_active_changed cs \<or> full);
          e1 = (if notify_mode_changed
                then on_painter (evdi_painter_mode_changed_notify (me_reserve env 0) (me_ok env 0)
                       (cs_adjusted_mode cs)) evdi
                else evdi);
          e2 = (if notify_dpms
                then dpms_notify_on env 1
                       (if cs_active cs then DRM_MODE_DPMS_ON else DRM_MODE_DPMS_OFF) e1
                else e1);
          (p3, vcalls) = evdi_painter_set_vblank (Some crt) (cs_event cs) (painter e2);
          e3 = emit vcalls (e2\<lparr>painter := p3\<rparr>);
          e4 = on_painter (evdi_painter_send_update_ready_if_needed (me_reserve env 2) (me_ok env 2)) e3
      in (e4, cs\<lparr>cs_event := None\<rparr>))"

section \<open>The primary plane\<close>

record plane_state =
  ps_crtc :: "nat option"
  ps_fb :: "evdi_framebuffer option"

text \<open>
  The damage the DRM core computes from two plane states is a list of rectangles with signed
  32-bit corners; their low 16 bits go into the clip rectangle.
\<close>

record drm_rect =
  rx1 :: s32
  ry1 :: s32
  rx2 :: s32
  ry2 :: s32

definition clip_of :: "drm_rect \<Rightarrow> drm_clip_rect" where
  "clip_of r = \<lparr>x1 = ucast (rx1 r), y1 = ucast (ry1 r), x2 = ucast (rx2 r), y2 = ucast (ry2 r)\<rparr>"

definition fullscreen_rect :: "evdi_framebuffer \<Rightarrow> drm_clip_rect" where
  "fullscreen_rect fb = \<lparr>x1 = 0, y1 = 0, x2 = ucast (fb_width fb), y2 = ucast (fb_height fb)\<rparr>"

definition mark_if_clean :: "evdi_framebuffer \<Rightarrow> evdi_device \<Rightarrow> evdi_device" where
  "mark_if_clean fb evdi =
     (if evdi_painter_get_num_dirts (painter evdi) = 0 then mark_on (fullscreen_rect fb) evdi
      else evdi)"

text \<open>
  \<open>state\<close> is \<open>None\<close> when the plane has none. Without a painter the change of the scanout buffer
  takes a lock at a NULL address (\<open>Oops\<close>).
\<close>

definition evdi_plane_atomic_update ::
  "commit_env \<Rightarrow> plane_state \<Rightarrow> plane_state option \<Rightarrow> drm_rect list \<Rightarrow> evdi_device \<Rightarrow>
     evdi_device outcome" where
  "evdi_plane_atomic_update env old_state state damage evdi =
     (case state of
        None \<Rightarrow> Ret evdi
      | Some st \<Rightarrow>
          let e1 = (if ps_crtc old_state = None \<and> ps_crtc st \<noteq> None
                    then dpms_notify_on env 0 DRM_MODE_DPMS_ON evdi
                    else if ps_crtc old_state \<noteq> None \<and> ps_crtc st = None
                    then dpms_notify_on env 0 DRM_MODE_DPMS_OFF evdi
                    else evdi)
          in case ps_fb st of
              None \<Rightarrow> Ret e1
            | Some fb \<Rightarrow>
                let e2 = (if ps_fb old_state = None \<and> ps_crtc st \<noteq> None
                          then force_modeset_on e1 else e1);
                    e3 = (case ps_fb old_state of
                            None \<Rightarrow> e2
                          | Some old_fb \<Rightarrow>
                              if fb_format fb \<noteq> fb_format old_fb then force_modeset_on e2 else e2)
                in if map_option fb_id (ps_fb old_state) \<noteq> Some (fb_id fb) \<or>
                      evdi_painter_needs_full_modeset (painter e3)
                   then (case painter e3 of
                           None \<Rightarrow> Oops
                         | Some _ \<Rightarrow>
                             let e4 = on_painter (evdi_painter_set_scanout_buffer (Some fb)) e3;
                                 e5 = fold (\<lambda>r. mark_on (clip_of r)) damage e4
                             in Ret (mark_if_clean fb e5))
                   else Ret (mark_if_clean fb e3))"

section \<open>The cursor plane\<close>

record cursor_state =
  cp_fb :: "evdi_framebuffer option"
  cp_x :: s32
  cp_y :: s32
  cp_w :: u32
  cp_h :: u32

definition evdi_cursor_atomic_get_rect :: "cursor_state \<Rightarrow> drm_clip_rect" where
  "evdi_cursor_atomic_get_rect st =
     \<lparr>x1 = (if sint (cp_x st) < 0 then 0 else ucast (cp_x st)),
      y1 = (if sint (cp_y st) < 0 then 0 else ucast (cp_y st)),
      x2 = ucast (cp_x st + cp_w st), y2 = ucast (cp_y st + cp_h st)\<rparr>"

text \<open>The part before the events: the cursor takes the new position and, if it changed, the new shape.\<close>

definition apply_cursor_state ::
  "commit_env \<Rightarrow> cursor_state \<Rightarrow> cursor_state \<Rightarrow> evdi_device \<Rightarrow> evdi_device" where
  "apply_cursor_state env old_state st evdi =
     (let c1 = evdi_cursor_move (cp_x st) (cp_y st) (cursor evdi);
          e1 = evdi\<lparr>cursor := c1\<rparr>
      in if map_option fb_id (cp_fb st) = map_option fb_id (cp_fb old_state) then e1
         else
           let e2 = (case cp_fb st of
                       None \<Rightarrow> e1
                     | Some fb \<Rightarrow>
                         let (c2, g2, cs2) = evdi_cursor_set (me_vmap env) (fb_obj fb) (fb_width fb)
                               (fb_height fb) 0 0 (fb_format fb) (4 * fb_width fb) (cursor e1) (gems e1)
                         in emit cs2 (e1\<lparr>cursor := c2, gems := g2\<rparr>));
               (c3, cs3) = evdi_cursor_enable (cp_fb st \<noteq> None) (cursor e2)
           in emit cs3 (e2\<lparr>cursor := c3\<rparr>))"

definition evdi_cursor_atomic_update ::
  "commit_env \<Rightarrow> cursor_state \<Rightarrow> cursor_state option \<Rightarrow> evdi_device \<Rightarrow> evdi_device outcome" where
  "evdi_cursor_atomic_update env old_state state evdi =
     (case state of
        None \<Rightarrow> Ret evdi
      | Some st \<Rightarrow>
          let cursor_changed = (map_option fb_id (cp_fb st) \<noteq> map_option fb_id (cp_fb old_state));
              position_changed = (evdi_cursor_position (cursor evdi) \<noteq> (cp_x st, cp_y st));
              e1 = apply_cursor_state env old_state st evdi
          in if \<not> cursor_events_enabled e1 then
               (case cp_fb st of
                  None \<Rightarrow> Ret e1
                | Some fb \<Rightarrow>
                    (case fb_obj fb of
                       None \<Rightarrow> Oops
                     | Some a \<Rightarrow>
                         if allow_sw_cursor_rect_updates (gems e1 a)
                         then Ret (mark_on (evdi_cursor_atomic_get_rect st)
                                (mark_on (evdi_cursor_atomic_get_rect old_state) e1))
                         else Ret (mark_on (evdi_painter_framebuffer_size (painter e1)) e1)))
             else
               (case painter e1 of
                  None \<Rightarrow> if cursor_changed \<or> position_changed then Oops else Ret e1
                | Some p \<Rightarrow>
                    (case (if cursor_changed
                           then evdi_painter_send_cursor_set (me_handles env) (me_handle_create env)
                                  (me_reserve env 0) (me_ok env 0) (gems e1) (cursor e1) p
                           else Ret (p, [])) of
                       Oops \<Rightarrow> Oops
                     | Ret (p1, cs1) \<Rightarrow>
                         let (p2, cs2) = (if position_changed
                               then evdi_painter_send_cursor_move (me_reserve env 1) (me_ok env 1)
                                      (cursor e1) p1
                               else (p1, []))
                         in Ret (emit (cs1 @ cs2) (e1\<lparr>painter := Some p2\<rparr>)))))"

section \<open>The connector\<close>

datatype drm_mode_status = MODE_OK | MODE_BAD

definition is_lowest_frequency_mode_of_given_resolution ::
  "drm_display_mode list \<Rightarrow> drm_display_mode \<Rightarrow> bool" where
  "is_lowest_frequency_mode_of_given_resolution modes mode =
     list_all (\<lambda>m. \<not> (hdisplay m = hdisplay mode \<and> vdisplay m = vdisplay mode \<and>
       sint (vrefresh m) < sint (vrefresh mode))) modes"

definition mode_area :: "drm_display_mode \<Rightarrow> u32" where
  "mode_area mode = ucast (hdisplay mode) * ucast (vdisplay mode)"

definition evdi_mode_valid :: "evdi_device \<Rightarrow> drm_display_mode list \<Rightarrow> drm_display_mode \<Rightarrow> drm_mode_status" where
  "evdi_mode_valid evdi modes mode =
     (let area_limit = mode_area mode;
          mode_limit = area_limit * vrefresh mode
      in if pixel_per_second_limit evdi = 0 then MODE_OK
         else if pixel_area_limit evdi < area_limit then MODE_BAD
         else if mode_limit \<le> pixel_per_second_limit evdi then MODE_OK
         else if is_lowest_frequency_mode_of_given_resolution modes mode then MODE_OK
         else MODE_BAD)"

definition evdi_detect :: "evdi_device \<Rightarrow> bool" where
  "evdi_detect evdi = evdi_painter_is_connected (painter evdi)"

text \<open>
  The result is a number of modes or an error passed through; \<open>update_edid\<close> and \<open>add_modes\<close> are the
  answers of the DRM core to the EDID copy.
\<close>

definition evdi_get_modes ::
  "bool \<Rightarrow> (u8 list \<Rightarrow> int) \<Rightarrow> (u8 list \<Rightarrow> int) \<Rightarrow> evdi_painter \<Rightarrow> int \<times> u8 list option" where
  "evdi_get_modes ok update_edid add_modes p =
     (case evdi_painter_get_edid_copy ok p of
        None \<Rightarrow> (0, None)
      | Some e \<Rightarrow> if update_edid e \<noteq> 0 then (update_edid e, Some e) else (add_modes e, Some e))"

section \<open>Creation\<close>

text \<open>The objects as numbers; \<open>ok\<close> is an allocation, \<open>init\<close> the result of the DRM core.\<close>

definition evdi_create_plane :: "bool \<Rightarrow> nat result \<Rightarrow> nat option" where
  "evdi_create_plane ok init =
     (if \<not> ok then None else case init of Inl _ \<Rightarrow> None | Inr plane \<Rightarrow> Some plane)"

text \<open>
  The status of \<open>drm_crtc_init_with_planes\<close> is only logged. The damage property is attached to
  the primary plane without a NULL check (\<open>Oops\<close>).
\<close>

definition evdi_crtc_init ::
  "bool \<Rightarrow> bool \<times> nat result \<Rightarrow> bool \<times> nat result \<Rightarrow> (nat option \<times> nat option) result outcome" where
  "evdi_crtc_init ok primary cur =
     (if \<not> ok then Ret (Inl ENOMEM)
      else
        let primary_plane = evdi_create_plane (fst primary) (snd primary);
            cursor_plane = evdi_create_plane (fst cur) (snd cur)
        in if primary_plane = None then Oops else Ret (Inr (primary_plane, cursor_plane)))"

definition evdi_encoder_init :: "bool \<Rightarrow> nat result \<Rightarrow> nat option" where
  "evdi_encoder_init ok init =
     (if \<not> ok then None else case init of Inl _ \<Rightarrow> None | Inr encoder \<Rightarrow> Some encoder)"

section \<open>Properties of modes\<close>

lemma unat_mode_area: "unat (mode_area mode) = unat (hdisplay mode) * unat (vdisplay mode)"
proof -
  have "unat (hdisplay mode) * unat (vdisplay mode) \<le> 65535 * 65535"
    by (rule mult_le_mono)
      (use unat_16_less [of "hdisplay mode"] unat_16_less [of "vdisplay mode"] in simp_all)
  then show ?thesis
    unfolding mode_area_def by (subst unat_mult_exact) simp_all
qed

text \<open>
  With limits set and no overflow of the pixel rate, a mode is accepted exactly when its area
  is within the area limit and either its pixel rate is within the rate limit or no mode of the
  same resolution has a lower refresh rate.
\<close>

theorem mode_valid_iff:
  assumes "pixel_per_second_limit evdi \<noteq> 0"
    and "unat (hdisplay mode) * unat (vdisplay mode) * unat (vrefresh mode) < 2 ^ 32"
  shows "evdi_mode_valid evdi modes mode = MODE_OK \<longleftrightarrow>
    unat (hdisplay mode) * unat (vdisplay mode) \<le> unat (pixel_area_limit evdi) \<and>
    (unat (hdisplay mode) * unat (vdisplay mode) * unat (vrefresh mode)
       \<le> unat (pixel_per_second_limit evdi) \<or>
     (\<forall>m\<in>set modes. hdisplay m = hdisplay mode \<longrightarrow> vdisplay m = vdisplay mode \<longrightarrow>
        sint (vrefresh mode) \<le> sint (vrefresh m)))"
proof -
  have "unat (mode_area mode * vrefresh mode)
      = unat (hdisplay mode) * unat (vdisplay mode) * unat (vrefresh mode)"
    using unat_mult_exact [of "mode_area mode" "vrefresh mode"] assms(2) by (simp add: unat_mode_area)
  moreover have "is_lowest_frequency_mode_of_given_resolution modes mode \<longleftrightarrow>
      (\<forall>m\<in>set modes. hdisplay m = hdisplay mode \<longrightarrow> vdisplay m = vdisplay mode \<longrightarrow>
        sint (vrefresh mode) \<le> sint (vrefresh m))"
    by (auto simp: is_lowest_frequency_mode_of_given_resolution_def list_all_iff not_less)
  ultimately show ?thesis
    using assms(1)
    by (simp add: evdi_mode_valid_def Let_def word_less_nat_alt word_le_nat_alt unat_mode_area
        not_less)
qed

definition limited_device :: "u32 \<Rightarrow> u32 \<Rightarrow> evdi_device" where
  "limited_device a r = \<lparr>painter = None, cursor = zero_cursor, cursor_events_enabled = False,
     pixel_area_limit = a, pixel_per_second_limit = r, i2c_adapter = False,
     gems = (\<lambda>_. \<lparr>gem_size = 0, pages = None, pages_pin_count = 0, vmapping = None,
       vmap_is_iomem = False, import_attach = None, sg = False,
       allow_sw_cursor_rect_updates = False, gem_log = []\<rparr>), calls = []\<rparr>"

theorem mode_valid_iff_witness:
  "evdi_mode_valid (limited_device 2073600 124416000)
     [\<lparr>hdisplay = 1920, vdisplay = 1080, vrefresh = 60\<rparr>]
     \<lparr>hdisplay = 1920, vdisplay = 1080, vrefresh = 120\<rparr> = MODE_BAD"
proof -
  let ?m = "\<lparr>hdisplay = 1920, vdisplay = 1080, vrefresh = 120\<rparr>"
    and ?l = "\<lparr>hdisplay = 1920, vdisplay = 1080, vrefresh = 60\<rparr>"
  have "evdi_mode_valid (limited_device 2073600 124416000) [?l] ?m \<noteq> MODE_OK"
    using mode_valid_iff [of "limited_device 2073600 124416000" ?m "[?l]"]
    by (simp add: limited_device_def)
  then show ?thesis by (cases "evdi_mode_valid (limited_device 2073600 124416000) [?l] ?m") simp_all
qed

text \<open>
  The pixel rate is computed in 32 bits: a mode of more than four billion pixels a second
  passes a limit of one hundred million, although a slower mode of its resolution exists.
\<close>

theorem mode_rate_wraps:
  "evdi_mode_valid (limited_device 33177600 100000000)
     [\<lparr>hdisplay = 7680, vdisplay = 4320, vrefresh = 60\<rparr>]
     \<lparr>hdisplay = 7680, vdisplay = 4320, vrefresh = 130\<rparr> = MODE_OK \<and>
   100000000 < 7680 * 4320 * (130 :: nat)"
  by (simp add: evdi_mode_valid_def mode_area_def limited_device_def)

end
