(* ===== verification/Evdi_Device.thy ===== *)
theory Evdi_Device
  imports Evdi_Damage Evdi_Modeset Evdi_Ddcci
begin

text \<open>
  The device as a state machine: the operations of user space, of the compositor, of the delayed
  work and of the console as steps, and the invariant every reachable state has. Most steps are
  one operation of the painter; the contract \<open>painter_op\<close> says what such an operation must keep,
  and is met by each of them.
\<close>

section \<open>The invariant\<close>

definition conn_ok :: "evdi_painter \<Rightarrow> bool" where
  "conn_ok p \<longleftrightarrow> (is_connected p \<longleftrightarrow> drm_filp p \<noteq> None)"

definition edid_ok :: "evdi_painter \<Rightarrow> bool" where
  "edid_ok p \<longleftrightarrow> (is_connected p \<longrightarrow> edid p \<noteq> None) \<and>
     (\<forall>e. edid p = Some e \<longrightarrow> length e = unat (edid_length p) \<and> 128 \<le> length e \<and> length e \<le> MAX_EDID_SIZE)"

text \<open>Events wait only for a connected client, and then the delayed work is scheduled.\<close>

definition work_ok :: "evdi_painter \<Rightarrow> bool" where
  "work_ok p \<longleftrightarrow> (pending_events p \<noteq> [] \<longrightarrow> send_events_work p \<and> is_connected p)"

text \<open>A vertical blank event is held back only while the client has damage to grab.\<close>

definition vblank_ok :: "evdi_painter \<Rightarrow> bool" where
  "vblank_ok p \<longleftrightarrow> (vblank p \<noteq> None \<longrightarrow> crtc p \<noteq> None \<and> 0 < num_dirts p \<and> is_connected p)"

definition painter_inv :: "evdi_painter \<Rightarrow> bool" where
  "painter_inv p \<longleftrightarrow> drm_device p \<and> dirts_ok p \<and> conn_ok p \<and> edid_ok p \<and> work_ok p \<and> ddcci_ok p \<and>
     vblank_ok p"

section \<open>What the device owes\<close>

text \<open>
  A call the accounts below follow: it takes or drops a reference, or sends a vertical blank event.
\<close>

fun counted_call :: "drm_call \<Rightarrow> bool" where
  "counted_call (FbGet _) = True"
| "counted_call (FbPut _) = True"
| "counted_call (GemGet _) = True"
| "counted_call (GemPut _) = True"
| "counted_call (SendVblank _ _) = True"
| "counted_call _ = False"

definition uncounted :: "drm_call list \<Rightarrow> bool" where
  "uncounted cs \<longleftrightarrow> (\<forall>c\<in>set cs. \<not> counted_call c)"

definition vblanks_sent :: "drm_call list \<Rightarrow> nat \<times> nat \<Rightarrow> int" where
  "vblanks_sent cs cv = int (count_list cs (SendVblank (fst cv) (snd cv)))"

text \<open>A CRTC and its event, as fields that are NULL together; the pairs they hold.\<close>

definition pair_held :: "nat option \<Rightarrow> nat option \<Rightarrow> (nat \<times> nat) list" where
  "pair_held c v = (case (c, v) of (Some c, Some v) \<Rightarrow> [(c, v)] | _ \<Rightarrow> [])"

definition held :: "evdi_painter \<Rightarrow> nat \<times> nat \<Rightarrow> int" where
  "held p cv = int (count_list (pair_held (crtc p) (vblank p)) cv)"

definition shows_fb :: "evdi_painter \<Rightarrow> nat \<Rightarrow> int" where
  "shows_fb p a = of_bool (map_option fb_id (scanout_fb p) = Some a)"

text \<open>
  References taken beyond the one the painter's scanout field stands for, and beyond the one of the
  cursor's object; vertical blank events that have been sent or are held.
\<close>

definition fb_owed :: "evdi_device \<Rightarrow> nat \<Rightarrow> int" where
  "fb_owed evdi a = fb_refs_taken (calls evdi) a -
     (case painter evdi of None \<Rightarrow> 0 | Some p \<Rightarrow> shows_fb p a)"

definition gem_owed :: "evdi_device \<Rightarrow> nat \<Rightarrow> int" where
  "gem_owed evdi a = gem_refs_taken (calls evdi) a - of_bool (cur_obj (cursor evdi) = Some a)"

definition vblanks :: "evdi_device \<Rightarrow> nat \<times> nat \<Rightarrow> int" where
  "vblanks evdi cv = vblanks_sent (calls evdi) cv +
     (case painter evdi of None \<Rightarrow> 0 | Some p \<Rightarrow> held p cv)"

definition good :: "evdi_device \<Rightarrow> bool" where
  "good evdi \<longleftrightarrow> (\<forall>p. painter evdi = Some p \<longrightarrow> painter_inv p)"

text \<open>
  What an operation of the device must do: keep the invariant and balance the accounts; \<open>new\<close> are
  the vertical blank events that the compositor hands over in it.
\<close>

definition keeps :: "(nat \<times> nat) list \<Rightarrow> evdi_device \<Rightarrow> evdi_device \<Rightarrow> bool" where
  "keeps new evdi evdi' \<longleftrightarrow> (good evdi \<longrightarrow> good evdi') \<and>
     (\<forall>a. fb_owed evdi' a = fb_owed evdi a) \<and> (\<forall>a. gem_owed evdi' a = gem_owed evdi a) \<and>
     (\<forall>cv. vblanks evdi' cv = vblanks evdi cv + int (count_list new cv))"

lemma uncounted_simps [simp]:
  "uncounted []" "uncounted (c # cs) \<longleftrightarrow> \<not> counted_call c \<and> uncounted cs"
  "uncounted (cs @ ds) \<longleftrightarrow> uncounted cs \<and> uncounted ds"
  "uncounted (map FreeEvent es)" "uncounted (map (SendEvent f) es)"
  by (auto simp: uncounted_def)

lemma account_append [simp]:
  "fb_refs_taken (cs @ ds) a = fb_refs_taken cs a + fb_refs_taken ds a"
  "gem_refs_taken (cs @ ds) a = gem_refs_taken cs a + gem_refs_taken ds a"
  "vblanks_sent (cs @ ds) cv = vblanks_sent cs cv + vblanks_sent ds cv"
  "fb_refs_taken [] a = 0" "gem_refs_taken [] a = 0" "vblanks_sent [] cv = 0"
  by (rule fb_slot.taken_append gem_slot.taken_append fb_slot.taken_nil gem_slot.taken_nil)+
    (simp_all add: vblanks_sent_def count_list_append fb_slot.taken_nil gem_slot.taken_nil)

lemma uncounted_zero:
  assumes "uncounted cs"
  shows "fb_refs_taken cs a = 0" "gem_refs_taken cs a = 0" "vblanks_sent cs cv = 0"
proof -
  have "count_list cs c = 0" if "counted_call c" for c
    using assms that by (induction cs) auto
  then show "fb_refs_taken cs a = 0" "gem_refs_taken cs a = 0" "vblanks_sent cs cv = 0"
    by (simp_all add: fb_refs_taken_def gem_refs_taken_def vblanks_sent_def)
qed

lemma send_vblank_account [simp]:
  "vblanks_sent (evdi_send_vblank c v) cv = int (count_list (pair_held c v) cv)"
  "fb_refs_taken (evdi_send_vblank c v) a = 0" "gem_refs_taken (evdi_send_vblank c v) a = 0"
  by (auto simp: evdi_send_vblank_def pair_held_def vblanks_sent_def fb_refs_taken_def
      gem_refs_taken_def split: option.splits)

lemma slot_account [simp]:
  "fb_refs_taken (fb_slot_calls old new) a = of_bool (new = Some a) - of_bool (old = Some a)"
  "gem_refs_taken (fb_slot_calls old new) a = 0" "vblanks_sent (fb_slot_calls old new) cv = 0"
  "gem_refs_taken (gem_slot_calls old new) a = of_bool (new = Some a) - of_bool (old = Some a)"
  "fb_refs_taken (gem_slot_calls old new) a = 0" "vblanks_sent (gem_slot_calls old new) cv = 0"
proof -
  show "gem_refs_taken (fb_slot_calls old new) a = 0" "fb_refs_taken (gem_slot_calls old new) a = 0"
    "vblanks_sent (fb_slot_calls old new) cv = 0" "vblanks_sent (gem_slot_calls old new) cv = 0"
    by (auto simp: fb_slot_calls_def gem_slot_calls_def fb_refs_taken_def gem_refs_taken_def
        vblanks_sent_def split: option.splits)
qed (rule fb_slot.assign_taken gem_slot.assign_taken)+

lemma keeps_refl [simp]: "keeps [] evdi evdi"
  by (simp add: keeps_def)

lemma keeps_trans: "keeps n1 a b \<Longrightarrow> keeps n2 b c \<Longrightarrow> keeps (n1 @ n2) a c"
  by (simp add: keeps_def count_list_append)

lemma keeps_trans0: "keeps [] a b \<Longrightarrow> keeps n b c \<Longrightarrow> keeps n a c"
  using keeps_trans [of "[]"] by simp

section \<open>Operations of the painter\<close>

text \<open>
  The contract of an operation that works on the painter alone: it keeps the invariant, takes and
  drops exactly the references that its change of the scanout buffer stands for, and sends exactly
  the vertical blank events it stops holding.
\<close>

definition keeps_painter :: "evdi_painter \<Rightarrow> evdi_painter \<Rightarrow> drm_call list \<Rightarrow> bool" where
  "keeps_painter p p' cs \<longleftrightarrow> painter_inv p' \<and> (\<forall>a. gem_refs_taken cs a = 0) \<and>
     (\<forall>a. fb_refs_taken cs a = shows_fb p' a - shows_fb p a) \<and>
     (\<forall>cv. vblanks_sent cs cv = held p cv - held p' cv)"

lemma keeps_painter_device:
  assumes "painter evdi = Some p" and "painter_inv p \<Longrightarrow> keeps_painter p p' cs" and "good evdi"
  shows "keeps [] evdi (emit cs (evdi\<lparr>painter := Some p'\<rparr>))"
  using assms
  by (simp add: keeps_def keeps_painter_def good_def emit_def fb_owed_def gem_owed_def vblanks_def)

locale painter_op =
  fixes f :: "evdi_painter \<Rightarrow> evdi_painter \<times> drm_call list"
  assumes op_keeps: "painter_inv p \<Longrightarrow> f p = (p', cs) \<Longrightarrow> keeps_painter p p' cs"
begin

lemma keeps_on_painter: "good evdi \<Longrightarrow> keeps [] evdi (on_painter f evdi)"
  using op_keeps
  by (auto simp: on_painter_def good_def split: option.splits prod.splits intro!: keeps_painter_device)

lemma on_painter_good: "good evdi \<Longrightarrow> good (on_painter f evdi)"
  using keeps_on_painter [of evdi] by (simp add: keeps_def)

end

lemma keeps_painterI:
  assumes "painter_inv p'" and "uncounted cs" and "scanout_fb p' = scanout_fb p" and "crtc p' = crtc p"
    and "vblank p' = vblank p"
  shows "keeps_painter p p' cs"
  using assms uncounted_zero [OF assms(2)] by (simp add: keeps_painter_def shows_fb_def held_def)

lemmas inv_defs = painter_inv_def conn_ok_def edid_ok_def work_ok_def vblank_ok_def

text \<open>Changes of fields the invariant does not mention.\<close>

lemma painter_inv_frame [simp]:
  "painter_inv (p\<lparr>was_update_requested := b\<rparr>) = painter_inv p"
  "painter_inv (p\<lparr>needs_full_modeset := b\<rparr>) = painter_inv p"
  "painter_inv (p\<lparr>fg_console := n\<rparr>) = painter_inv p"
  "painter_inv (p\<lparr>scanout_fb := fb\<rparr>) = painter_inv p"
  "painter_inv (p\<lparr>ddcci_response_received := k\<rparr>) = painter_inv p"
  by (simp_all add: inv_defs dirts_ok_def ddcci_ok_def)

text \<open>An event changes the pending list and the delayed work only.\<close>

lemma flush_events:
  assumes "evdi_painter_flush_pending_events reserve p = (all, p', cs)"
  shows "\<exists>left. p' = p\<lparr>pending_events := left\<rparr> \<and> (all \<longleftrightarrow> left = []) \<and> uncounted cs \<and>
    (left \<noteq> [] \<longrightarrow> pending_events p \<noteq> [])"
proof -
  obtain sent left where f: "flush_pending reserve 0 (pending_events p) = (sent, left)" by fastforce
  have "left \<noteq> [] \<longrightarrow> pending_events p \<noteq> []" using flush_pending_append [OF f] by auto
  then show ?thesis
    using assms f by (auto simp: evdi_painter_flush_pending_events_def)
qed

lemma send_event_frame:
  assumes "evdi_painter_send_event reserve ev p = (p', cs)" and "work_ok p"
  shows "\<exists>pend w. p' = p\<lparr>pending_events := pend, send_events_work := w\<rparr> \<and> uncounted cs \<and>
    (pend \<noteq> [] \<longrightarrow> w \<and> is_connected p)"
proof (cases "ev = None \<or> drm_filp p = None \<or> \<not> drm_device p \<or> \<not> is_connected p")
  case True
  then have "p' = p" "uncounted cs"
    using assms(1) by (auto simp: evdi_painter_send_event_def split: option.splits if_splits)
  moreover have "p = p\<lparr>pending_events := pending_events p, send_events_work := send_events_work p\<rparr>"
    by simp
  ultimately show ?thesis using assms(2) unfolding work_ok_def by metis
next
  case False
  then obtain e where ev: "ev = Some e" by auto
  obtain lst freed where l: "add_event_to_pending_list (pending_events p) e = (lst, freed)" by fastforce
  let ?p1 = "p\<lparr>pending_events := lst\<rparr>"
  obtain all p2 sent where f: "evdi_painter_flush_pending_events reserve ?p1 = (all, p2, sent)"
    by (metis prod_cases3)
  obtain left where left: "p2 = ?p1\<lparr>pending_events := left\<rparr>" "all \<longleftrightarrow> left = []" "uncounted sent"
    using flush_events [OF f] by blast
  show ?thesis
  proof (cases "send_events_work p")
    case True
    then have "p' = p\<lparr>pending_events := lst, send_events_work := True\<rparr>" "uncounted cs"
      using assms(1) False ev l by (auto simp: evdi_painter_send_event_def)
    then show ?thesis using False by blast
  next
    case work: False
    then have "p' = p\<lparr>pending_events := left, send_events_work := (left \<noteq> [])\<rparr>" "uncounted cs"
      using assms(1) False ev l f left by (auto simp: evdi_painter_send_event_def split: if_splits)
    then show ?thesis using False by blast
  qed
qed

lemma send_event_keeps:
  assumes "painter_inv p" and "evdi_painter_send_event reserve ev p = (p', cs)"
  shows "keeps_painter p p' cs" "scanout_fb p' = scanout_fb p" "num_dirts p' = num_dirts p"
    "is_connected p' = is_connected p" "uncounted cs" "painter_inv p'" "vblank p' = vblank p" "crtc p' = crtc p"
    "was_update_requested p' = was_update_requested p"
proof -
  obtain pend w where p': "p' = p\<lparr>pending_events := pend, send_events_work := w\<rparr>" "uncounted cs"
      "pend \<noteq> [] \<longrightarrow> w \<and> is_connected p"
    using send_event_frame [OF assms(2)] assms(1) by (auto simp: painter_inv_def)
  then show i: "painter_inv p'" using assms(1) by (auto simp: inv_defs dirts_ok_def ddcci_ok_def)
  show "scanout_fb p' = scanout_fb p" "num_dirts p' = num_dirts p" "vblank p' = vblank p" "crtc p' = crtc p"
    "is_connected p' = is_connected p" "uncounted cs" "was_update_requested p' = was_update_requested p"
    using p' by simp_all
  then show "keeps_painter p p' cs" using i by (intro keeps_painterI)
qed

interpretation events_work: painter_op "evdi_send_events_work reserve" for reserve
proof
  fix p p' :: evdi_painter and cs
  assume p: "painter_inv p" and w: "evdi_send_events_work reserve p = (p', cs)"
  obtain all p1 sent where f:
    "evdi_painter_flush_pending_events reserve (p\<lparr>send_events_work := False\<rparr>) = (all, p1, sent)"
    by (metis prod_cases3)
  obtain left where left: "p1 = p\<lparr>send_events_work := False, pending_events := left\<rparr>" "all \<longleftrightarrow> left = []"
      "uncounted sent" "left \<noteq> [] \<longrightarrow> pending_events p \<noteq> []"
    using flush_events [OF f] by auto
  have "p' = p\<lparr>send_events_work := (left \<noteq> []), pending_events := left\<rparr>" "cs = sent"
    using w f left by (auto simp: evdi_send_events_work_def split: if_splits)
  then show "keeps_painter p p' cs"
    using p left by (intro keeps_painterI) (auto simp: inv_defs dirts_ok_def ddcci_ok_def)
qed

interpretation dpms: painter_op "evdi_painter_dpms_notify reserve ok console m" for reserve ok console m
proof
  fix p p' :: evdi_painter and cs
  assume p: "painter_inv p" and d: "evdi_painter_dpms_notify reserve ok console m p = (p', cs)"
  show "keeps_painter p p' cs"
  proof (cases "is_connected p")
    case False
    then show ?thesis using p d by (simp add: evdi_painter_dpms_notify_def keeps_painterI)
  next
    case True
    let ?q = "if m = DRM_MODE_DPMS_ON then p\<lparr>fg_console := console\<rparr> else p"
    have q: "painter_inv ?q" "scanout_fb ?q = scanout_fb p" "vblank ?q = vblank p" "crtc ?q = crtc p"
      using p by simp_all
    have "evdi_painter_send_event reserve (if ok then Some (Dpms m) else None) ?q = (p', cs)"
      using d True by (simp add: evdi_painter_dpms_notify_def evdi_painter_send_dpms_def)
    from send_event_keeps [OF q(1) this] show ?thesis using q(2-) by (simp add: keeps_painterI)
  qed
qed

interpretation mode_changed: painter_op "evdi_painter_mode_changed_notify reserve ok m" for reserve ok m
proof
  fix p p' :: evdi_painter and cs
  assume p: "painter_inv p" and d: "evdi_painter_mode_changed_notify reserve ok m p = (p', cs)"
  show "keeps_painter p p' cs"
  proof (cases "scanout_fb p")
    case None
    then show ?thesis using p d by (simp add: evdi_painter_mode_changed_notify_def keeps_painterI)
  next
    case (Some fb)
    obtain ev p1 where e: "evdi_painter_send_event reserve ev p = (p1, cs)" "p' = p1\<lparr>needs_full_modeset := False\<rparr>"
      using d Some
      by (auto simp: evdi_painter_mode_changed_notify_def evdi_painter_send_mode_changed_def
          split: prod.splits)
    from send_event_keeps [OF p e(1)] show ?thesis using e(2) by (simp add: keeps_painterI)
  qed
qed

interpretation force: painter_op "\<lambda>p. (evdi_painter_force_full_modeset p, [])"
  by unfold_locales (auto simp: evdi_painter_force_full_modeset_def intro!: keeps_painterI)

interpretation vt: painter_op "evdi_painter_vt_notifier_call reserve ok console" for reserve ok console
proof
  fix p p' :: evdi_painter and cs
  assume p: "painter_inv p" and d: "evdi_painter_vt_notifier_call reserve ok console p = (p', cs)"
  show "keeps_painter p p' cs"
  proof (cases "is_connected p \<and> console \<noteq> fg_console p \<and> \<not> needs_full_modeset p")
    case True
    then obtain p1 where e: "evdi_painter_dpms_notify reserve ok console DRM_MODE_DPMS_OFF p = (p1, cs)"
        "p' = p1\<lparr>needs_full_modeset := True\<rparr>"
      using d by (auto simp: evdi_painter_vt_notifier_call_def evdi_painter_force_full_modeset_def
          split: prod.splits)
    from dpms.op_keeps [OF p e(1)] show ?thesis
      using e(2) by (simp add: keeps_painter_def shows_fb_def held_def)
  next
    case False
    then show ?thesis using p d by (auto simp: evdi_painter_vt_notifier_call_def intro!: keeps_painterI)
  qed
qed

interpretation update_ready: painter_op "evdi_painter_send_update_ready_if_needed reserve ok" for reserve ok
proof
  fix p p' :: evdi_painter and cs
  assume p: "painter_inv p" and d: "evdi_painter_send_update_ready_if_needed reserve ok p = (p', cs)"
  show "keeps_painter p p' cs"
  proof (cases "was_update_requested p \<and> num_dirts p \<noteq> 0")
    case True
    then obtain ev p1 where e: "evdi_painter_send_event reserve ev p = (p1, cs)"
        "p' = p1\<lparr>was_update_requested := False\<rparr>"
      using d by (auto simp: evdi_painter_send_update_ready_if_needed_def
          evdi_painter_send_update_ready_def split: prod.splits)
    from send_event_keeps [OF p e(1)] show ?thesis using e(2) by (simp add: keeps_painterI)
  next
    case False
    then show ?thesis
      using p d by (auto simp: evdi_painter_send_update_ready_if_needed_def intro!: keeps_painterI)
  qed
qed

interpretation scanout: painter_op "evdi_painter_set_scanout_buffer fb" for fb
  by unfold_locales
    (auto simp: evdi_painter_set_scanout_buffer_def keeps_painter_def shows_fb_def held_def)


lemma mark_dirty_sel:
  "conn_ok (evdi_painter_mark_dirty r p) = conn_ok p" "edid_ok (evdi_painter_mark_dirty r p) = edid_ok p"
  "work_ok (evdi_painter_mark_dirty r p) = work_ok p" "ddcci_ok (evdi_painter_mark_dirty r p) = ddcci_ok p"
  "drm_device (evdi_painter_mark_dirty r p) = drm_device p"
  "scanout_fb (evdi_painter_mark_dirty r p) = scanout_fb p"
  "crtc (evdi_painter_mark_dirty r p) = crtc p" "vblank (evdi_painter_mark_dirty r p) = vblank p"
  "is_connected (evdi_painter_mark_dirty r p) = is_connected p"
  "was_update_requested (evdi_painter_mark_dirty r p) = was_update_requested p"
  by (auto simp: evdi_painter_mark_dirty_def Let_def reduce_dirts_def conn_ok_def edid_ok_def work_ok_def
      ddcci_ok_def split: option.splits prod.splits)

lemma mark_dirty_pos:
  assumes "dirts_ok p" and "0 < num_dirts p \<or> scanout_fb p \<noteq> None"
  shows "0 < num_dirts (evdi_painter_mark_dirty r p)"
proof (cases "scanout_fb p")
  case None
  then show ?thesis using assms by (simp add: mark_dirty_eq)
next
  case (Some fb)
  have "0 \<le> num_dirts (make_room p)" using dirts_okD(1) [OF make_room_ok(1) [OF assms(1)]] .
  then show ?thesis using Some by (simp add: mark_dirty_eq)
qed

interpretation mark: painter_op "\<lambda>p. (evdi_painter_mark_dirty r p, [])" for r
proof
  fix p p' :: evdi_painter and cs :: "drm_call list"
  assume p: "painter_inv p" and "(evdi_painter_mark_dirty r p, []) = (p', cs)"
  then have e: "p' = evdi_painter_mark_dirty r p" "cs = []" by auto
  have d: "dirts_ok p" using p by (simp add: painter_inv_def)
  have "painter_inv p'"
    using p mark_dirty_contract(1) [OF d, of r] mark_dirty_pos [OF d, of r]
    by (auto simp: painter_inv_def vblank_ok_def mark_dirty_sel e)
  then show "keeps_painter p p' cs" by (rule keeps_painterI) (simp_all add: e mark_dirty_sel)
qed

interpretation ddcci: painter_op "ddcci_send reserve ok msg" for reserve ok msg
proof
  fix p p' :: evdi_painter and cs
  assume p: "painter_inv p" and d: "ddcci_send reserve ok msg p = (p', cs)"
  let ?q = "p\<lparr>ddcci_response_received := 0\<rparr>"
  have q: "painter_inv ?q" using p by simp
  have e: "evdi_painter_send_event reserve (create_ddcci_data_event ok msg) ?q = (p', cs)"
    using d by (simp add: ddcci_send_def)
  show "keeps_painter p p' cs"
    using send_event_keeps [OF q e] by (simp add: keeps_painterI)
qed

interpretation ddcci_end: painter_op "\<lambda>p. (snd (ddcci_receive interrupted msg p), [])" for interrupted msg
  by unfold_locales
    (auto simp: ddcci_receive_def Let_def split: option.splits intro!: keeps_painterI)

interpretation request: painter_op "\<lambda>p. (the (snd (evdi_painter_request_update_ioctl (Some p))), [])"
  by unfold_locales (auto simp: evdi_painter_request_update_ioctl_def intro!: keeps_painterI)

text \<open>A response keeps the contract when \<open>copy_from_user\<close> gives as many bytes as asked for.\<close>

lemma response_keeps:
  assumes "copy_from_user_ok cfu" and "painter_inv p"
    and "evdi_painter_ddcci_response_ioctl cfu ok mem cmd p = (r, p')"
  shows "keeps_painter p p' []"
proof (rule keeps_painterI)
  have p': "p' = p\<lparr>ddcci_buffer_length := ddcci_buffer_length p', ddcci_buffer := ddcci_buffer p',
      ddcci_response_received := ddcci_response_received p'\<rparr>"
    using assms(3)
    by (auto simp: evdi_painter_ddcci_response_ioctl_def Let_def split: if_splits option.splits)
  show "scanout_fb p' = scanout_fb p" "crtc p' = crtc p" "vblank p' = vblank p"
    by (subst p', simp)+
  have "drm_device p' = drm_device p" "dirts_ok p' = dirts_ok p" "conn_ok p' = conn_ok p"
    "edid_ok p' = edid_ok p" "work_ok p' = work_ok p" "vblank_ok p' = vblank_ok p"
    by (subst p', simp add: inv_defs dirts_ok_def)+
  then show "painter_inv p'"
    using assms(2) ddcci_response_ok [OF assms(1,3)] by (simp add: painter_inv_def)
qed simp


section \<open>Operations of the device\<close>

lemma i2c_keeps [simp]:
  "keeps new evdi (evdi_add_i2c_adapter ok evdi') = keeps new evdi evdi'"
  "keeps new evdi (evdi_remove_i2c_adapter evdi') = keeps new evdi evdi'"
  by (simp_all add: keeps_def evdi_add_i2c_adapter_def evdi_remove_i2c_adapter_def good_def fb_owed_def
      gem_owed_def vblanks_def emit_def fb_refs_taken_def gem_refs_taken_def vblanks_sent_def)

lemma emit_uncounted [simp]: "uncounted cs \<Longrightarrow> keeps new evdi (emit cs evdi') = keeps new evdi evdi'"
  using uncounted_zero [of cs]
  by (simp add: keeps_def good_def fb_owed_def gem_owed_def vblanks_def emit_def)

lemma keeps_fields [simp]:
  "keeps new evdi (evdi'\<lparr>cursor_events_enabled := b\<rparr>) = keeps new evdi evdi'"
  "keeps new evdi (evdi'\<lparr>gems := g\<rparr>) = keeps new evdi evdi'"
  by (simp_all add: keeps_def good_def fb_owed_def gem_owed_def vblanks_def)

lemma connect_keeps:
  assumes "copy_from_user_ok cfu" and "painter evdi = Some p"
    and "evdi_painter_connect cfu ok add_ok mem edid_data len al pl filp p evdi = (r, evdi')"
  shows "keeps [] evdi evdi'"
proof (cases "unat len < 128 \<or> MAX_EDID_SIZE < unat len \<or> \<not> ok \<or> cfu mem edid_data (unat len) = None")
  case True
  then show ?thesis using assms(3) by (auto simp: evdi_painter_connect_def split: if_splits)
next
  case False
  then obtain e where e: "cfu mem edid_data (unat len) = Some e" by blast
  let ?p1 = "p\<lparr>drm_filp := Some filp, edid_length := len, edid := Some e, is_connected := True,
      needs_full_modeset := True\<rparr>"
  have i: "painter_inv p \<Longrightarrow> painter_inv ?p1"
    using False copy_from_user_length [OF assms(1) e]
    by (auto simp: inv_defs dirts_ok_def ddcci_ok_def)
  have "keeps [] evdi (evdi\<lparr>pixel_area_limit := al, pixel_per_second_limit := pl, painter := Some ?p1\<rparr>)"
    using assms(2) i
    by (simp add: keeps_def good_def fb_owed_def gem_owed_def vblanks_def shows_fb_def held_def)
  then show ?thesis
    using assms(3) False e
    by (auto simp: evdi_painter_connect_def Let_def split: if_splits)
qed

lemma drop_scanout_eq: "drop_scanout p =
    (p\<lparr>scanout_fb := None\<rparr>, fb_slot_calls (map_option fb_id (scanout_fb p)) None)"
  by (cases p) (simp add: drop_scanout_def fb_slot_calls_def split: option.splits)

lemma disconnect_keeps:
  assumes "painter evdi = Some p" and "evdi_painter_disconnect filp p evdi = (r, evdi')"
  shows "keeps [] evdi evdi'"
proof (cases "Some filp \<noteq> drm_filp p")
  case True
  then show ?thesis using assms(2) by (simp add: evdi_painter_disconnect_def)
next
  case False
  let ?cs = "fb_slot_calls (map_option fb_id (scanout_fb p)) None @
      map FreeEvent (pending_events p) @ evdi_send_vblank (crtc p) (vblank p) @
      gem_slot_calls (cur_obj (cursor evdi)) None"
  let ?p8 = "p\<lparr>scanout_fb := None, is_connected := False, pending_events := [], send_events_work := False,
      crtc := None, vblank := None, ddcci_buffer := None, ddcci_buffer_length := 0, drm_filp := None,
      was_update_requested := False, ddcci_response_received := ddcci_response_received p + 1\<rparr>"
  let ?e = "evdi\<lparr>cursor := (cursor evdi)\<lparr>enabled := False, cur_obj := None\<rparr>\<rparr>"
  have p: "evdi' = emit [HpdIrq] ((evdi_remove_i2c_adapter (emit ?cs ?e))
      \<lparr>painter := Some ?p8, cursor_events_enabled := False\<rparr>)"
    using assms(2) False
    by (simp add: evdi_painter_disconnect_def drop_scanout_eq evdi_painter_events_cleanup_def
        evdi_painter_send_vblank_def evdi_cursor_enable_def evdi_cursor_set_gem_def Let_def)
  have sw: "(evdi_remove_i2c_adapter e)\<lparr>painter := q\<rparr> = evdi_remove_i2c_adapter (e\<lparr>painter := q\<rparr>)" for e q
    by (simp add: evdi_remove_i2c_adapter_def emit_def)
  have i: "painter_inv p \<Longrightarrow> painter_inv ?p8"
    by (auto simp: inv_defs dirts_ok_def ddcci_ok_def)
  have "fb_refs_taken ?cs a = - shows_fb p a"
      "gem_refs_taken ?cs a = - of_bool (cur_obj (cursor evdi) = Some a)" "vblanks_sent ?cs cv = held p cv"
    for a cv
    using uncounted_zero [of "map FreeEvent (pending_events p)"] by (simp_all add: shows_fb_def held_def)
  then show ?thesis
    using assms(1) i unfolding p
    by (simp add: sw) (simp add: keeps_def good_def fb_owed_def gem_owed_def vblanks_def shows_fb_def
        held_def pair_held_def emit_def)
qed


lemma close_keeps: "keeps [] evdi (evdi_painter_close filp evdi)"
proof (cases "painter evdi")
  case (Some p)
  obtain r e where d: "evdi_painter_disconnect filp p evdi = (r, e)" by fastforce
  then show ?thesis using Some disconnect_keeps [OF Some d] by (simp add: evdi_painter_close_def)
qed (simp add: evdi_painter_close_def)

lemma connect_ioctl_keeps:
  assumes "copy_from_user_ok cfu"
    and "evdi_painter_connect_ioctl cfu ok add_ok mem cmd filp evdi = (r, evdi')"
  shows "keeps [] evdi evdi'"
  using assms connect_keeps [OF assms(1)] disconnect_keeps
  by (auto simp: evdi_painter_connect_ioctl_def split: option.splits if_splits)

text \<open>The cursor operations exchange the object in the cursor's slot.\<close>

lemma cursor_exchange_keeps:
  assumes "cur_obj c' = new"
  shows "keeps [] evdi (emit (gem_slot_calls (cur_obj (cursor evdi)) new) (evdi\<lparr>cursor := c'\<rparr>))"
  using assms by (simp add: keeps_def good_def fb_owed_def gem_owed_def vblanks_def emit_def)

lemma cursor_move_keeps: "keeps [] evdi (evdi\<lparr>cursor := evdi_cursor_move x y (cursor evdi)\<rparr>)"
  by (simp add: keeps_def good_def fb_owed_def gem_owed_def vblanks_def evdi_cursor_move_def)

lemma cursor_enable_keeps:
  assumes "evdi_cursor_enable b (cursor evdi) = (c', cs)"
  shows "keeps [] evdi (emit cs (evdi\<lparr>cursor := c'\<rparr>))"
  using assms cursor_exchange_keeps [of c' "cur_obj c'" evdi]
  by (auto simp: evdi_cursor_enable_def evdi_cursor_set_gem_def Let_def keeps_def good_def fb_owed_def
      gem_owed_def vblanks_def emit_def split: if_splits)

lemma cursor_set_keeps:
  assumes "evdi_cursor_set env obj w h hx hy f s (cursor evdi) (gems evdi) = (c', g', cs)"
  shows "keeps [] evdi (emit cs (evdi\<lparr>cursor := c', gems := g'\<rparr>))"
proof -
  obtain new where n: "cur_obj c' = new" "cs = gem_slot_calls (cur_obj (cursor evdi)) new"
    using assms by (auto simp: evdi_cursor_set_def evdi_cursor_set_gem_def Let_def split: prod.splits)
  have "emit cs (evdi\<lparr>cursor := c', gems := g'\<rparr>) = (emit cs (evdi\<lparr>cursor := c'\<rparr>))\<lparr>gems := g'\<rparr>"
    by (simp add: emit_def)
  then show ?thesis using cursor_exchange_keeps [OF n(1)] n(2) by simp
qed

lemma cursor_set_fb_keeps:
  "keeps [] evdi (case fb of None \<Rightarrow> evdi
     | Some fb \<Rightarrow> (case evdi_cursor_set env (fb_obj fb) (fb_width fb) (fb_height fb) 0 0
          (fb_format fb) (4 * fb_width fb) (cursor evdi) (gems evdi) of
        (c2, g2, cs2) \<Rightarrow> emit cs2 (evdi\<lparr>cursor := c2, gems := g2\<rparr>)))"
  by (auto split: option.splits prod.splits intro!: cursor_set_keeps)

lemma apply_cursor_state_keeps: "keeps [] evdi (apply_cursor_state env old st evdi)"
proof -
  let ?e1 = "evdi\<lparr>cursor := evdi_cursor_move (cp_x st) (cp_y st) (cursor evdi)\<rparr>"
  let ?e2 = "case cp_fb st of None \<Rightarrow> ?e1
     | Some fb \<Rightarrow> (case evdi_cursor_set (me_vmap env) (fb_obj fb) (fb_width fb) (fb_height fb) 0 0
          (fb_format fb) (4 * fb_width fb) (cursor ?e1) (gems ?e1) of
        (c2, g2, cs2) \<Rightarrow> emit cs2 (?e1\<lparr>cursor := c2, gems := g2\<rparr>))"
  have e2: "keeps [] ?e1 ?e2"
    by (rule cursor_set_fb_keeps)
  obtain c3 cs3 where c3: "evdi_cursor_enable (cp_fb st \<noteq> None) (cursor ?e2) = (c3, cs3)" by fastforce
  have "keeps [] evdi (emit cs3 (?e2\<lparr>cursor := c3\<rparr>))"
    by (rule keeps_trans0 [OF cursor_move_keeps keeps_trans0 [OF e2 cursor_enable_keeps [OF c3]]])
  then show ?thesis
    using cursor_move_keeps [of evdi "cp_x st" "cp_y st"]
    unfolding apply_cursor_state_def Let_def c3 prod.case by (simp only: split: if_split) blast
qed


lemma keeps_good: "keeps new a b \<Longrightarrow> good a \<Longrightarrow> good b"
  by (simp add: keeps_def)

text \<open>A chain of operations, each of which keeps the accounts of a good device.\<close>

lemma keeps_then: "good a \<Longrightarrow> (good a \<Longrightarrow> keeps [] a b) \<Longrightarrow> (good b \<Longrightarrow> keeps n b c) \<Longrightarrow> keeps n a c"
  using keeps_trans0 [of a b n c] keeps_good [of "[]" a b] by blast

lemma mark_on_keeps: "good evdi \<Longrightarrow> keeps [] evdi (mark_on r evdi)"
  unfolding mark_on_def by (rule mark.keeps_on_painter)

lemma force_modeset_on_keeps: "good evdi \<Longrightarrow> keeps [] evdi (force_modeset_on evdi)"
  unfolding force_modeset_on_def by (rule force.keeps_on_painter)

lemma dpms_notify_on_keeps: "good evdi \<Longrightarrow> keeps [] evdi (dpms_notify_on env i m evdi)"
  unfolding dpms_notify_on_def by (rule dpms.keeps_on_painter)

lemma mark_if_clean_keeps: "good evdi \<Longrightarrow> keeps [] evdi (mark_if_clean fb evdi)"
  by (simp add: mark_if_clean_def mark_on_keeps)

lemma fold_marks_keeps: "good evdi \<Longrightarrow> keeps [] evdi (fold (\<lambda>r. mark_on (clip_of r)) rs evdi)"
proof (induction rs arbitrary: evdi)
  case (Cons r rs)
  show ?case
    by (simp, rule keeps_then [OF Cons.prems mark_on_keeps Cons.IH])
qed simp

lemma if_keeps: "good evdi \<Longrightarrow> (good evdi \<Longrightarrow> keeps [] evdi a) \<Longrightarrow> keeps [] evdi (if b then a else evdi)"
  by simp

text \<open>The three stages of a primary plane update.\<close>

definition plane_power :: "commit_env \<Rightarrow> plane_state \<Rightarrow> plane_state \<Rightarrow> evdi_device \<Rightarrow> evdi_device" where
  "plane_power env old st evdi =
     (if ps_crtc old = None \<and> ps_crtc st \<noteq> None then dpms_notify_on env 0 DRM_MODE_DPMS_ON evdi
      else if ps_crtc old \<noteq> None \<and> ps_crtc st = None then dpms_notify_on env 0 DRM_MODE_DPMS_OFF evdi
      else evdi)"

definition plane_force :: "plane_state \<Rightarrow> plane_state \<Rightarrow> evdi_framebuffer \<Rightarrow> evdi_device \<Rightarrow> evdi_device" where
  "plane_force old st fb evdi =
     (let e2 = (if ps_fb old = None \<and> ps_crtc st \<noteq> None then force_modeset_on evdi else evdi)
      in case ps_fb old of
          None \<Rightarrow> e2
        | Some old_fb \<Rightarrow> if fb_format fb \<noteq> fb_format old_fb then force_modeset_on e2 else e2)"

definition plane_show :: "evdi_framebuffer \<Rightarrow> drm_rect list \<Rightarrow> evdi_device \<Rightarrow> evdi_device" where
  "plane_show fb rects evdi =
     fold (\<lambda>r. mark_on (clip_of r)) rects (on_painter (evdi_painter_set_scanout_buffer (Some fb)) evdi)"

lemma plane_update_eq:
  "evdi_plane_atomic_update env old state rects evdi =
     (case state of
        None \<Rightarrow> Ret evdi
      | Some st \<Rightarrow>
          (case ps_fb st of
             None \<Rightarrow> Ret (plane_power env old st evdi)
           | Some fb \<Rightarrow>
               let e3 = plane_force old st fb (plane_power env old st evdi)
               in if map_option fb_id (ps_fb old) \<noteq> Some (fb_id fb) \<or>
                     evdi_painter_needs_full_modeset (painter e3)
                  then (case painter e3 of
                          None \<Rightarrow> Oops
                        | Some _ \<Rightarrow> Ret (mark_if_clean fb (plane_show fb rects e3)))
                  else Ret (mark_if_clean fb e3)))"
  unfolding evdi_plane_atomic_update_def plane_power_def plane_force_def plane_show_def Let_def
  by (rule refl)

lemma plane_power_keeps: "good evdi \<Longrightarrow> keeps [] evdi (plane_power env old st evdi)"
  by (simp add: plane_power_def dpms_notify_on_keeps)

lemma plane_force_keeps: "good evdi \<Longrightarrow> keeps [] evdi (plane_force old st fb evdi)"
  by (simp add: plane_force_def Let_def force_modeset_on_keeps split: option.split)

lemma plane_show_keeps: "good evdi \<Longrightarrow> keeps [] evdi (plane_show fb rects evdi)"
  unfolding plane_show_def
  by (rule keeps_then [OF _ scanout.keeps_on_painter fold_marks_keeps])

lemma plane_update_keeps:
  assumes g: "good evdi" and u: "evdi_plane_atomic_update env old state rects evdi = Ret evdi'"
  shows "keeps [] evdi evdi'"
proof (cases state)
  case None
  then show ?thesis using u by (simp add: plane_update_eq)
next
  case (Some st)
  let ?e1 = "plane_power env old st evdi"
  have k1: "keeps [] evdi ?e1" by (rule plane_power_keeps [OF g])
  show ?thesis
  proof (cases "ps_fb st")
    case None
    then show ?thesis using u Some k1 by (simp add: plane_update_eq)
  next
    case fb: (Some fb)
    let ?e3 = "plane_force old st fb ?e1"
    have k3: "keeps [] evdi ?e3" by (rule keeps_then [OF g plane_power_keeps plane_force_keeps])
    consider "evdi' = mark_if_clean fb (plane_show fb rects ?e3)" | "evdi' = mark_if_clean fb ?e3"
      using u Some fb by (auto simp: plane_update_eq Let_def split: if_splits option.splits)
    then show ?thesis
    proof cases
      case 1
      then show ?thesis
        using keeps_then [OF keeps_good [OF k3 g] plane_show_keeps mark_if_clean_keeps] keeps_trans0 [OF k3]
        by simp
    next
      case 2
      then show ?thesis using keeps_trans0 [OF k3 mark_if_clean_keeps [OF keeps_good [OF k3 g]]] by simp
    qed
  qed
qed


lemma keeps_painter_trans:
  "keeps_painter p q cs \<Longrightarrow> (painter_inv q \<Longrightarrow> keeps_painter q r ds) \<Longrightarrow> keeps_painter p r (cs @ ds)"
  by (simp add: keeps_painter_def)

lemma keeps_painter_refl: "painter_inv p \<Longrightarrow> keeps_painter p p []"
  by (simp add: keeps_painter_def)

lemma send_event_keeps_painter:
  assumes "painter_inv p" and "evdi_painter_send_event reserve ev p = (p', cs)"
  shows "keeps_painter p p' cs"
  using send_event_keeps(1) [OF assms] .

lemma cursor_set_event_uncounted:
  "create_cursor_set_event handles hc ok objs c p = Ret (ev, cs) \<Longrightarrow> uncounted cs"
  by (auto simp: create_cursor_set_event_def evdi_painter_get_gem_handle_def Let_def
      split: if_splits option.splits outcome.splits)

lemma send_cursor_set_keeps:
  assumes "painter_inv p" and "evdi_painter_send_cursor_set handles hc reserve ok objs c p = Ret (p', cs)"
  shows "keeps_painter p p' cs"
proof -
  obtain ev c1 where e: "create_cursor_set_event handles hc ok objs c p = Ret (ev, c1)"
    using assms(2) by (auto simp: evdi_painter_send_cursor_set_def split: outcome.splits)
  obtain q c2 where q: "evdi_painter_send_event reserve ev p = (q, c2)" by fastforce
  have "p' = q" "cs = c1 @ c2"
    using assms(2) e q by (auto simp: evdi_painter_send_cursor_set_def)
  then show ?thesis
    using send_event_keeps [OF assms(1) q] cursor_set_event_uncounted [OF e]
    by (simp add: keeps_painterI)
qed

lemma cursor_events_keep:
  assumes "painter_inv p"
    and "(if b then evdi_painter_send_cursor_set h hc r1 ok1 objs c p else Ret (p, [])) = Ret (p1, cs1)"
    and "(if b' then evdi_painter_send_cursor_move r2 ok2 c p1 else (p1, [])) = (p2, cs2)"
  shows "keeps_painter p p2 (cs1 @ cs2)"
proof (rule keeps_painter_trans)
  show "keeps_painter p p1 cs1"
    using assms(1,2) send_cursor_set_keeps by (auto simp: keeps_painter_refl split: if_splits)
  show "keeps_painter p1 p2 cs2" if "painter_inv p1"
    using assms(3) that send_event_keeps_painter
    by (auto simp: evdi_painter_send_cursor_move_def keeps_painter_refl split: if_splits)
qed

lemma cursor_update_keeps:
  assumes g: "good evdi" and u: "evdi_cursor_atomic_update env old state evdi = Ret evdi'"
  shows "keeps [] evdi evdi'"
proof (cases state)
  case None
  then show ?thesis using u by (simp add: evdi_cursor_atomic_update_def)
next
  case (Some st)
  let ?e1 = "apply_cursor_state env old st evdi"
  have k1: "keeps [] evdi ?e1" by (rule apply_cursor_state_keeps)
  have g1: "good ?e1" by (rule keeps_good [OF k1 g])
  have marks: "keeps [] evdi (mark_on a (mark_on b ?e1))" "keeps [] evdi (mark_on a ?e1)" for a b
    using keeps_trans0 [OF k1 keeps_then [OF g1 mark_on_keeps mark_on_keeps]]
      keeps_trans0 [OF k1 mark_on_keeps [OF g1]] by auto
  show ?thesis
  proof (cases "cursor_events_enabled ?e1")
    case False
    then show ?thesis
      using u Some k1 marks
      by (auto simp: evdi_cursor_atomic_update_def Let_def split: option.splits if_splits)
  next
    case True
    show ?thesis
    proof (cases "painter ?e1")
      case None
      then show ?thesis
        using u Some True k1
        by (auto simp: evdi_cursor_atomic_update_def Let_def split: if_splits)
    next
      case p: (Some p)
      let ?b = "map_option fb_id (cp_fb st) \<noteq> map_option fb_id (cp_fb old)"
        and ?b' = "evdi_cursor_position (cursor evdi) \<noteq> (cp_x st, cp_y st)"
      let ?s = "if ?b then evdi_painter_send_cursor_set (me_handles env) (me_handle_create env)
          (me_reserve env 0) (me_ok env 0) (gems ?e1) (cursor ?e1) p else Ret (p, [])"
      obtain p1 cs1 where s: "?s = Ret (p1, cs1)"
        using u Some True p by (fastforce simp: evdi_cursor_atomic_update_def Let_def split: outcome.splits)
      obtain p2 cs2 where m: "(if ?b' then evdi_painter_send_cursor_move (me_reserve env 1) (me_ok env 1)
          (cursor ?e1) p1 else (p1, [])) = (p2, cs2)" by fastforce
      have e: "evdi' = emit (cs1 @ cs2) (?e1\<lparr>painter := Some p2\<rparr>)"
        using u unfolding evdi_cursor_atomic_update_def Some option.case Let_def p s outcome.case prod.case m
        using True by simp
      show ?thesis
        unfolding e
        by (rule keeps_trans0 [OF k1 keeps_painter_device [OF p _ g1]])
          (rule cursor_events_keep [OF _ s m])
    qed
  qed
qed

lemma set_vblank_keeps:
  assumes "good evdi" and "evdi_painter_set_vblank (Some crt) vbl (painter evdi) = (p', cs)"
  shows "keeps (pair_held (Some crt) vbl) evdi (emit cs (evdi\<lparr>painter := p'\<rparr>))"
proof (cases "painter evdi")
  case None
  then show ?thesis
    using assms
    by (auto simp: evdi_painter_set_vblank_def keeps_def good_def fb_owed_def gem_owed_def vblanks_def
        emit_def)
next
  case (Some p)
  let ?p1 = "p\<lparr>crtc := None, vblank := None\<rparr>"
  have n: "pair_held None None = []" by (simp add: pair_held_def)
  have i: "painter_inv p" using assms(1) Some by (simp add: good_def)
  show ?thesis
  proof (cases "0 < num_dirts p \<and> is_connected p")
    case True
    then have e: "p' = Some (?p1\<lparr>crtc := Some crt, vblank := vbl\<rparr>)" "cs = evdi_send_vblank (crtc p) (vblank p)"
      using assms(2) Some by (auto simp: evdi_painter_set_vblank_def evdi_painter_send_vblank_def)
    have "painter_inv (?p1\<lparr>crtc := Some crt, vblank := vbl\<rparr>)"
      using i True by (auto simp: inv_defs dirts_ok_def ddcci_ok_def)
    then show ?thesis
      using Some unfolding e
      by (simp add: keeps_def good_def fb_owed_def gem_owed_def vblanks_def emit_def shows_fb_def held_def)
  next
    case False
    then have e: "p' = Some ?p1" "cs = evdi_send_vblank (crtc p) (vblank p) @ evdi_send_vblank (Some crt) vbl"
      using assms(2) Some by (auto simp: evdi_painter_set_vblank_def evdi_painter_send_vblank_def)
    have "painter_inv ?p1"
      using i by (auto simp: inv_defs dirts_ok_def ddcci_ok_def)
    then show ?thesis
      using Some n unfolding e
      by (simp add: keeps_def good_def fb_owed_def gem_owed_def vblanks_def emit_def shows_fb_def held_def)
  qed
qed

lemma flush_keeps:
  assumes g: "good evdi" and f: "evdi_crtc_atomic_flush env crt cs evdi = (evdi', cs')"
  shows "keeps (pair_held (Some crt) (cs_event cs)) evdi evdi'"
proof -
  let ?full = "evdi_painter_needs_full_modeset (painter evdi)"
  let ?e1 = "if cs_active cs \<and> (cs_mode_changed cs \<or> ?full)
      then on_painter (evdi_painter_mode_changed_notify (me_reserve env 0) (me_ok env 0)
             (cs_adjusted_mode cs)) evdi else evdi"
  let ?e2 = "if cs_active_changed cs \<or> ?full
      then dpms_notify_on env 1 (if cs_active cs then DRM_MODE_DPMS_ON else DRM_MODE_DPMS_OFF) ?e1
      else ?e1"
  have k1: "keeps [] evdi ?e1" using g by (simp add: mode_changed.keeps_on_painter)
  have k2: "keeps [] evdi ?e2"
    using keeps_trans0 [OF k1 dpms_notify_on_keeps [OF keeps_good [OF k1 g]]] k1
    by (simp only: split: if_split) blast
  obtain p3 vcalls where v: "evdi_painter_set_vblank (Some crt) (cs_event cs) (painter ?e2) = (p3, vcalls)"
    by fastforce
  let ?e3 = "emit vcalls (?e2\<lparr>painter := p3\<rparr>)"
  have k3: "keeps (pair_held (Some crt) (cs_event cs)) evdi ?e3"
    by (rule keeps_trans0 [OF k2 set_vblank_keeps [OF keeps_good [OF k2 g] v]])
  have e: "evdi' = on_painter (evdi_painter_send_update_ready_if_needed (me_reserve env 2) (me_ok env 2)) ?e3"
    using f unfolding evdi_crtc_atomic_flush_def Let_def v prod.case by (simp only: prod.inject)
  show ?thesis
    using keeps_trans [OF k3 update_ready.keeps_on_painter [OF keeps_good [OF k3 g]]] unfolding e by simp
qed

end
