(* ===== verification/Evdi_System.thy ===== *)
theory Evdi_System
  imports Evdi_Device
begin

text \<open>
  The driver as a transition system. A state is the device together with the operations that are
  between two of their locked sections: grabs that copy pixels, and the I2C transfer that waits for
  the client. A step is one locked section, or one operation that runs under the locks of the DRM
  core, with any answer of the kernel and of user space; so the runs of the system are all
  interleavings of clients, compositor, delayed work, console and I2C bus.
\<close>

section \<open>Steps\<close>

text \<open>
  \<open>armed\<close> is a history: the vertical blank events the compositor has handed to the driver, with
  their CRTC.
\<close>

record system =
  dev :: evdi_device
  grabs :: "(drm_evdi_grabpix \<times> grab) list"
  waiting :: "i2c_msg option"
  armed :: "(nat \<times> nat) list"

text \<open>\<open>kzalloc\<close> zeroes the device; the painter and the cursor are then made.\<close>

definition zero_device :: "gem_store \<Rightarrow> evdi_device" where
  "zero_device g = \<lparr>painter = None, cursor = zero_cursor, cursor_events_enabled = False,
     pixel_area_limit = 0, pixel_per_second_limit = 0, i2c_adapter = False, gems = g, calls = []\<rparr>"

definition initial :: "gem_store \<Rightarrow> system" where
  "initial g = \<lparr>dev = snd (evdi_painter_init True (zero_device g)), grabs = [], waiting = None, armed = []\<rparr>"

inductive dev_step :: "evdi_device \<Rightarrow> evdi_device \<Rightarrow> bool" where
  connect: "copy_from_user_ok cfu \<Longrightarrow>
     evdi_painter_connect_ioctl cfu ok add_ok mem cmd filp evdi = (r, evdi') \<Longrightarrow> dev_step evdi evdi'"
| close: "dev_step evdi (evdi_painter_close filp evdi)"
| request: "painter evdi = Some p \<Longrightarrow> evdi_painter_request_update_ioctl (Some p) = (r, q) \<Longrightarrow>
     dev_step evdi (evdi\<lparr>painter := q\<rparr>)"
| response: "copy_from_user_ok cfu \<Longrightarrow> painter evdi = Some p \<Longrightarrow>
     evdi_painter_ddcci_response_ioctl cfu ok mem resp p = (r, p') \<Longrightarrow>
     dev_step evdi (evdi\<lparr>painter := Some p'\<rparr>)"
| cursor_events: "dev_step evdi (evdi_painter_enable_cursor_events_ioctl enable evdi)"
| work: "painter evdi = Some p \<Longrightarrow> send_events_work p \<Longrightarrow>
     dev_step evdi (on_painter (evdi_send_events_work reserve) evdi)"
| vt: "dev_step evdi (on_painter (evdi_painter_vt_notifier_call reserve ok console) evdi)"
| plane: "evdi_plane_atomic_update env old state rects evdi = Ret evdi' \<Longrightarrow> dev_step evdi evdi'"
| cursor_plane: "evdi_cursor_atomic_update env old_cursor cursor_state evdi = Ret evdi' \<Longrightarrow>
     dev_step evdi evdi'"

inductive sys_step :: "system \<Rightarrow> system \<Rightarrow> bool" where
  device: "dev_step (dev s) evdi' \<Longrightarrow> sys_step s (s\<lparr>dev := evdi'\<rparr>)"
| flush: "evdi_crtc_atomic_flush env crt cs (dev s) = (evdi', cs') \<Longrightarrow>
     sys_step s (s\<lparr>dev := evdi', armed := armed s @ pair_held (Some crt) (cs_event cs)\<rparr>)"
| grab_begin: "painter (dev s) = Some p \<Longrightarrow> 1 \<le> num_rects cmd \<Longrightarrow>
     grabpix_take cmd p = (Inr g, cmd', p', cs) \<Longrightarrow>
     sys_step s (s\<lparr>dev := emit cs ((dev s)\<lparr>painter := Some p'\<rparr>), grabs := (cmd', g) # grabs s\<rparr>)"
| grab_fails: "painter (dev s) = Some p \<Longrightarrow> 1 \<le> num_rects cmd \<Longrightarrow>
     grabpix_take cmd p = (Inl e, cmd', p', cs) \<Longrightarrow>
     sys_step s (s\<lparr>dev := emit cs ((dev s)\<lparr>painter := Some p'\<rparr>)\<rparr>)"
| grab_end: "grabs s = before @ (cmd, g) # after \<Longrightarrow>
     grabpix_copy env cmd g (cursor (dev s)) (cursor_events_enabled (dev s)) (gems (dev s)) mem
       = Ret (err, objs, mem') \<Longrightarrow>
     sys_step s (s\<lparr>dev := emit (grabpix_end g) ((dev s)\<lparr>gems := objs\<rparr>), grabs := before @ after\<rparr>)"
| ddcci_begin: "painter (dev s) = Some p \<Longrightarrow> is_connected p \<Longrightarrow> msg_addr msg = I2C_ADDRESS_DDCCI \<Longrightarrow>
     waiting s = None \<Longrightarrow>
     sys_step s (s\<lparr>dev := on_painter (ddcci_send reserve ok msg) (dev s), waiting := Some msg\<rparr>)"
| ddcci_end: "waiting s = Some msg \<Longrightarrow>
     sys_step s (s\<lparr>dev := on_painter (\<lambda>p. (snd (ddcci_receive interrupted msg p), [])) (dev s),
       waiting := None\<rparr>)"

inductive_cases dev_stepE: "dev_step evdi evdi'"
inductive_cases sys_stepE: "sys_step s s'"

inductive reachable :: "system \<Rightarrow> bool" where
  start: "reachable (initial g)"
| step: "reachable s \<Longrightarrow> sys_step s s' \<Longrightarrow> reachable s'"

section \<open>The invariant of the system\<close>

definition grabs_fb :: "system \<Rightarrow> nat \<Rightarrow> int" where
  "grabs_fb s a = int (count_list (map (\<lambda>(_, g). fb_id (g_fb g)) (grabs s)) a)"

definition grabs_held :: "system \<Rightarrow> nat \<times> nat \<Rightarrow> int" where
  "grabs_held s cv = int (count_list (concat (map (\<lambda>(_, g). pair_held (g_crtc g) (g_vblank g)) (grabs s))) cv)"

definition sys_inv :: "system \<Rightarrow> bool" where
  "sys_inv s \<longleftrightarrow> good (dev s) \<and> (\<forall>a. fb_owed (dev s) a = grabs_fb s a) \<and> (\<forall>a. gem_owed (dev s) a = 0) \<and>
     (\<forall>cv. vblanks (dev s) cv + grabs_held s cv = int (count_list (armed s) cv))"

lemma keeps_painter_only:
  "painter evdi = Some p \<Longrightarrow> (painter_inv p \<Longrightarrow> keeps_painter p p' []) \<Longrightarrow> good evdi \<Longrightarrow>
     keeps [] evdi (evdi\<lparr>painter := Some p'\<rparr>)"
  using keeps_painter_device [of evdi p p' "[]"] by simp

lemma dev_step_keeps:
  assumes "dev_step evdi evdi'" and "good evdi"
  shows "keeps [] evdi evdi'"
  using assms
proof (induction rule: dev_step.induct)
  case (request evdi p r q)
  let ?q = "the (snd (evdi_painter_request_update_ioctl (Some p)))"
  have q: "q = Some ?q"
    using request(2) by (cases q) (auto simp: evdi_painter_request_update_ioctl_def split: if_splits)
  show ?case
    by (subst q, rule keeps_painter_only [OF request(1) _ request(3)]) (rule request.op_keeps, simp_all)
next
  case (response cfu evdi p ok mem resp r p')
  then show ?case using response_keeps by (auto intro!: keeps_painter_only)
qed (auto simp: evdi_painter_enable_cursor_events_ioctl_def close_keeps connect_ioctl_keeps
  plane_update_keeps cursor_update_keeps events_work.keeps_on_painter vt.keeps_on_painter)


text \<open>What the locked section of a grab takes from the painter.\<close>

lemma prepared_sel:
  "conn_ok (prepared cmd p) = conn_ok p" "edid_ok (prepared cmd p) = edid_ok p"
  "work_ok (prepared cmd p) = work_ok p" "ddcci_ok (prepared cmd p) = ddcci_ok p"
  "drm_device (prepared cmd p) = drm_device p" "is_connected (prepared cmd p) = is_connected p"
  by (auto simp: prepared_def Let_def reduce_dirts_def conn_ok_def edid_ok_def work_ok_def ddcci_ok_def
      split: prod.splits)

lemma grab_fails_keeps:
  assumes "painter_inv p" and "1 \<le> num_rects cmd" and "grabpix_take cmd p = (Inl e, cmd', p', cs)"
  shows "keeps_painter p p' cs"
proof -
  have d: "dirts_ok p" using assms(1) by (simp add: painter_inv_def)
  have p': "p' = prepared cmd p" "cs = []"
    using assms(3) dirts_okD(1) [OF d] by (auto simp: grabpix_take_eq split: option.splits)
  have "painter_inv p'"
    using assms(1) prepared_ok(1) [OF d assms(2)] prepared_pos [OF d, of cmd]
    by (auto simp: p' painter_inv_def vblank_ok_def prepared_sel prepared_scanout)
  then show ?thesis by (rule keeps_painterI) (simp_all add: p' prepared_scanout)
qed

lemma grab_begin_takes:
  assumes "painter_inv p" and "1 \<le> num_rects cmd" and "grabpix_take cmd p = (Inr g, cmd', p', cs)"
  shows "painter_inv p'" "cs = [FbGet (fb_id (g_fb g))]" "scanout_fb p' = scanout_fb p"
    "pair_held (g_crtc g) (g_vblank g) = pair_held (crtc p) (vblank p)"
    "pair_held (crtc p') (vblank p') = []"
proof -
  have d: "dirts_ok p" using assms(1) by (simp add: painter_inv_def)
  have p': "p' = (prepared cmd p)\<lparr>num_dirts := 0, crtc := None, vblank := None\<rparr>"
    and g: "cs = [FbGet (fb_id (g_fb g))]" "g_crtc g = crtc p" "g_vblank g = vblank p"
    using assms(3) dirts_okD(1) [OF d] by (auto simp: grabpix_take_eq split: option.splits)
  have sel: "conn_ok p' = conn_ok p" "edid_ok p' = edid_ok p" "work_ok p' = work_ok p"
    "ddcci_ok p' = ddcci_ok p" "drm_device p' = drm_device p"
    using prepared_sel [of cmd p] by (simp_all add: p' conn_ok_def edid_ok_def work_ok_def ddcci_ok_def)
  show "painter_inv p'"
    using assms(1) sel grabpix_take_contract(6) [OF d assms(2,3)]
    by (simp add: painter_inv_def) (simp add: p' vblank_ok_def)
  show "cs = [FbGet (fb_id (g_fb g))]" "scanout_fb p' = scanout_fb p"
    "pair_held (g_crtc g) (g_vblank g) = pair_held (crtc p) (vblank p)"
    "pair_held (crtc p') (vblank p') = []"
    by (simp_all add: g p' prepared_scanout) (simp add: pair_held_def)
qed

lemma keeps_sys:
  assumes "sys_inv s" and "keeps new (dev s) e" and "grabs s' = grabs s" and "dev s' = e"
    and "armed s' = armed s @ new"
  shows "sys_inv s'"
  using assms
  by (simp add: sys_inv_def keeps_def grabs_fb_def grabs_held_def count_list_append algebra_simps)

lemma grabpix_end_account:
  "fb_refs_taken (grabpix_end g) a = - of_bool (fb_id (g_fb g) = a)"
  "gem_refs_taken (grabpix_end g) a = 0"
  "vblanks_sent (grabpix_end g) cv = int (count_list (pair_held (g_crtc g) (g_vblank g)) cv)"
proof -
  have "fb_refs_taken [FbPut b] a = - of_bool (b = a)" "gem_refs_taken [FbPut b] a = 0"
    "vblanks_sent [FbPut b] cv = 0" for b
    by (simp_all add: fb_refs_taken_def gem_refs_taken_def vblanks_sent_def)
  then show "fb_refs_taken (grabpix_end g) a = - of_bool (fb_id (g_fb g) = a)"
    "gem_refs_taken (grabpix_end g) a = 0"
    "vblanks_sent (grabpix_end g) cv = int (count_list (pair_held (g_crtc g) (g_vblank g)) cv)"
    unfolding grabpix_end_def by simp_all
qed

lemma sys_inv_good: "sys_inv s \<Longrightarrow> good (dev s)"
  by (simp add: sys_inv_def)

lemma sys_step_inv:
  assumes "sys_step s s'" and "sys_inv s"
  shows "sys_inv s'"
  using assms
proof (induction rule: sys_step.induct)
  case (device s evdi')
  show ?case
    by (rule keeps_sys [OF device(2) dev_step_keeps [OF device(1) sys_inv_good [OF device(2)]]]) simp_all
next
  case (flush env crt cs s evdi' cs')
  show ?case
    by (rule keeps_sys [OF flush(2) flush_keeps [OF sys_inv_good [OF flush(2)] flush(1)]]) simp_all
next
  case (grab_begin s p cmd g cmd' p' cs)
  have i: "painter_inv p" using grab_begin by (simp add: sys_inv_def good_def)
  have a: "fb_refs_taken [FbGet b] a = of_bool (b = a)" "gem_refs_taken [FbGet b] a = 0"
    "vblanks_sent [FbGet b] cv = 0" for a b cv
    by (simp_all add: fb_refs_taken_def gem_refs_taken_def vblanks_sent_def)
  show ?case
    using grab_begin(1,4) grab_begin_takes [OF i grab_begin(2,3)]
    by (auto simp: sys_inv_def good_def fb_owed_def gem_owed_def vblanks_def emit_def grabs_fb_def
        grabs_held_def shows_fb_def held_def count_list_append a add.assoc)
next
  case (grab_fails s p cmd e cmd' p' cs)
  have "keeps [] (dev s) (emit cs ((dev s)\<lparr>painter := Some p'\<rparr>))"
    using grab_fails by (intro keeps_painter_device) (auto simp: sys_inv_def intro: grab_fails_keeps)
  then show ?case using grab_fails(4) by (auto intro: keeps_sys)
next
  case (grab_end s before cmd g after env mem err objs mem')
  let ?e = "emit (grabpix_end g) ((dev s)\<lparr>gems := objs\<rparr>)"
  let ?s = "s\<lparr>dev := ?e, grabs := before @ after\<rparr>" and ?h = "pair_held (g_crtc g) (g_vblank g)"
  have "grabs_fb s a = grabs_fb ?s a + of_bool (fb_id (g_fb g) = a)"
      "grabs_held s cv = grabs_held ?s cv + int (count_list ?h cv)"
      "fb_owed ?e a = fb_owed (dev s) a - of_bool (fb_id (g_fb g) = a)"
      "gem_owed ?e a = gem_owed (dev s) a"
      "vblanks ?e cv = vblanks (dev s) cv + int (count_list ?h cv)" for a cv
    using grab_end(1)
    by (simp_all add: grabs_fb_def grabs_held_def count_list_append fb_owed_def gem_owed_def vblanks_def
        emit_def grabpix_end_account)
  moreover have "good ?e = good (dev s)" by (simp add: good_def emit_def)
  ultimately show ?case using grab_end(3) by (auto simp: sys_inv_def algebra_simps)
next
  case (ddcci_begin s p msg reserve ok)
  have "keeps [] (dev s) (on_painter (ddcci_send reserve ok msg) (dev s))"
    using ddcci_begin(5) by (intro ddcci.keeps_on_painter) (simp add: sys_inv_def)
  then show ?case using ddcci_begin(5) by (auto intro: keeps_sys)
next
  case (ddcci_end s msg interrupted)
  have "keeps [] (dev s) (on_painter (\<lambda>p. (snd (ddcci_receive interrupted msg p), [])) (dev s))"
    using ddcci_end(2) by (intro ddcci_end.keeps_on_painter) (simp add: sys_inv_def)
  then show ?case using ddcci_end(2) by (auto intro: keeps_sys)
qed

lemma fresh_painter_inv: "painter_inv fresh_painter"
  using fresh_painter_dirts(1)
  by (simp add: inv_defs ddcci_ok_def) (simp add: fresh_painter_def DDCCI_BUFFER_SIZE_def)

lemma initial_inv: "sys_inv (initial g)"
  by (simp add: sys_inv_def initial_def zero_device_def evdi_painter_init_def emit_def good_def
      fresh_painter_inv fb_owed_def gem_owed_def vblanks_def shows_fb_def held_def grabs_fb_def
      grabs_held_def fb_refs_taken_def gem_refs_taken_def vblanks_sent_def)
    (simp add: fresh_painter_def zero_cursor_def pair_held_def)

lemma reachable_inv: "reachable s \<Longrightarrow> sys_inv s"
  by (induction rule: reachable.induct) (simp_all add: initial_inv sys_step_inv)


section \<open>A run\<close>

text \<open>
  A client connects, the compositor shows a framebuffer and flushes with the vertical blank event 9
  of CRTC 1.
\<close>

definition sample_connect :: drm_evdi_connect where
  "sample_connect = \<lparr>connected = 1, conn_edid = 0x5000, conn_edid_length = 128,
     conn_pixel_area_limit = 0, conn_pixel_per_second_limit = 0\<rparr>"

definition sample_commit :: commit_env where
  "sample_commit = \<lparr>me_reserve = (\<lambda>_ _ _. True), me_ok = (\<lambda>_. True), me_console = 1,
     me_vmap = ge_vmap sample_env, me_handles = (\<lambda>_. []), me_handle_create = Inr 1\<rparr>"

definition sample_crtc :: crtc_state where
  "sample_crtc = \<lparr>cs_active = True, cs_mode_changed = True, cs_active_changed = True,
     cs_adjusted_mode = \<lparr>hdisplay = 2, vdisplay = 2, vrefresh = 60\<rparr>, cs_event = Some 9\<rparr>"

definition run_connect :: "evdi_device \<Rightarrow> evdi_device" where
  "run_connect evdi = snd (evdi_painter_connect_ioctl user_load True True (\<lambda>_. 0) sample_connect 3 evdi)"

definition run_show :: "evdi_device \<Rightarrow> evdi_device" where
  "run_show evdi =
     (case evdi_plane_atomic_update sample_commit \<lparr>ps_crtc = None, ps_fb = None\<rparr>
        (Some \<lparr>ps_crtc = Some 1, ps_fb = Some sample_fb\<rparr>) [] evdi of Oops \<Rightarrow> evdi | Ret e \<Rightarrow> e)"

definition run_flush :: "evdi_device \<Rightarrow> evdi_device" where
  "run_flush evdi = fst (evdi_crtc_atomic_flush sample_commit 1 sample_crtc evdi)"

definition sample_start :: evdi_device where
  "sample_start = dev (initial (\<lambda>_. sample_object))"

definition sample_system :: system where
  "sample_system = \<lparr>dev = run_flush (run_show (run_connect sample_start)), grabs = [], waiting = None,
     armed = [(1, 9)]\<rparr>"

lemma sample_connected_reachable:
  "reachable ((initial (\<lambda>_. sample_object))\<lparr>dev := run_connect sample_start\<rparr>)"
proof (rule reachable.step [OF reachable.start sys_step.device])
  show "dev_step (dev (initial (\<lambda>_. sample_object))) (run_connect sample_start)"
    unfolding run_connect_def sample_start_def
    by (rule dev_step.connect [OF user_load_ok prod.collapse [symmetric]])
qed

lemma sample_reachable: "reachable sample_system"
proof -
  have s2: "dev_step e (run_show e) \<or> run_show e = e" for e
    unfolding run_show_def by (auto split: outcome.splits intro: dev_step.plane)
  note r1 = sample_connected_reachable
  have r2: "reachable ((initial (\<lambda>_. sample_object))\<lparr>dev := run_show (run_connect sample_start)\<rparr>)"
    using s2 [of "run_connect sample_start"] r1 reachable.step [OF r1 sys_step.device] by auto
  have "sample_system = ((initial (\<lambda>_. sample_object))\<lparr>dev := run_show (run_connect sample_start)\<rparr>)
      \<lparr>dev := run_flush (run_show (run_connect sample_start)),
       armed := armed ((initial (\<lambda>_. sample_object))\<lparr>dev := run_show (run_connect sample_start)\<rparr>) @
         pair_held (Some 1) (cs_event sample_crtc)\<rparr>"
    by (simp add: sample_system_def initial_def sample_crtc_def pair_held_def)
  moreover have "reachable \<dots>"
    by (rule reachable.step [OF r2 sys_step.flush [where env = sample_commit]])
      (simp add: run_flush_def, rule prod.collapse [symmetric])
  ultimately show ?thesis by simp
qed

definition sample_edid :: "u8 list" where
  "sample_edid = replicate 128 0"

lemma sample_load: "user_load (\<lambda>_. 0) addr 128 = Some sample_edid"
  by (simp only: user_load_def sample_edid_def map_replicate_const length_upt diff_zero)

lemma MAX_EDID_SIZE_eq: "MAX_EDID_SIZE = 32768"
  by (simp add: MAX_EDID_SIZE_def)

lemmas run_defs = evdi_painter_connect_ioctl_def
  sample_connect_def sample_commit_def sample_crtc_def evdi_painter_connect_def sample_load
  evdi_add_i2c_adapter_def dpms_notify_on_def on_painter_def evdi_painter_dpms_notify_def
  force_modeset_on_def evdi_painter_send_dpms_def evdi_painter_send_event_def
  evdi_painter_flush_pending_events_def add_event_to_pending_list_def emit_def
  evdi_painter_force_full_modeset_def evdi_painter_needs_full_modeset_def
  evdi_painter_set_scanout_buffer_def mark_if_clean_def mark_on_def evdi_painter_get_num_dirts_def
  evdi_painter_mode_changed_notify_def evdi_painter_send_mode_changed_def
  evdi_painter_send_update_ready_if_needed_def evdi_painter_set_vblank_def
  evdi_painter_send_vblank_def

lemma sample_connected:
  "run_connect sample_start = sample_start
     \<lparr>painter := Some (fresh_painter\<lparr>drm_filp := Some 3, edid_length := 128,
        edid := Some (sample_edid), is_connected := True\<rparr>),
      i2c_adapter := True, calls := [VtRegister, I2cAdd, HpdIrq]\<rparr>"
  by (simp add: run_connect_def run_defs sample_start_def initial_def zero_device_def evdi_painter_init_def
      fresh_painter_def MAX_EDID_SIZE_eq)

definition shown_painter :: evdi_painter where
  "shown_painter = fresh_painter
     \<lparr>drm_filp := Some 3, edid_length := 128, edid := Some (sample_edid), is_connected := True,
      fg_console := 1, scanout_fb := Some sample_fb,
      dirty_rects := (dirty_rects fresh_painter)
        [0 := evdi_framebuffer_sanitize_rect sample_fb (fullscreen_rect sample_fb)],
      num_dirts := 1\<rparr>"

lemma sample_shown: "painter (run_show (run_connect sample_start)) = Some shown_painter"
  unfolding sample_connected
  by (simp add: sample_start_def initial_def zero_device_def evdi_painter_init_def
      shown_painter_def run_show_def run_defs fresh_painter_def evdi_plane_atomic_update_def
      evdi_painter_mark_dirty_def MAX_DIRTS_def)

lemma sample_system_painter:
  "painter (dev sample_system) =
     Some (shown_painter\<lparr>needs_full_modeset := False, crtc := Some 1, vblank := Some 9\<rparr>)"
proof -
  have p: "num_dirts shown_painter = 1" "is_connected shown_painter" "drm_filp shown_painter = Some 3"
    "drm_device shown_painter" "pending_events shown_painter = []" "\<not> send_events_work shown_painter"
    "\<not> was_update_requested shown_painter" "needs_full_modeset shown_painter"
    "scanout_fb shown_painter = Some sample_fb" "fg_console shown_painter = 1"
    by (simp_all add: shown_painter_def fresh_painter_def)
  show ?thesis
    by (simp add: sample_system_def run_flush_def evdi_crtc_atomic_flush_def sample_shown sample_crtc_def
      sample_commit_def run_defs p)
qed

section \<open>Properties\<close>

lemma reachable_painter:
  assumes "reachable s" and "painter (dev s) = Some p"
  shows "painter_inv p"
  using reachable_inv [OF assms(1)] assms(2) by (simp add: sys_inv_def good_def)



text \<open>
  C6: every vertical blank event the compositor has handed over is, at every moment, in exactly one
  place: sent to the DRM core once, held by the painter, or carried by a running grab.
\<close>

theorem vblank_exactly_once:
  assumes "reachable s" and "painter (dev s) = Some p"
  shows "count_list (calls (dev s)) (SendVblank c v) + count_list (pair_held (crtc p) (vblank p)) (c, v) +
      count_list (concat (map (\<lambda>(_, g). pair_held (g_crtc g) (g_vblank g)) (grabs s))) (c, v)
    = count_list (armed s) (c, v)"
proof -
  have "vblanks (dev s) (c, v) + grabs_held s (c, v) = int (count_list (armed s) (c, v))"
    using reachable_inv [OF assms(1)] by (simp add: sys_inv_def)
  then show ?thesis
    using assms(2) by (simp add: vblanks_def vblanks_sent_def held_def grabs_held_def)
qed

theorem vblank_exactly_once_witness:
  "count_list (calls (dev sample_system)) (SendVblank 1 9) = 0 \<and> count_list (armed sample_system) (1, 9) = 1"
  using vblank_exactly_once [OF sample_reachable sample_system_painter, of 1 9]
  by (simp add: sample_system_def pair_held_def)

text \<open>
  C7: the driver's references balance: it holds one reference to the framebuffer it scans out, one
  for each running grab of it, and one to the cursor's object, and no other.
\<close>

theorem references_balanced:
  assumes "reachable s" and "painter (dev s) = Some p"
  shows "fb_refs_taken (calls (dev s)) a
      = of_bool (map_option fb_id (scanout_fb p) = Some a) +
        int (count_list (map (\<lambda>(_, g). fb_id (g_fb g)) (grabs s)) a) \<and>
    gem_refs_taken (calls (dev s)) b = of_bool (cur_obj (cursor (dev s)) = Some b)"
proof -
  have "fb_owed (dev s) a = grabs_fb s a" "gem_owed (dev s) b = 0"
    using reachable_inv [OF assms(1)] by (simp_all add: sys_inv_def)
  then show ?thesis
    using assms(2) by (simp add: fb_owed_def gem_owed_def shows_fb_def grabs_fb_def)
qed

theorem references_balanced_witness:
  "fb_refs_taken (calls (dev sample_system)) (fb_id sample_fb) = 1"
  using references_balanced [OF sample_reachable sample_system_painter, of "fb_id sample_fb" 0]
  by (simp add: sample_system_def shown_painter_def)

text \<open>The release callback of the DRM device: the calls it makes before the device is freed.\<close>

definition evdi_drm_device_release_cb :: "evdi_device \<Rightarrow> drm_call list" where
  "evdi_drm_device_release_cb evdi =
     evdi_cursor_free (Some (cursor evdi)) @ evdi_painter_cleanup (painter evdi)"

lemma uncounted_cons:
  assumes "\<not> counted_call x"
  shows "fb_refs_taken (x # cs) a = fb_refs_taken cs a" "gem_refs_taken (x # cs) a = gem_refs_taken cs a"
    "vblanks_sent (x # cs) cv = vblanks_sent cs cv"
  using assms by (auto simp: fb_refs_taken_def gem_refs_taken_def vblanks_sent_def)

lemma release_account:
  assumes "painter evdi = Some p"
  shows "fb_refs_taken (evdi_drm_device_release_cb evdi) a = - shows_fb p a"
    "gem_refs_taken (evdi_drm_device_release_cb evdi) a = - of_bool (cur_obj (cursor evdi) = Some a)"
    "vblanks_sent (evdi_drm_device_release_cb evdi) cv = held p cv"
proof -
  have r: "evdi_drm_device_release_cb evdi = gem_slot_calls (cur_obj (cursor evdi)) None @ [VtUnregister] @
      fb_slot_calls (map_option fb_id (scanout_fb p)) None @ evdi_send_vblank (crtc p) (vblank p) @
      map FreeEvent (pending_events p)"
    using assms
    by (simp add: evdi_drm_device_release_cb_def evdi_cursor_free_def evdi_cursor_set_gem_def
        evdi_painter_cleanup_def drop_scanout_eq evdi_painter_send_vblank_def
        evdi_painter_events_cleanup_def Let_def)
  show "fb_refs_taken (evdi_drm_device_release_cb evdi) a = - shows_fb p a"
    "gem_refs_taken (evdi_drm_device_release_cb evdi) a = - of_bool (cur_obj (cursor evdi) = Some a)"
    "vblanks_sent (evdi_drm_device_release_cb evdi) cv = held p cv"
    unfolding r using uncounted_zero [of "map FreeEvent (pending_events p)"]
    by (simp_all add: uncounted_cons shows_fb_def held_def)
qed

text \<open>
  C18: when the device is released from any reachable state in which no grab runs, every reference the
  driver ever took has been dropped and every vertical blank event it was handed has been sent.
\<close>

theorem release_drops_everything:
  assumes "reachable s" and "painter (dev s) = Some p" and "grabs s = []"
  shows "fb_refs_taken (calls (dev s) @ evdi_drm_device_release_cb (dev s)) a = 0 \<and>
    gem_refs_taken (calls (dev s) @ evdi_drm_device_release_cb (dev s)) b = 0 \<and>
    count_list (calls (dev s) @ evdi_drm_device_release_cb (dev s)) (SendVblank c v)
      = count_list (armed s) (c, v)"
proof -
  have i: "fb_owed (dev s) a = 0" "gem_owed (dev s) b = 0"
    "vblanks (dev s) (c, v) = int (count_list (armed s) (c, v))"
    using reachable_inv [OF assms(1)] assms(3) by (simp_all add: sys_inv_def grabs_fb_def grabs_held_def)
  have "vblanks_sent (calls (dev s) @ evdi_drm_device_release_cb (dev s)) (c, v)
      = int (count_list (armed s) (c, v))"
    using i(3) release_account(3) [OF assms(2), of "(c, v)"] assms(2) by (simp add: vblanks_def)
  then show ?thesis
    using i(1,2) release_account(1,2) [OF assms(2)] assms(2)
    by (simp add: fb_owed_def gem_owed_def vblanks_sent_def)
qed

theorem release_drops_everything_witness:
  "count_list (calls (dev sample_system) @ evdi_drm_device_release_cb (dev sample_system)) (SendVblank 1 9) = 1"
  using release_drops_everything [OF sample_reachable sample_system_painter, of 0 0 1 9]
  by (simp add: sample_system_def)




definition stalled_system :: system where
  "stalled_system = (initial (\<lambda>_. sample_object))\<lparr>dev :=
     (case evdi_plane_atomic_update (sample_commit\<lparr>me_reserve := \<lambda>_ _ _. False\<rparr>)
        \<lparr>ps_crtc = None, ps_fb = None\<rparr> (Some \<lparr>ps_crtc = Some 1, ps_fb = None\<rparr>) []
        (run_connect sample_start) of Oops \<Rightarrow> run_connect sample_start | Ret e \<Rightarrow> e)\<rparr>"

lemma stalled_reachable: "reachable stalled_system"
proof -
  have c: "reachable ((initial (\<lambda>_. sample_object))\<lparr>dev := run_connect sample_start\<rparr>)"
    by (rule sample_connected_reachable)
  show ?thesis
    unfolding stalled_system_def
    using c reachable.step [OF c sys_step.device [OF dev_step.plane]] by (auto split: outcome.splits)
qed


text \<open>
  Cursor events may be enabled by any client of the device, connected or not. When the compositor
  then shows a cursor, the driver looks the cursor's buffer up in the handle table of a client that
  does not exist: a NULL pointer is dereferenced in a reachable state.
\<close>

theorem cursor_event_without_client_oops:
  "\<exists>s. reachable s \<and>
     evdi_cursor_atomic_update sample_commit \<lparr>cp_fb = None, cp_x = 0, cp_y = 0, cp_w = 0, cp_h = 0\<rparr>
       (Some \<lparr>cp_fb = Some sample_fb, cp_x = 0, cp_y = 0, cp_w = 2, cp_h = 2\<rparr>) (dev s) = Oops"
proof (intro exI conjI)
  let ?s = "(initial (\<lambda>_. sample_object))\<lparr>dev :=
      evdi_painter_enable_cursor_events_ioctl 1 (dev (initial (\<lambda>_. sample_object)))\<rparr>"
  show "reachable ?s"
    by (rule reachable.step [OF reachable.start sys_step.device [OF dev_step.cursor_events]])
  show "evdi_cursor_atomic_update sample_commit \<lparr>cp_fb = None, cp_x = 0, cp_y = 0, cp_w = 0, cp_h = 0\<rparr>
       (Some \<lparr>cp_fb = Some sample_fb, cp_x = 0, cp_y = 0, cp_w = 2, cp_h = 2\<rparr>) (dev ?s) = Oops"
    by (simp add: evdi_cursor_atomic_update_def apply_cursor_state_def initial_def zero_device_def
        evdi_painter_init_def evdi_painter_enable_cursor_events_ioctl_def emit_def evdi_cursor_set_def
        evdi_cursor_set_gem_def evdi_cursor_enable_def evdi_cursor_move_def sample_fb_def
        sample_object_def evdi_painter_send_cursor_set_def create_cursor_set_event_def
        evdi_painter_get_gem_handle_def fresh_painter_def sample_commit_def Let_def)
qed

end
