(* ===== verification/Evdi_Session.thy ===== *)
theory Evdi_Session
  imports Evdi_System
begin

text \<open>
  The session of a client: what it learns from the events of the driver, the protocol of update
  requests, connecting with an EDID and disconnecting.
\<close>

section \<open>The stream of events\<close>

text \<open>
  What reaches the event queue of a painter that keeps its client: an event to send, or a run of the
  delayed work; with each, the space the DRM core grants while it runs.
\<close>

datatype delivery = Offer reserve drm_event | Work reserve

definition deliver :: "delivery \<Rightarrow> evdi_painter \<Rightarrow> evdi_painter \<times> drm_call list" where
  "deliver d p =
     (case d of
        Offer reserve e \<Rightarrow> evdi_painter_send_event reserve (Some e) p
      | Work reserve \<Rightarrow> evdi_send_events_work reserve p)"

definition offered :: "delivery list \<Rightarrow> drm_event list" where
  "offered ds = concat (map (\<lambda>d. case d of Offer _ e \<Rightarrow> [e] | Work _ \<Rightarrow> []) ds)"

fun deliver_all :: "delivery list \<Rightarrow> evdi_painter \<Rightarrow> evdi_painter \<times> drm_call list" where
  "deliver_all [] p = (p, [])"
| "deliver_all (d # ds) p =
     (let (p1, cs) = deliver d p; (p2, cs') = deliver_all ds p1 in (p2, cs @ cs'))"

text \<open>The events a sequence of calls sends to the client.\<close>

definition sent_events :: "drm_call list \<Rightarrow> drm_event list" where
  "sent_events cs = concat (map (\<lambda>c. case c of SendEvent _ e \<Rightarrow> [e] | _ \<Rightarrow> []) cs)"

lemma sent_events_simps [simp]:
  "sent_events [] = []" "sent_events (cs @ ds) = sent_events cs @ sent_events ds"
  "sent_events (map (SendEvent f) es) = es" "sent_events (map FreeEvent es) = []"
  by (simp_all add: sent_events_def comp_def)

definition has_client :: "evdi_painter \<Rightarrow> bool" where
  "has_client p \<longleftrightarrow> drm_filp p \<noteq> None \<and> drm_device p \<and> is_connected p"

text \<open>
  One delivery: what was waiting and what is offered becomes, up to squashing, what is sent followed
  by what waits. \<open>joined\<close> is the list before the flush.
\<close>

lemma deliver_joined:
  assumes "has_client p" and "deliver d p = (p', cs)"
  shows "has_client p' \<and> (\<exists>joined freed.
    (case d of Offer _ e \<Rightarrow> add_event_to_pending_list (pending_events p) e = (joined, freed)
     | Work _ \<Rightarrow> joined = pending_events p) \<and>
    sent_events cs @ pending_events p' = joined)"
proof (cases d)
  case (Offer reserve e)
  obtain lst freed where l: "add_event_to_pending_list (pending_events p) e = (lst, freed)" by fastforce
  obtain sent left where f: "flush_pending reserve 0 lst = (sent, left)" by fastforce
  have "sent @ left = lst" by (rule flush_pending_append [OF f])
  then show ?thesis
    using assms Offer l f
    by (auto simp: deliver_def evdi_painter_send_event_def evdi_painter_flush_pending_events_def
        has_client_def Let_def split: if_splits)
next
  case (Work reserve)
  obtain sent left where f: "flush_pending reserve 0 (pending_events p) = (sent, left)" by fastforce
  have "sent @ left = pending_events p" by (rule flush_pending_append [OF f])
  then show ?thesis
    using assms Work f
    by (auto simp: deliver_def evdi_send_events_work_def evdi_painter_flush_pending_events_def
        has_client_def Let_def split: if_splits)
qed

lemma deliver_view:
  assumes "has_client p" and "deliver d p = (p', cs)"
  shows "fold view_event (sent_events cs @ pending_events p') s
      = fold view_event (pending_events p @ offered [d]) s \<and>
    kept (sent_events cs @ pending_events p') = kept (pending_events p @ offered [d])"
proof -
  obtain joined freed where j: "case d of
       Offer _ e \<Rightarrow> add_event_to_pending_list (pending_events p) e = (joined, freed)
     | Work _ \<Rightarrow> joined = pending_events p" and "sent_events cs @ pending_events p' = joined"
    using deliver_joined [OF assms] by blast
  then show ?thesis
    using view.add_event_view [of "pending_events p"] kept_add_event [of "pending_events p"]
    by (auto simp: offered_def split: delivery.splits)
qed

lemma deliver_all_view:
  "has_client p \<Longrightarrow> deliver_all ds p = (p', cs) \<Longrightarrow>
     fold view_event (sent_events cs @ pending_events p') s
       = fold view_event (pending_events p @ offered ds) s \<and>
     kept (sent_events cs @ pending_events p') = kept (pending_events p @ offered ds)"
proof (induction ds arbitrary: p p' cs s)
  case Nil
  then show ?case by (simp add: offered_def)
next
  case (Cons d ds)
  obtain p1 c1 where 1: "deliver d p = (p1, c1)" by fastforce
  obtain p2 c2 where 2: "deliver_all ds p1 = (p2, c2)" by fastforce
  have e: "p' = p2" "cs = c1 @ c2" using Cons.prems(2) 1 2 by auto
  have o: "offered (d # ds) = offered [d] @ offered ds" by (simp add: offered_def)
  have c: "has_client p1" using deliver_joined [OF Cons.prems(1) 1] by blast
  have "fold view_event (sent_events c1 @ (sent_events c2 @ pending_events p2)) s
      = fold view_event (offered ds) (fold view_event (pending_events p1) (fold view_event (sent_events c1) s))"
    using Cons.IH [OF c 2, of "fold view_event (sent_events c1) s"] by simp
  also have "\<dots> = fold view_event (offered ds) (fold view_event (pending_events p @ offered [d]) s)"
    using deliver_view [OF Cons.prems(1) 1, of s] by simp
  finally have v: "fold view_event (sent_events cs @ pending_events p') s
      = fold view_event (pending_events p @ offered (d # ds)) s"
    by (simp add: e o)
  have "kept (sent_events cs @ pending_events p') = kept (sent_events c1) @ kept (pending_events p1 @ offered ds)"
    using Cons.IH [OF c 2] by (simp add: e)
  also have "\<dots> = kept (sent_events c1 @ pending_events p1) @ kept (offered ds)" by simp
  also have "\<dots> = kept (pending_events p @ offered (d # ds))"
    using deliver_view [OF Cons.prems(1) 1] by (simp add: o)
  finally show ?case using v by blast
qed

text \<open>
  C10: for every sequence of events offered to a connected client and of runs of the delayed work,
  whatever space the DRM core grants, the client ends up with the same view as if every event had been
  sent at once, once it has received what still waits; and the events that may not be squashed are
  sent, or wait, all of them and in the order they were offered.
\<close>

theorem squashing_is_invisible:
  assumes "has_client p" and "deliver_all ds p = (p', cs)"
  shows "fold view_event (sent_events cs @ pending_events p') s
      = fold view_event (pending_events p @ offered ds) s \<and>
    kept (sent_events cs @ pending_events p') = kept (pending_events p @ offered ds)"
  by (rule deliver_all_view [OF assms])

theorem squashing_is_invisible_witness:
  "case deliver_all [Offer (\<lambda>_ _. False) (CursorMove 1 2), Offer (\<lambda>_ _. True) (CursorMove 3 4),
       Offer (\<lambda>_ _. True) UpdateReady, Work (\<lambda>k _. k < 1)] shown_painter of
     (p', cs) \<Rightarrow> kept (sent_events cs @ pending_events p') = [UpdateReady]"
proof -
  let ?ds = "[Offer (\<lambda>_ _. False) (CursorMove 1 2), Offer (\<lambda>_ _. True) (CursorMove 3 4),
       Offer (\<lambda>_ _. True) UpdateReady, Work (\<lambda>k _. k < 1)]"
  obtain p' cs where d: "deliver_all ?ds shown_painter = (p', cs)" by fastforce
  have "has_client shown_painter" "pending_events shown_painter = []"
    by (simp_all add: has_client_def shown_painter_def fresh_painter_def)
  then show ?thesis
    using squashing_is_invisible [OF _ d] d by (simp add: offered_def is_evdi_event_squashable_def)
qed

section \<open>Update requests\<close>

text \<open>The sent or waiting events of a device after an operation.\<close>

definition gets_event :: "drm_event \<Rightarrow> evdi_painter \<Rightarrow> drm_call list \<Rightarrow> bool" where
  "gets_event e p cs \<longleftrightarrow> e \<in> set (sent_events cs) \<union> set (pending_events p)"

lemma send_event_gets:
  assumes "has_client p" and "evdi_painter_send_event reserve (Some e) p = (p', cs)"
  shows "gets_event e p' cs"
proof -
  have "deliver (Offer reserve e) p = (p', cs)" using assms(2) by (simp add: deliver_def)
  from deliver_joined [OF assms(1) this] obtain joined freed where
    j: "add_event_to_pending_list (pending_events p) e = (joined, freed)"
       "sent_events cs @ pending_events p' = joined" by auto
  have "e \<in> set joined"
    using last_add_event [of "pending_events p" e] add_event_nonempty [of "pending_events p" e] j(1)
    by (metis fst_conv last_in_set)
  then show ?thesis unfolding gets_event_def j(2) [symmetric] by simp
qed

text \<open>
  A client that asked for an update when there was no damage is told when there is some: the
  check at the end of a commit sends the update-ready event, or leaves it waiting, exactly when an
  update was requested and there is damage, and never leaves a request open beside damage.
\<close>

theorem update_ready_answers_request:
  assumes "has_client p" and "evdi_painter_send_update_ready_if_needed reserve True p = (p', cs)"
  shows "\<not> (was_update_requested p' \<and> num_dirts p' \<noteq> 0) \<and>
    (was_update_requested p \<and> num_dirts p \<noteq> 0 \<longrightarrow> gets_event UpdateReady p' cs) \<and>
    (\<not> (was_update_requested p \<and> num_dirts p \<noteq> 0) \<longrightarrow> p' = p \<and> cs = [])"
proof (cases "was_update_requested p \<and> num_dirts p \<noteq> 0")
  case True
  then obtain p1 where s: "evdi_painter_send_event reserve (Some UpdateReady) p = (p1, cs)"
      "p' = p1\<lparr>was_update_requested := False\<rparr>"
    using assms(2)
    by (auto simp: evdi_painter_send_update_ready_if_needed_def evdi_painter_send_update_ready_def
        split: prod.splits)
  have "gets_event UpdateReady p1 cs" by (rule send_event_gets [OF assms(1) s(1)])
  then show ?thesis using True s(2) by (simp add: gets_event_def)
next
  case False
  then show ?thesis using assms(2) by (auto simp: evdi_painter_send_update_ready_if_needed_def)
qed

theorem update_ready_answers_request_witness:
  "gets_event UpdateReady
     (fst (evdi_painter_send_update_ready_if_needed (\<lambda>_ _. True) True (shown_painter\<lparr>was_update_requested := True\<rparr>)))
     (snd (evdi_painter_send_update_ready_if_needed (\<lambda>_ _. True) True (shown_painter\<lparr>was_update_requested := True\<rparr>)))"
proof -
  let ?p = "shown_painter\<lparr>was_update_requested := True\<rparr>"
  have "has_client ?p" "num_dirts ?p \<noteq> 0" "was_update_requested ?p"
    by (simp_all add: has_client_def shown_painter_def fresh_painter_def)
  then show ?thesis
    using update_ready_answers_request [of ?p "\<lambda>_ _. True", OF _ prod.collapse [symmetric]] by blast
qed

text \<open>
  When the event cannot be allocated, the request is forgotten all the same: nothing is sent,
  nothing waits, and the client is never told.
\<close>

theorem update_ready_lost_without_memory:
  "\<exists>p. has_client p \<and> was_update_requested p \<and> num_dirts p \<noteq> 0 \<and>
     evdi_painter_send_update_ready_if_needed reserve False p = (p\<lparr>was_update_requested := False\<rparr>, [])"
proof (intro exI conjI)
  let ?p = "shown_painter\<lparr>was_update_requested := True\<rparr>"
  show "has_client ?p" "num_dirts ?p \<noteq> 0" "was_update_requested ?p"
    by (simp_all add: has_client_def shown_painter_def fresh_painter_def)
  then show "evdi_painter_send_update_ready_if_needed reserve False ?p = (?p\<lparr>was_update_requested := False\<rparr>, [])"
    by (simp add: evdi_painter_send_update_ready_if_needed_def evdi_painter_send_update_ready_def
        evdi_painter_send_event_def)
qed

section \<open>Connecting and disconnecting\<close>

lemma connect_cases:
  assumes "evdi_painter_connect cfu ok add_ok mem addr len al pl filp p evdi = (r, evdi')"
  shows "(\<exists>err. r = Inl err \<and> evdi' = evdi) \<or>
    (r = Inr () \<and> 128 \<le> unat len \<and> unat len \<le> MAX_EDID_SIZE \<and>
     (\<exists>e p'. cfu mem addr (unat len) = Some e \<and> painter evdi' = Some p' \<and> edid p' = Some e \<and>
       edid_length p' = len \<and> is_connected p' \<and> drm_filp p' = Some filp \<and> needs_full_modeset p' \<and>
       pixel_area_limit evdi' = al \<and> pixel_per_second_limit evdi' = pl))"
  using assms
  by (auto simp: evdi_painter_connect_def evdi_add_i2c_adapter_def emit_def Let_def
      split: if_splits option.splits)

text \<open>
  C20: connecting either fails and changes nothing, or the length of the EDID was valid, the client is
  the owner, and the EDID the connector later reads for its modes is the user's bytes, each of them.
\<close>

theorem connect_edid_roundtrip:
  assumes "copy_from_user_ok cfu"
    and "evdi_painter_connect cfu ok add_ok mem addr len al pl filp p evdi = (r, evdi')"
  shows "(\<exists>err. r = Inl err \<and> evdi' = evdi) \<or>
    (128 \<le> unat len \<and> unat len \<le> MAX_EDID_SIZE \<and>
     (\<exists>p'. painter evdi' = Some p' \<and> drm_filp p' = Some filp \<and> is_connected p' \<and>
       evdi_painter_get_edid_copy True p' = cfu mem addr (unat len)))"
proof -
  have get: "evdi_painter_get_edid_copy True p' = Some e"
    if "cfu mem addr (unat len) = Some e" "edid p' = Some e" "edid_length p' = len" "is_connected p'"
      "128 \<le> unat len" for e p'
  proof -
    have "len \<noteq> 0" using that(5) by auto
    then show ?thesis
      using that copy_from_user_length [OF assms(1) that(1)] by (simp add: evdi_painter_get_edid_copy_def)
  qed
  show ?thesis using connect_cases [OF assms(2)] get by metis
qed

theorem connect_edid_roundtrip_witness:
  "\<exists>p'. painter (run_connect sample_start) = Some p' \<and> evdi_painter_get_edid_copy True p' = Some sample_edid"
proof -
  obtain p where p: "painter sample_start = Some p"
    by (simp add: sample_start_def initial_def zero_device_def evdi_painter_init_def emit_def)
  let ?c = "evdi_painter_connect user_load True True (\<lambda>_. 0) 0x5000 128 0 0 3 p sample_start"
  have r: "run_connect sample_start = snd ?c"
    using p by (simp add: run_connect_def evdi_painter_connect_ioctl_def sample_connect_def)
  have "fst ?c = Inr ()"
    by (simp add: evdi_painter_connect_def MAX_EDID_SIZE_eq sample_load Let_def)
  then show ?thesis
    using connect_edid_roundtrip [OF user_load_ok prod.collapse [symmetric, of ?c]]
    by (auto simp: r sample_load)
qed

text \<open>
  Only the client that is connected can disconnect; the refused call changes nothing. When it
  does, the session is over on every side: no client, no events waiting, no work, no event held, no
  scanout buffer, no update request, no response buffer, no cursor buffer, cursor events off and the
  I2C adapter removed; what was waiting is freed and what was held is sent.
\<close>

theorem disconnect_ends_session:
  assumes "painter evdi = Some p" and "evdi_painter_disconnect filp p evdi = (r, evdi')"
  shows "if drm_filp p \<noteq> Some filp then r = Inl EFAULT \<and> evdi' = evdi
    else r = Inr () \<and> \<not> cursor_events_enabled evdi' \<and> \<not> i2c_adapter evdi' \<and> cur_obj (cursor evdi') = None \<and>
      (\<exists>p'. painter evdi' = Some p' \<and> \<not> is_connected p' \<and> drm_filp p' = None \<and> pending_events p' = [] \<and>
         \<not> send_events_work p' \<and> vblank p' = None \<and> scanout_fb p' = None \<and> \<not> was_update_requested p' \<and>
         ddcci_buffer p' = None) \<and>
      set (map FreeEvent (pending_events p) @ evdi_send_vblank (crtc p) (vblank p)) \<subseteq> set (calls evdi')"
  using assms
  by (cases "drm_filp p = Some filp"; cases "i2c_adapter evdi")
    (auto simp: evdi_painter_disconnect_def drop_scanout_eq evdi_painter_events_cleanup_def
      evdi_painter_send_vblank_def evdi_cursor_enable_def evdi_cursor_set_gem_def
      evdi_remove_i2c_adapter_def emit_def Let_def)

theorem disconnect_ends_session_witness:
  "fst (evdi_painter_disconnect 4 shown_painter (dev sample_system)) = Inl EFAULT"
proof -
  let ?p = "shown_painter\<lparr>needs_full_modeset := False, crtc := Some 1, vblank := Some 9\<rparr>"
  have n: "drm_filp shown_painter = Some 3" by (simp add: shown_painter_def)
  have "fst (evdi_painter_disconnect 4 ?p (dev sample_system)) = Inl EFAULT"
    using disconnect_ends_session [OF sample_system_painter prod.collapse [symmetric], of 4] n by simp
  then show ?thesis using n by (simp add: evdi_painter_disconnect_def)
qed

end
