(* ===== verification/Evdi_LibEvents.thy ===== *)
theory Evdi_LibEvents
  imports Evdi_Events
begin

text \<open>
  The events on the user's side, \<open>library/evdi_lib.c\<close>: the bytes the DRM core delivers for an event
  of the driver, and how \<open>evdi_handle_events\<close> takes the buffer it has read apart and calls the
  client's handlers.
\<close>

section \<open>The layout of the event structures\<close>

text \<open>\<open>struct drm_event\<close> is the type and the length; the payload follows, with C's padding.\<close>

fun event_payload :: "drm_event \<Rightarrow> u8 list" where
  "event_payload UpdateReady = []"
| "event_payload (Dpms m) = le_bytes 4 m"
| "event_payload (ModeChanged w h r b f) =
     le_bytes 4 w @ le_bytes 4 h @ le_bytes 4 r @ le_bytes 4 b @ le_bytes 4 f"
| "event_payload (CrtcState s) = le_bytes 4 s"
| "event_payload (CursorSet c) =
     le_bytes 4 (ev_hot_x c) @ le_bytes 4 (ev_hot_y c) @ le_bytes 4 (ev_width c) @
     le_bytes 4 (ev_height c) @ [ev_enabled c, 0, 0, 0] @ le_bytes 4 (ev_buffer_handle c) @
     le_bytes 4 (ev_buffer_length c) @ le_bytes 4 (ev_pixel_format c) @ le_bytes 4 (ev_stride c)"
| "event_payload (CursorMove x y) = le_bytes 4 x @ le_bytes 4 y"
| "event_payload (DdcciData b l f a) = b @ le_bytes 4 l @ le_bytes 2 f @ le_bytes 2 a"

definition event_bytes :: "drm_event \<Rightarrow> u8 list" where
  "event_bytes e = le_bytes 4 (event_type e) @ le_bytes 4 (event_length e) @ event_payload e"

section \<open>What the client sees\<close>

text \<open>The structures of \<open>library/evdi_lib.h\<close> the handlers get.\<close>

record evdi_mode =
  em_width :: s32
  em_height :: s32
  em_refresh_rate :: s32
  em_bits_per_pixel :: s32
  em_pixel_format :: u32

record evdi_cursor_set =
  ec_hot_x :: s32
  ec_hot_y :: s32
  ec_width :: u32
  ec_height :: u32
  ec_enabled :: u8
  ec_buffer_length :: u32
  ec_buffer :: "u8 list option"
  ec_pixel_format :: u32
  ec_stride :: u32

record evdi_ddcci_data =
  ed_address :: u16
  ed_flags :: u16
  ed_buffer_length :: u32
  ed_buffer :: "u8 list"

text \<open>The calls made while events are handled; \<open>EnableCursorEvents\<close> is the ioctl.\<close>

datatype upcall =
    UpdateReadyHandler s32
  | DpmsHandler s32
  | ModeChangedHandler evdi_mode
  | CrtcStateHandler s32
  | CursorSetHandler evdi_cursor_set
  | CursorMoveHandler s32 s32
  | DdcciDataHandler evdi_ddcci_data
  | EnableCursorEvents bool

text \<open>Which handlers the client has set.\<close>

record evdi_event_context =
  dpms_handler :: bool
  mode_changed_handler :: bool
  update_ready_handler :: bool
  crtc_state_handler :: bool
  cursor_set_handler :: bool
  cursor_move_handler :: bool
  ddcci_data_handler :: bool

section \<open>Converting events\<close>

text \<open>
  The kernel's answers: \<open>map_dumb\<close> gives the offset of a handle, \<open>mmap_at\<close> the bytes mapped there,
  \<open>malloc_ok\<close> the success of an allocation.
\<close>

record cursor_env =
  map_dumb :: "u32 \<Rightarrow> u64 result"
  mmap_at :: "u64 \<Rightarrow> nat \<Rightarrow> u8 list option"
  malloc_ok :: bool

definition to_evdi_mode :: "s32 \<Rightarrow> s32 \<Rightarrow> s32 \<Rightarrow> s32 \<Rightarrow> u32 \<Rightarrow> evdi_mode" where
  "to_evdi_mode w h r b f =
     \<lparr>em_width = w, em_height = h, em_refresh_rate = r, em_bits_per_pixel = b, em_pixel_format = f\<rparr>"

text \<open>The copy writes through a NULL pointer when the allocation failed.\<close>

definition to_evdi_cursor_set :: "cursor_env \<Rightarrow> cursor_set_event \<Rightarrow> evdi_cursor_set outcome" where
  "to_evdi_cursor_set env event =
     (let cursor_set = \<lparr>ec_hot_x = ev_hot_x event, ec_hot_y = ev_hot_y event,
            ec_width = ev_width event, ec_height = ev_height event, ec_enabled = ev_enabled event,
            ec_buffer_length = 0, ec_buffer = None, ec_pixel_format = ev_pixel_format event,
            ec_stride = ev_stride event\<rparr>
      in if ev_enabled event = 0 then Ret cursor_set
         else case map_dumb env (ev_buffer_handle event) of
             Inl _ \<Rightarrow> Ret cursor_set
           | Inr offset \<Rightarrow>
               (case mmap_at env offset (unat (ev_buffer_length event)) of
                  None \<Rightarrow> Ret cursor_set
                | Some bytes \<Rightarrow>
                    if \<not> malloc_ok env then Oops
                    else Ret (cursor_set\<lparr>ec_buffer := Some bytes,
                                ec_buffer_length := ev_buffer_length event\<rparr>)))"

definition to_evdi_ddcci_data :: "u8 list \<Rightarrow> u32 \<Rightarrow> u16 \<Rightarrow> u16 \<Rightarrow> evdi_ddcci_data" where
  "to_evdi_ddcci_data buf len flags address =
     \<lparr>ed_address = address, ed_flags = flags, ed_buffer_length = len, ed_buffer = buf\<rparr>"

text \<open>The handler call for a cursor event; a cursor without its buffer switches cursor events off.\<close>

definition cursor_set_calls :: "cursor_env \<Rightarrow> cursor_set_event \<Rightarrow> upcall list outcome" where
  "cursor_set_calls env event =
     (case to_evdi_cursor_set env event of
        Oops \<Rightarrow> Oops
      | Ret cs \<Rightarrow>
          if ec_enabled cs \<noteq> 0 \<and> ec_buffer cs = None
          then Ret [EnableCursorEvents False, CursorSetHandler (cs\<lparr>ec_enabled := 0, ec_buffer_length := 0\<rparr>)]
          else Ret [CursorSetHandler cs])"

section \<open>Reading the buffer\<close>

definition field :: "u8 list \<Rightarrow> int \<Rightarrow> nat \<Rightarrow> 'a::len word option" where
  "field buf off n = map_option le_word (kread buf off (int n))"

definition read_cursor_set :: "u8 list \<Rightarrow> int \<Rightarrow> cursor_set_event option" where
  "read_cursor_set buf off =
     Option.bind (field buf (off + 8) 4) (\<lambda>hx. Option.bind (field buf (off + 12) 4) (\<lambda>hy.
     Option.bind (field buf (off + 16) 4) (\<lambda>w. Option.bind (field buf (off + 20) 4) (\<lambda>h.
     Option.bind (field buf (off + 24) 1) (\<lambda>en. Option.bind (field buf (off + 28) 4) (\<lambda>bh.
     Option.bind (field buf (off + 32) 4) (\<lambda>bl. Option.bind (field buf (off + 36) 4) (\<lambda>pf.
     Option.bind (field buf (off + 40) 4) (\<lambda>st.
       Some \<lparr>ev_hot_x = hx, ev_hot_y = hy, ev_width = w, ev_height = h, ev_enabled = en,
             ev_buffer_handle = bh, ev_buffer_length = bl, ev_pixel_format = pf, ev_stride = st\<rparr>)))))))))"

text \<open>
  \<open>evdi_handle_event\<close>: \<open>off\<close> is where the event starts in the buffer, \<open>b2u\<close> the buffer to be updated.
  A read outside the buffer is an \<open>Oops\<close>.
\<close>

definition or_oops :: "'a option \<Rightarrow> ('a \<Rightarrow> 'b outcome) \<Rightarrow> 'b outcome" where
  "or_oops x f = (case x of None \<Rightarrow> Oops | Some y \<Rightarrow> f y)"

definition evdi_handle_event ::
  "cursor_env \<Rightarrow> evdi_event_context \<Rightarrow> s32 \<Rightarrow> u8 list \<Rightarrow> int \<Rightarrow> upcall list outcome" where
  "evdi_handle_event env ctx b2u buf off =
     or_oops (field buf off 4 :: u32 option) (\<lambda>type.
       if type = 0x80000000 then
         Ret (if update_ready_handler ctx then [UpdateReadyHandler b2u] else [])
       else if type = 0x80000001 then
         if \<not> dpms_handler ctx then Ret []
         else or_oops (field buf (off + 8) 4) (\<lambda>m. Ret [DpmsHandler m])
       else if type = 0x80000002 then
         if \<not> mode_changed_handler ctx then Ret []
         else or_oops (field buf (off + 8) 4) (\<lambda>w. or_oops (field buf (off + 12) 4) (\<lambda>h.
              or_oops (field buf (off + 16) 4) (\<lambda>r. or_oops (field buf (off + 20) 4) (\<lambda>b.
              or_oops (field buf (off + 24) 4) (\<lambda>f. Ret [ModeChangedHandler (to_evdi_mode w h r b f)])))))
       else if type = 0x80000003 then
         if \<not> crtc_state_handler ctx then Ret []
         else or_oops (field buf (off + 8) 4) (\<lambda>s. Ret [CrtcStateHandler s])
       else if type = 0x80000004 then
         if \<not> cursor_set_handler ctx then Ret []
         else or_oops (read_cursor_set buf off) (cursor_set_calls env)
       else if type = 0x80000005 then
         if \<not> cursor_move_handler ctx then Ret []
         else or_oops (field buf (off + 8) 4) (\<lambda>x. or_oops (field buf (off + 12) 4) (\<lambda>y.
              Ret [CursorMoveHandler x y]))
       else if type = 0x80000006 then
         if \<not> ddcci_data_handler ctx then Ret []
         else or_oops (kread buf (off + 8) 64) (\<lambda>b. or_oops (field buf (off + 72) 4) (\<lambda>l.
              or_oops (field buf (off + 76) 2) (\<lambda>f. or_oops (field buf (off + 78) 2) (\<lambda>a.
              Ret [DdcciDataHandler (to_evdi_ddcci_data b l f a)]))))
       else Ret [])"

text \<open>
  The loop may not end (an event of length zero): no result is \<open>None\<close>. The position is a C \<open>int\<close>
  to which the unsigned length is added.
\<close>

partial_function (option) handle_loop ::
  "cursor_env \<Rightarrow> evdi_event_context \<Rightarrow> s32 \<Rightarrow> u8 list \<Rightarrow> s32 \<Rightarrow> upcall list \<Rightarrow> s32 \<Rightarrow>
     upcall list outcome option" where
  "handle_loop env ctx b2u buf bytesRead acc i =
     (if sint i < sint bytesRead then
        (case evdi_handle_event env ctx b2u buf (sint i) of
           Oops \<Rightarrow> Some Oops
         | Ret us \<Rightarrow>
             (case field buf (sint i + 4) 4 of
                None \<Rightarrow> Some Oops
              | Some len \<Rightarrow> handle_loop env ctx b2u buf bytesRead (acc @ us) (i + len)))
      else Some (Ret acc))"

text \<open>\<open>buf\<close> and \<open>bytesRead\<close> are what \<open>read\<close> left in the 1024 bytes and returned.\<close>

definition evdi_handle_events ::
  "cursor_env \<Rightarrow> evdi_event_context option \<Rightarrow> s32 \<Rightarrow> u8 list \<Rightarrow> s32 \<Rightarrow> upcall list outcome option" where
  "evdi_handle_events env ctx b2u buf bytesRead =
     (case ctx of
        None \<Rightarrow> Some (Ret [])
      | Some c \<Rightarrow> handle_loop env c b2u buf bytesRead [] 0)"

section \<open>Reading back what was written\<close>

lemma length_event_payload:
  "(case e of DdcciData b _ _ _ \<Rightarrow> length b = 64 | _ \<Rightarrow> True) \<Longrightarrow>
     length (event_bytes e) = unat (event_length e)"
  by (cases e) (simp_all add: event_bytes_def)

definition event_ok :: "drm_event \<Rightarrow> bool" where
  "event_ok e \<longleftrightarrow> (case e of DdcciData b _ _ _ \<Rightarrow> length b = 64 | _ \<Rightarrow> True)"

lemma kread_skip: "0 \<le> k \<Longrightarrow> kread (pre @ buf) (int (length pre) + k) n = kread buf k n"
  by (simp add: kread_def nat_add_distrib)

lemma field_skip: "0 \<le> k \<Longrightarrow> field (pre @ buf) (int (length pre) + k) n = field buf k n"
  by (simp add: field_def kread_skip)

lemmas read_skip = kread_skip field_skip field_skip [where k = 0, simplified]

text \<open>What a client is to be told of an event, in terms of the event alone.\<close>

fun client_calls ::
  "cursor_env \<Rightarrow> evdi_event_context \<Rightarrow> s32 \<Rightarrow> drm_event \<Rightarrow> upcall list outcome" where
  "client_calls env ctx b2u UpdateReady =
     Ret (if update_ready_handler ctx then [UpdateReadyHandler b2u] else [])"
| "client_calls env ctx b2u (Dpms m) = Ret (if dpms_handler ctx then [DpmsHandler m] else [])"
| "client_calls env ctx b2u (ModeChanged w h r b f) =
     Ret (if mode_changed_handler ctx then [ModeChangedHandler (to_evdi_mode w h r b f)] else [])"
| "client_calls env ctx b2u (CrtcState s) = Ret (if crtc_state_handler ctx then [CrtcStateHandler s] else [])"
| "client_calls env ctx b2u (CursorSet c) = (if cursor_set_handler ctx then cursor_set_calls env c else Ret [])"
| "client_calls env ctx b2u (CursorMove x y) = Ret (if cursor_move_handler ctx then [CursorMoveHandler x y] else [])"
| "client_calls env ctx b2u (DdcciData b l f a) =
     Ret (if ddcci_data_handler ctx then [DdcciDataHandler (to_evdi_ddcci_data b l f a)] else [])"

lemma read_cursor_set_skip:
  "read_cursor_set (pre @ buf) (int (length pre)) = read_cursor_set buf 0"
  by (simp add: read_cursor_set_def read_skip)

lemma read_cursor_set_bytes: "read_cursor_set (event_bytes (CursorSet c) @ post) 0 = Some c"
  by (simp add: read_cursor_set_def event_bytes_def field_def kread_def le_word_bytes)

lemma handle_event_skip:
  "evdi_handle_event env ctx b2u (pre @ buf) (int (length pre)) = evdi_handle_event env ctx b2u buf 0"
  by (simp only: evdi_handle_event_def read_skip read_cursor_set_skip zero_le_numeral add_0)

lemma handle_event_bytes:
  assumes "event_ok e"
  shows "evdi_handle_event env ctx b2u (event_bytes e @ post) 0 = client_calls env ctx b2u e"
proof (cases e)
  case (CursorSet c)
  have "field (event_bytes e @ post) 0 4 = Some (0x80000004 :: u32)"
    using CursorSet by (simp add: field_def event_bytes_def kread_def le_word_bytes)
  then show ?thesis using CursorSet by (simp add: evdi_handle_event_def or_oops_def read_cursor_set_bytes)
qed (use assms in \<open>simp_all add: evdi_handle_event_def event_bytes_def event_ok_def or_oops_def
  field_def kread_def le_word_bytes\<close>)

lemma length_field_bytes: "field (event_bytes e @ post) 4 4 = Some (event_length e)"
  by (simp add: field_def event_bytes_def kread_def le_word_bytes)

lemma length_event_bytes:
  assumes "event_ok e"
  shows "length (event_bytes e) = unat (event_length e)" "0 < length (event_bytes e)"
  using assms by (cases e; simp add: event_ok_def event_bytes_def)+

fun calls_of ::
  "cursor_env \<Rightarrow> evdi_event_context \<Rightarrow> s32 \<Rightarrow> upcall list \<Rightarrow> drm_event list \<Rightarrow> upcall list outcome" where
  "calls_of env ctx b2u acc [] = Ret acc"
| "calls_of env ctx b2u acc (e # es) =
     (case client_calls env ctx b2u e of
        Oops \<Rightarrow> Oops
      | Ret us \<Rightarrow> calls_of env ctx b2u (acc @ us) es)"

lemma sint_of_small: "n < 2 ^ 31 \<Longrightarrow> sint (of_nat n :: s32) = int n"
  by (simp add: sint_uint signed_take_bit_int_eq_self_iff signed_take_bit_int_eq_self word_bridge
      unsigned_of_nat take_bit_nat_eq_self)

lemma handle_loop_bytes:
  assumes "\<forall>e\<in>set es. event_ok e"
    and "length pre + length (concat (map event_bytes es)) < 2 ^ 31"
  shows "handle_loop env ctx b2u (pre @ concat (map event_bytes es) @ post)
      (of_nat (length pre + length (concat (map event_bytes es)))) acc (of_nat (length pre))
    = Some (calls_of env ctx b2u acc es)"
  using assms
proof (induction es arbitrary: pre acc)
  case Nil
  then show ?case by (simp add: handle_loop.simps)
next
  case (Cons e es)
  let ?all = "concat (map event_bytes es)"
  let ?buf = "pre @ event_bytes e @ ?all @ post"
  have e: "event_ok e" using Cons.prems(1) by simp
  note len = length_event_bytes [OF e]
  have i: "sint (of_nat (length pre) :: s32) = int (length pre)"
    by (rule sint_of_small) (use Cons.prems(2) in simp)
  have n: "sint (of_nat (length pre + length (event_bytes e @ ?all)) :: s32)
      = int (length pre + length (event_bytes e @ ?all))"
    by (rule sint_of_small) (use Cons.prems(2) in simp)
  have h: "evdi_handle_event env ctx b2u ?buf (int (length pre)) = client_calls env ctx b2u e"
    by (simp only: handle_event_skip handle_event_bytes [OF e])
  have f: "field ?buf (int (length pre) + 4) 4 = Some (event_length e)"
    by (simp only: field_skip length_field_bytes zero_le_numeral)
  have step: "of_nat (length pre) + event_length e = (of_nat (length (pre @ event_bytes e)) :: s32)"
    by (simp add: len(1))
  have ih: "handle_loop env ctx b2u ((pre @ event_bytes e) @ ?all @ post)
      (of_nat (length (pre @ event_bytes e) + length ?all)) (acc @ us) (of_nat (length (pre @ event_bytes e)))
    = Some (calls_of env ctx b2u (acc @ us) es)" for us
    by (rule Cons.IH) (use Cons.prems in simp_all)
  have lt: "int (length pre) < int (length pre + length (event_bytes e @ ?all))"
    using len(2) by (simp only: length_append of_nat_less_iff)
  show ?case
  proof (cases "client_calls env ctx b2u e")
    case Oops
    then show ?thesis using i n h lt by (subst handle_loop.simps) simp
  next
    case (Ret us)
    then show ?thesis
      using i n h f lt step ih [of us] by (subst handle_loop.simps) (simp add: add.assoc)
  qed
qed

text \<open>
  C12: encoding and decoding of events agree: for any events of the driver that fit into the buffer of
  1024 bytes, as one \<open>read\<close> delivers them, the library comes to an end and calls the client's
  handlers for these events, each once, in order, with the values the driver put in.
\<close>

theorem events_roundtrip:
  assumes "\<forall>e\<in>set es. event_ok e" and "length (concat (map event_bytes es) @ junk) = 1024"
  shows "evdi_handle_events env (Some ctx) b2u (concat (map event_bytes es) @ junk)
      (of_nat (length (concat (map event_bytes es)))) = Some (calls_of env ctx b2u [] es)"
  using handle_loop_bytes [of es "[]" env ctx b2u junk "[]"] assms by (simp add: evdi_handle_events_def)

definition all_handlers :: evdi_event_context where
  "all_handlers = \<lparr>dpms_handler = True, mode_changed_handler = True, update_ready_handler = True,
     crtc_state_handler = True, cursor_set_handler = True, cursor_move_handler = True,
     ddcci_data_handler = True\<rparr>"

definition sample_cursor_env :: cursor_env where
  "sample_cursor_env = \<lparr>map_dumb = (\<lambda>_. Inl EINVAL), mmap_at = (\<lambda>_ _. None), malloc_ok = True\<rparr>"

theorem events_roundtrip_witness:
  "\<exists>junk. evdi_handle_events sample_cursor_env (Some all_handlers) 7
     (concat (map event_bytes [CursorMove 3 4, UpdateReady]) @ junk) 24
   = Some (Ret [CursorMoveHandler 3 4, UpdateReadyHandler 7])"
proof
  show "evdi_handle_events sample_cursor_env (Some all_handlers) 7
     (concat (map event_bytes [CursorMove 3 4, UpdateReady]) @ replicate 1000 0) 24
   = Some (Ret [CursorMoveHandler 3 4, UpdateReadyHandler 7])"
    using events_roundtrip [of "[CursorMove 3 4, UpdateReady]" "replicate 1000 0" sample_cursor_env all_handlers 7]
    by (simp add: event_ok_def all_handlers_def length_event_bytes)
qed

end
