(* ===== verification/Evdi_LibBuffers.thy ===== *)
theory Evdi_LibBuffers
  imports Evdi_Prelude
begin

text \<open>
  The list of frame buffers a client has registered, \<open>library/evdi_lib.c\<close>: a singly linked list in
  the heap of the process, searched, extended and pruned by loops over its pointers. The loops are
  modelled on the heap, and shown to implement the operations on the list of buffers.
\<close>

section \<open>Nodes, links and loops\<close>

text \<open>\<open>struct evdi_buffer\<close>; the client's rectangle array is an address and a count.\<close>

record evdi_buffer =
  eb_id :: s32
  eb_buffer :: u64
  eb_width :: s32
  eb_height :: s32
  eb_stride :: s32
  eb_rects :: u64
  eb_rect_count :: s32

record evdi_frame_buffer_node =
  frame_buffer :: evdi_buffer
  next_node :: "nat option"

type_synonym node_heap = "nat \<Rightarrow> evdi_frame_buffer_node option"

text \<open>
  The head pointer with the heap of nodes. A pointer to a pointer of the code is the head field or the
  \<open>next\<close> field of a node. An access to a node that is not allocated is an \<open>Oops\<close>; no result at all
  is a loop that does not end.
\<close>

record node_list =
  head_node :: "nat option"
  nodes :: node_heap

datatype link = Head | Next nat

definition read_link :: "node_list \<Rightarrow> link \<Rightarrow> nat option option" where
  "read_link l k = (case k of Head \<Rightarrow> Some (head_node l) | Next a \<Rightarrow> map_option next_node (nodes l a))"

definition write_link :: "node_list \<Rightarrow> link \<Rightarrow> nat option \<Rightarrow> node_list option" where
  "write_link l k p =
     (case k of
        Head \<Rightarrow> Some (l\<lparr>head_node := p\<rparr>)
      | Next a \<Rightarrow>
          (case nodes l a of
             None \<Rightarrow> None
           | Some n \<Rightarrow> Some (l\<lparr>nodes := (nodes l)(a \<mapsto> n\<lparr>next_node := p\<rparr>)\<rparr>)))"

partial_function (option) find_loop :: "node_list \<Rightarrow> s32 \<Rightarrow> nat option \<Rightarrow> nat option outcome option" where
  "find_loop l bid node =
     (case node of
        None \<Rightarrow> Some (Ret None)
      | Some a \<Rightarrow>
          (case nodes l a of
             None \<Rightarrow> Some Oops
           | Some n \<Rightarrow> if eb_id (frame_buffer n) = bid then Some (Ret (Some a)) else find_loop l bid (next_node n)))"

definition findBuffer :: "node_list \<Rightarrow> s32 \<Rightarrow> nat option outcome option" where
  "findBuffer l bid = find_loop l bid (head_node l)"

text \<open>\<open>fresh\<close> is the node \<open>calloc\<close> gives; without one the copy writes through a NULL pointer.\<close>

partial_function (option) add_loop ::
  "nat option \<Rightarrow> evdi_buffer \<Rightarrow> node_list \<Rightarrow> link \<Rightarrow> node_list outcome option" where
  "add_loop fresh b l node =
     (case read_link l node of
        None \<Rightarrow> Some Oops
      | Some (Some a) \<Rightarrow> add_loop fresh b l (Next a)
      | Some None \<Rightarrow>
          (case fresh of
             None \<Rightarrow> Some Oops
           | Some c \<Rightarrow>
               (case write_link l node (Some c) of
                  None \<Rightarrow> Some Oops
                | Some l1 \<Rightarrow>
                    Some (Ret (l1\<lparr>nodes := (nodes l1)(c \<mapsto> \<lparr>frame_buffer = b, next_node = None\<rparr>)\<rparr>)))))"

definition addFrameBuffer :: "nat option \<Rightarrow> evdi_buffer \<Rightarrow> node_list \<Rightarrow> node_list outcome option" where
  "addFrameBuffer fresh b l = add_loop fresh b l Head"

partial_function (option) remove_loop ::
  "s32 option \<Rightarrow> node_list \<Rightarrow> nat option \<Rightarrow> link \<Rightarrow> node_list outcome option" where
  "remove_loop bid l current prev =
     (case current of
        None \<Rightarrow> Some (Ret l)
      | Some a \<Rightarrow>
          (case nodes l a of
             None \<Rightarrow> Some Oops
           | Some n \<Rightarrow>
               if bid = None \<or> Some (eb_id (frame_buffer n)) = bid
               then (case write_link (l\<lparr>nodes := (nodes l)(a := None)\<rparr>) prev (next_node n) of
                       None \<Rightarrow> Some Oops
                     | Some l1 \<Rightarrow> remove_loop bid l1 (next_node n) prev)
               else remove_loop bid l (next_node n) (Next a)))"

definition removeFrameBuffer :: "s32 option \<Rightarrow> node_list \<Rightarrow> node_list outcome option" where
  "removeFrameBuffer bid l = remove_loop bid l (head_node l) Head"

text \<open>The public operations; an assertion that fails stops the process, an \<open>Oops\<close> as well.\<close>

definition evdi_register_buffer ::
  "nat option \<Rightarrow> evdi_buffer \<Rightarrow> node_list \<Rightarrow> node_list outcome option" where
  "evdi_register_buffer fresh b l =
     (case findBuffer l (eb_id b) of
        None \<Rightarrow> None
      | Some Oops \<Rightarrow> Some Oops
      | Some (Ret (Some _)) \<Rightarrow> Some Oops
      | Some (Ret None) \<Rightarrow> addFrameBuffer fresh b l)"

definition evdi_unregister_buffer :: "s32 \<Rightarrow> node_list \<Rightarrow> node_list outcome option" where
  "evdi_unregister_buffer bid l =
     (case findBuffer l bid of
        None \<Rightarrow> None
      | Some Oops \<Rightarrow> Some Oops
      | Some (Ret None) \<Rightarrow> Some Oops
      | Some (Ret (Some _)) \<Rightarrow> removeFrameBuffer (Some bid) l)"

section \<open>The list a heap holds\<close>

text \<open>From the pointer \<open>p\<close> the nodes \<open>as\<close> are linked, one after the other, up to the pointer \<open>q\<close>.\<close>

fun segment :: "node_heap \<Rightarrow> nat option \<Rightarrow> nat list \<Rightarrow> nat option \<Rightarrow> bool" where
  "segment h p [] q \<longleftrightarrow> p = q"
| "segment h p (a # as) q \<longleftrightarrow> p = Some a \<and> (\<exists>n. h a = Some n \<and> segment h (next_node n) as q)"

definition content :: "node_heap \<Rightarrow> nat list \<Rightarrow> evdi_buffer list" where
  "content h as = map (\<lambda>a. frame_buffer (the (h a))) as"

text \<open>\<open>l\<close> holds the buffers \<open>bs\<close>, in nodes that are all distinct, and no other node is allocated.\<close>

definition holds :: "node_list \<Rightarrow> evdi_buffer list \<Rightarrow> bool" where
  "holds l bs \<longleftrightarrow> (\<exists>as. segment (nodes l) (head_node l) as None \<and> distinct as \<and>
     content (nodes l) as = bs \<and> dom (nodes l) = set as)"

lemma segment_unique: "segment h p as None \<Longrightarrow> segment h p bs None \<Longrightarrow> as = bs"
  by (induction as arbitrary: p bs; case_tac bs) auto

lemma holds_unique: "holds l bs \<Longrightarrow> holds l bs' \<Longrightarrow> bs = bs'"
  unfolding holds_def using segment_unique by blast

text \<open>The link that ends the nodes \<open>as\<close>, and what a write to it changes.\<close>

definition link_of :: "nat list \<Rightarrow> link" where
  "link_of as = (if as = [] then Head else Next (last as))"

lemma segment_append: "segment h p (as @ bs) q \<longleftrightarrow> (\<exists>r. segment h p as r \<and> segment h r bs q)"
  by (induction as arbitrary: p) auto

lemma segment_cong: "\<forall>a\<in>set as. h' a = h a \<Longrightarrow> segment h' p as q = segment h p as q"
  by (induction as arbitrary: p) auto

lemma content_simps [simp]: "content h [] = []" "content h (a # as) = frame_buffer (the (h a)) # content h as"
  "content h (as @ bs) = content h as @ content h bs"
  by (simp_all add: content_def)

lemma content_cong: "\<forall>a\<in>set as. h' a = h a \<Longrightarrow> content h' as = content h as"
  by (simp add: content_def)

lemma read_link_of:
  assumes "segment (nodes l) (head_node l) as q"
  shows "read_link l (link_of as) = Some q"
proof (cases as rule: rev_cases)
  case Nil
  then show ?thesis using assms by (simp add: read_link_def link_of_def)
next
  case (snoc pre a)
  then show ?thesis using assms by (auto simp: read_link_def link_of_def segment_append)
qed

lemma write_link_of:
  assumes "segment (nodes l) (head_node l) as q" and "distinct as"
  shows "\<exists>l1. write_link l (link_of as) p = Some l1 \<and> segment (nodes l1) (head_node l1) as p \<and>
    (\<forall>a. a \<notin> set as \<longrightarrow> nodes l1 a = nodes l a) \<and> dom (nodes l1) = dom (nodes l) \<and>
    content (nodes l1) as = content (nodes l) as"
proof (cases as rule: rev_cases)
  case Nil
  then show ?thesis by (simp add: write_link_def link_of_def)
next
  case (snoc pre a)
  then obtain n where n: "nodes l a = Some n" "segment (nodes l) (head_node l) pre (Some a)"
    using assms(1) by (auto simp: segment_append)
  let ?h = "(nodes l)(a \<mapsto> n\<lparr>next_node := p\<rparr>)"
  have "segment ?h (head_node l) pre (Some a) = segment (nodes l) (head_node l) pre (Some a)"
    "content ?h pre = content (nodes l) pre"
    using assms(2) snoc by (intro segment_cong content_cong; auto)+
  then show ?thesis
    using snoc n by (auto simp: write_link_def link_of_def segment_append)
qed

section \<open>The loops implement the list operations\<close>

lemma find_loop_segment:
  "segment (nodes l) p as None \<Longrightarrow>
     find_loop l bid p = Some (Ret (List.find (\<lambda>a. eb_id (frame_buffer (the (nodes l a))) = bid) as))"
proof (induction as arbitrary: p)
  case Nil
  then show ?case by (simp add: find_loop.simps)
next
  case (Cons a as)
  then show ?case by (subst find_loop.simps) auto
qed

lemma add_loop_segment:
  assumes "segment (nodes l) (head_node l) pre q" and "segment (nodes l) q as None"
    and "distinct (pre @ as)"
  shows "add_loop (Some c) b l (link_of pre) = add_loop (Some c) b l (link_of (pre @ as))"
  using assms
proof (induction as arbitrary: pre q)
  case (Cons a as)
  then obtain n where n: "q = Some a" "nodes l a = Some n" "segment (nodes l) (next_node n) as None"
    by auto
  have "add_loop (Some c) b l (link_of pre) = add_loop (Some c) b l (link_of (pre @ [a]))"
    using read_link_of [OF Cons.prems(1)] n(1) by (subst add_loop.simps) (simp add: link_of_def)
  also have "\<dots> = add_loop (Some c) b l (link_of ((pre @ [a]) @ as))"
    by (rule Cons.IH [where q = "next_node n"]) (use Cons.prems n in \<open>auto simp: segment_append\<close>)
  finally show ?case by simp
qed simp

lemma addFrameBuffer_holds:
  assumes "holds l bs" and "nodes l c = None"
  shows "\<exists>l'. addFrameBuffer (Some c) b l = Some (Ret l') \<and> holds l' (bs @ [b])"
proof -
  obtain as where s: "segment (nodes l) (head_node l) as None" and d: "distinct as"
    and c: "content (nodes l) as = bs" and dom: "dom (nodes l) = set as"
    using assms(1) by (auto simp: holds_def)
  have new: "c \<notin> set as" using assms(2) dom by auto
  obtain l1 where l1: "write_link l (link_of as) (Some c) = Some l1"
    "segment (nodes l1) (head_node l1) as (Some c)" "dom (nodes l1) = dom (nodes l)"
    "content (nodes l1) as = content (nodes l) as"
    using write_link_of [OF s d] by blast
  let ?l = "l1\<lparr>nodes := (nodes l1)(c \<mapsto> \<lparr>frame_buffer = b, next_node = None\<rparr>)\<rparr>"
  have "add_loop (Some c) b l (link_of []) = add_loop (Some c) b l (link_of as)"
    using add_loop_segment [of l "[]" "head_node l" as c b] s d by simp
  also have "\<dots> = Some (Ret ?l)"
    using read_link_of [OF s] l1(1) by (subst add_loop.simps) simp
  finally have "addFrameBuffer (Some c) b l = Some (Ret ?l)"
    by (simp add: addFrameBuffer_def link_of_def)
  moreover have "segment (nodes ?l) (head_node l1) as (Some c) = segment (nodes l1) (head_node l1) as (Some c)"
    "content (nodes ?l) as = content (nodes l1) as"
    using new by (intro segment_cong content_cong; auto)+
  then have "holds ?l (bs @ [b])"
    unfolding holds_def using l1 new d dom c
    by (intro exI [of _ "as @ [c]"]) (auto simp: segment_append)
  ultimately show ?thesis by blast
qed

definition matches :: "s32 option \<Rightarrow> evdi_buffer \<Rightarrow> bool" where
  "matches bid b \<longleftrightarrow> bid = None \<or> Some (eb_id b) = bid"

lemma remove_loop_segment:
  assumes "segment (nodes l) (head_node l) pre q" and "segment (nodes l) q as None"
    and "distinct (pre @ as)" and "dom (nodes l) = set (pre @ as)"
  shows "\<exists>l'. remove_loop bid l q (link_of pre) = Some (Ret l') \<and>
    holds l' (content (nodes l) pre @ filter (\<lambda>b. \<not> matches bid b) (content (nodes l) as))"
  using assms
proof (induction as arbitrary: l pre q)
  case Nil
  then have "holds l (content (nodes l) pre)" by (auto simp: holds_def intro!: exI [of _ pre])
  then show ?case using Nil.prems(2) by (simp add: remove_loop.simps)
next
  case (Cons a as)
  then obtain n where n: "q = Some a" "nodes l a = Some n" "segment (nodes l) (next_node n) as None"
    by auto
  have a: "a \<notin> set pre" "a \<notin> set as" using Cons.prems(3) by auto
  show ?case
  proof (cases "matches bid (frame_buffer n)")
    case True
    let ?l = "l\<lparr>nodes := (nodes l)(a := None)\<rparr>"
    have pre: "segment (nodes ?l) (head_node ?l) pre q" "content (nodes ?l) pre = content (nodes l) pre"
    proof -
      have e: "\<forall>x\<in>set pre. ((nodes l)(a := None)) x = nodes l x" using a by auto
      show "segment (nodes ?l) (head_node ?l) pre q" "content (nodes ?l) pre = content (nodes l) pre"
        using Cons.prems(1) by (simp_all add: segment_cong [OF e] content_cong [OF e])
    qed
    have dp: "distinct pre" using Cons.prems(3) by simp
    obtain l1 where l1: "write_link ?l (link_of pre) (next_node n) = Some l1"
      "segment (nodes l1) (head_node l1) pre (next_node n)" "\<forall>x. x \<notin> set pre \<longrightarrow> nodes l1 x = nodes ?l x"
      "dom (nodes l1) = dom (nodes ?l)" "content (nodes l1) pre = content (nodes ?l) pre"
      using write_link_of [OF pre(1) dp, of "next_node n"] by blast
    have e: "\<forall>x\<in>set as. nodes l1 x = nodes l x"
      using l1(3) a Cons.prems(3) by auto
    have rest: "segment (nodes l1) (next_node n) as None" "content (nodes l1) as = content (nodes l) as"
      using n(3) segment_cong [OF e] content_cong [OF e] by blast+
    have d: "dom (nodes l1) = set (pre @ as)"
      using l1(4) Cons.prems(3,4) a by auto
    have "remove_loop bid l q (link_of pre) = remove_loop bid l1 (next_node n) (link_of pre)"
      using n True l1(1) by (subst remove_loop.simps) (auto simp: matches_def)
    then show ?thesis
      using Cons.IH [OF l1(2) rest(1) _ d] Cons.prems(3) True n(2) l1(5) pre(2) rest(2) by auto
  next
    case False
    have "remove_loop bid l q (link_of pre) = remove_loop bid l (next_node n) (link_of (pre @ [a]))"
      using n False by (subst remove_loop.simps) (auto simp: matches_def link_of_def)
    moreover have "segment (nodes l) (head_node l) (pre @ [a]) (next_node n)"
      using Cons.prems(1) n by (auto simp: segment_append)
    ultimately show ?thesis
      using Cons.IH [of l "pre @ [a]" "next_node n"] Cons.prems(3,4) n False by auto
  qed
qed

lemma removeFrameBuffer_holds:
  assumes "holds l bs"
  shows "\<exists>l'. removeFrameBuffer bid l = Some (Ret l') \<and> holds l' (filter (\<lambda>b. \<not> matches bid b) bs)"
  using assms remove_loop_segment [of l "[]" "head_node l" _ bid]
  by (auto simp: holds_def removeFrameBuffer_def link_of_def)

lemma find_segment_content:
  "map_option (\<lambda>a. frame_buffer (the (h a))) (List.find (\<lambda>a. eb_id (frame_buffer (the (h a))) = bid) as)
    = List.find (\<lambda>b. eb_id b = bid) (content h as)"
  by (induction as) simp_all

lemma findBuffer_holds:
  assumes "holds l bs"
  shows "\<exists>r. findBuffer l bid = Some (Ret r) \<and>
    map_option (\<lambda>a. frame_buffer (the (nodes l a))) r = List.find (\<lambda>b. eb_id b = bid) bs"
  using assms find_segment_content [of "nodes l" bid]
  by (auto simp: holds_def findBuffer_def find_loop_segment)

lemma findBuffer_allocated:
  assumes "holds l bs" and "findBuffer l bid = Some (Ret (Some a))"
  shows "nodes l a \<noteq> None"
proof -
  obtain as where as: "segment (nodes l) (head_node l) as None" "dom (nodes l) = set as"
    using assms(1) by (auto simp: holds_def)
  have "List.find (\<lambda>a. eb_id (frame_buffer (the (nodes l a))) = bid) as = Some a"
    using assms(2) find_loop_segment [OF as(1), of bid] by (simp add: findBuffer_def)
  then have "a \<in> dom (nodes l)" unfolding as(2) by (auto simp: find_Some_iff)
  then show ?thesis by blast
qed

lemma findBuffer_cases:
  assumes "holds l bs"
  obtains (missing) "findBuffer l bid = Some (Ret None)" "\<forall>b\<in>set bs. eb_id b \<noteq> bid"
    | (found) a b where "findBuffer l bid = Some (Ret (Some a))" "frame_buffer (the (nodes l a)) = b"
        "b \<in> set bs" "eb_id b = bid"
proof -
  obtain r where r: "findBuffer l bid = Some (Ret r)"
    "map_option (\<lambda>a. frame_buffer (the (nodes l a))) r = List.find (\<lambda>b. eb_id b = bid) bs"
    using findBuffer_holds [OF assms] by blast
  show ?thesis
  proof (cases r)
    case None
    then have "\<forall>b\<in>set bs. eb_id b \<noteq> bid" using r(2) by (auto simp: find_None_iff dest!: sym [of None])
    then show ?thesis using missing r(1) None by simp
  next
    case (Some a)
    then have "List.find (\<lambda>b. eb_id b = bid) bs = Some (frame_buffer (the (nodes l a)))" using r(2) by simp
    then show ?thesis using found r(1) Some by (auto simp: find_Some_iff)
  qed
qed

lemma register_holds:
  assumes "holds l bs" and "nodes l c = None"
  shows "if \<exists>x\<in>set bs. eb_id x = eb_id b then evdi_register_buffer (Some c) b l = Some Oops
    else \<exists>l'. evdi_register_buffer (Some c) b l = Some (Ret l') \<and> holds l' (bs @ [b])"
  using addFrameBuffer_holds [OF assms, of b]
  by (cases rule: findBuffer_cases [OF assms(1), of "eb_id b"]) (auto simp: evdi_register_buffer_def)

lemma unregister_holds:
  assumes "holds l bs"
  shows "if \<exists>x\<in>set bs. eb_id x = i
    then \<exists>l'. evdi_unregister_buffer i l = Some (Ret l') \<and> holds l' (filter (\<lambda>x. eb_id x \<noteq> i) bs)
    else evdi_unregister_buffer i l = Some Oops"
proof -
  have m: "(\<lambda>x. \<not> matches (Some i) x) = (\<lambda>x. eb_id x \<noteq> i)" by (auto simp: matches_def)
  show ?thesis
    using removeFrameBuffer_holds [OF assms, of "Some i"] unfolding m
    by (cases rule: findBuffer_cases [OF assms, of i]) (auto simp: evdi_unregister_buffer_def)
qed

section \<open>Properties\<close>

text \<open>
  C13: the pointer loops of the buffer list always come to an end and do what the list of buffers says:
  registering appends a buffer whose id is new and stops the process for one that is not; unregistering
  removes every buffer of the id, with its memory, and stops the process when there is none; looking up
  finds the first buffer of the id.
\<close>

theorem buffer_list_refines:
  assumes "holds l bs" and "nodes l c = None"
  shows "(if \<exists>x\<in>set bs. eb_id x = eb_id b then evdi_register_buffer (Some c) b l = Some Oops
      else \<exists>l'. evdi_register_buffer (Some c) b l = Some (Ret l') \<and> holds l' (bs @ [b])) \<and>
    (if \<exists>x\<in>set bs. eb_id x = i
      then \<exists>l'. evdi_unregister_buffer i l = Some (Ret l') \<and> holds l' (filter (\<lambda>x. eb_id x \<noteq> i) bs)
      else evdi_unregister_buffer i l = Some Oops) \<and>
    (\<exists>r. findBuffer l i = Some (Ret r) \<and>
       map_option (\<lambda>a. frame_buffer (the (nodes l a))) r = List.find (\<lambda>x. eb_id x = i) bs)"
  using register_holds [OF assms, of b] unregister_holds [OF assms(1), of i] findBuffer_holds [OF assms(1), of i]
  by blast

definition empty_list :: node_list where
  "empty_list = \<lparr>head_node = None, nodes = (\<lambda>_. None)\<rparr>"

lemma empty_list_holds: "holds empty_list []"
  by (auto simp: holds_def empty_list_def intro!: exI [of _ "[]"])

definition sample_buffer :: evdi_buffer where
  "sample_buffer = \<lparr>eb_id = 5, eb_buffer = 0x1000, eb_width = 2, eb_height = 2, eb_stride = 8,
     eb_rects = 0x2000, eb_rect_count = 16\<rparr>"

theorem buffer_list_refines_witness:
  "\<exists>l. evdi_register_buffer (Some 0) sample_buffer empty_list = Some (Ret l) \<and> holds l [sample_buffer]"
  using buffer_list_refines [OF empty_list_holds, of 0 sample_buffer] by (simp add: empty_list_def)

end
