(* ===== verification/Evdi_LibOpen.thy ===== *)
theory Evdi_LibOpen
  imports Evdi_LibBuffers
begin

text \<open>
  Opening and closing cards, \<open>library/evdi_lib.c\<close>: the retry loops around \<open>open\<close>, the search of the
  platform devices for a card of the wanted parent, and the table of the cards the process uses. The
  file system and the kernel answer the calls; their answers are arguments.
\<close>

section \<open>Opening a device file\<close>

text \<open>The answers to one attempt: \<open>open\<close>, the two checks for DRM master, the drop of master.\<close>

record attempt =
  at_open :: s32
  at_master :: bool
  at_drop :: "unit result"
  at_master_after :: bool

text \<open>The result and the descriptors left open.\<close>

definition open_as_slave :: "attempt \<Rightarrow> s32 \<times> s32 list" where
  "open_as_slave a =
     (let fd = at_open a;
          err = (if at_master a then (case at_drop a of Inl _ \<Rightarrow> - 1 | Inr _ \<Rightarrow> 0) else 0 :: s32)
      in if sint fd < 0 then (- 1, [])
         else if sint err < 0 then (err, [])
         else if at_master_after a then (- 1, [])
         else (fd, [fd]))"

text \<open>
  The loop tries again while the result is negative and the counter was not zero; \<open>k\<close> is the number
  of the attempt.
\<close>

fun wait_loop :: "(nat \<Rightarrow> attempt) \<Rightarrow> nat \<Rightarrow> nat \<Rightarrow> (s32 \<times> s32 list) \<times> nat" where
  "wait_loop attempts k cnt =
     (case open_as_slave (attempts k) of
        (fd, files) \<Rightarrow>
          if sint fd < 0 \<and> cnt \<noteq> 0 then wait_loop attempts (k + 1) (cnt - 1)
          else ((fd, files), k + 1))"

declare wait_loop.simps [simp del]

definition WAIT_TRIES :: nat where
  "WAIT_TRIES = 5000000 div 100000"

definition wait_for_device :: "(nat \<Rightarrow> attempt) \<Rightarrow> s32 \<times> s32 list" where
  "wait_for_device attempts = fst (wait_loop attempts 0 WAIT_TRIES)"

text \<open>Whether some process has the card open as master, at each look.\<close>

fun wait_for_master :: "(nat \<Rightarrow> bool) \<Rightarrow> nat \<Rightarrow> nat \<Rightarrow> bool \<times> nat" where
  "wait_for_master has_master k cnt =
     (if \<not> has_master k \<and> cnt \<noteq> 0 then wait_for_master has_master (k + 1) (cnt - 1)
      else (has_master k, k + 1))"

declare wait_for_master.simps [simp del]

text \<open>
  Before, \<open>open_device\<close> waits for another process to be master when X runs (\<open>wait_for_master\<close>), and
  afterwards it drops master once more; neither changes the result.
\<close>

definition open_device :: "(nat \<Rightarrow> attempt) \<Rightarrow> s32 \<times> s32 list" where
  "open_device attempts = wait_for_device attempts"

section \<open>Handles and the card table\<close>

text \<open>\<open>struct drm_version\<close> as the kernel fills it; \<open>Inl\<close> is a failed ioctl.\<close>

record drm_version =
  ver_name :: string
  ver_major :: s32
  ver_minor :: s32

definition is_evdi :: "drm_version result \<Rightarrow> bool" where
  "is_evdi v = (case v of Inl _ \<Rightarrow> False | Inr ver \<Rightarrow> ver_name ver = ''evdi'')"

definition is_evdi_compatible :: "drm_version result \<Rightarrow> bool" where
  "is_evdi_compatible v =
     (case v of
        Inl _ \<Rightarrow> False
      | Inr ver \<Rightarrow> ver_major ver = 1 \<and> 9 \<le> sint (ver_minor ver))"

record evdi_device_context =
  ctx_fd :: s32
  bufferToUpdate :: s32
  frameBuffers :: node_list
  device_index :: s32

definition EVDI_USAGE_LEN :: nat where
  "EVDI_USAGE_LEN = 64"

text \<open>The state of the library: the handles by address, the table, and the descriptors it has open.\<close>

record library =
  handles :: "nat \<Rightarrow> evdi_device_context option"
  card_usage :: "nat option list"
  open_files :: "s32 list"

text \<open>
  \<open>h\<close> is the address \<open>calloc\<close> gives. The index is not checked against the table (\<open>Oops\<close>).
\<close>

definition evdi_open ::
  "(nat \<Rightarrow> attempt) \<Rightarrow> drm_version result \<Rightarrow> drm_version result \<Rightarrow> nat option \<Rightarrow> s32 \<Rightarrow> library \<Rightarrow>
     (nat option \<times> library) outcome" where
  "evdi_open attempts v1 v2 fresh device lib =
     (let (fd, files) = open_device attempts; lib1 = lib\<lparr>open_files := files @ open_files lib\<rparr>
      in if 0 < sint fd then
           if is_evdi v1 \<and> is_evdi_compatible v2 then
             (case fresh of
                None \<Rightarrow> Ret (None, lib1\<lparr>open_files := remove1 fd (open_files lib1)\<rparr>)
              | Some h \<Rightarrow>
                  if sint device < 0 \<or> int EVDI_USAGE_LEN \<le> sint device then Oops
                  else Ret (Some h,
                    lib1\<lparr>handles := (handles lib1)(h \<mapsto>
                            \<lparr>ctx_fd = fd, bufferToUpdate = 0,
                             frameBuffers = \<lparr>head_node = None, nodes = (\<lambda>_. None)\<rparr>,
                             device_index = device\<rparr>),
                          card_usage := (card_usage lib1)[nat (sint device) := Some h]\<rparr>))
           else Ret (None, lib1\<lparr>open_files := remove1 fd (open_files lib1)\<rparr>)
         else Ret (None, lib1))"

text \<open>The table is cleared of the handle; the nodes of its buffer list are not freed.\<close>

definition evdi_close :: "nat option \<Rightarrow> library \<Rightarrow> library outcome" where
  "evdi_close handle lib =
     (case handle of
        None \<Rightarrow> Ret lib
      | Some h \<Rightarrow>
          (case handles lib h of
             None \<Rightarrow> Oops
           | Some c \<Rightarrow>
               Ret (lib\<lparr>open_files := remove1 (ctx_fd c) (open_files lib),
                        handles := (handles lib)(h := None),
                        card_usage := map (\<lambda>u. if u = Some h then None else u) (card_usage lib)\<rparr>)))"

section \<open>Finding a card\<close>

text \<open>A leading sign and digits, after white space, as \<open>strtol\<close> reads them in base 10.\<close>

definition is_space :: "char \<Rightarrow> bool" where
  "is_space c \<longleftrightarrow> c \<in> {CHR '' '', CHR 0x09, CHR 0x0A, CHR 0x0B, CHR 0x0C, CHR 0x0D}"

definition strtol :: "string \<Rightarrow> int" where
  "strtol s =
     (let t = dropWhile is_space s;
          v = (case t of
                 [] \<Rightarrow> 0
               | c # cs \<Rightarrow> if c = CHR ''-'' then - int (digits_value 0 cs)
                           else if c = CHR ''+'' then int (digits_value 0 cs)
                           else int (digits_value 0 (c # cs)))
      in max (- (2 ^ 63)) (min v (2 ^ 63 - 1)))"

text \<open>The last entry of the directory that starts with \<open>card\<close>; its number becomes an \<open>int\<close>.\<close>

definition get_drm_device_index :: "string list option \<Rightarrow> s32" where
  "get_drm_device_index entries =
     (case entries of
        None \<Rightarrow> - 1
      | Some es \<Rightarrow>
          fold (\<lambda>name idx. if take 4 name = ''card'' then of_int (strtol (drop 4 name)) else idx) es (- 1))"

text \<open>
  An entry of the platform directory: its name, what its \<open>device\<close> link resolves to, if there is one,
  and the entries of its \<open>drm\<close> directory.
\<close>

record platform_entry =
  pe_name :: string
  pe_device :: "string option"
  pe_drm :: "string list option"

text \<open>What follows the last slash; \<open>None\<close> is \<open>strrchr\<close>'s NULL.\<close>

definition after_slash :: "string \<Rightarrow> string option" where
  "after_slash s =
     (if CHR ''/'' \<in> set s then Some (rev (takeWhile (\<lambda>c. c \<noteq> CHR ''/'') (rev s))) else None)"

text \<open>
  \<open>slack\<close> is the bound the code computes for \<open>strnlen\<close> by subtracting pointers into two different
  arrays. A link without a slash makes the code read from address 1.
\<close>

definition is_correct_parent_device :: "nat \<Rightarrow> platform_entry \<Rightarrow> string option \<Rightarrow> bool outcome" where
  "is_correct_parent_device slack e parent =
     (case parent of
        None \<Rightarrow> Ret (pe_device e = None)
      | Some par \<Rightarrow>
          (case pe_device e of
             None \<Rightarrow> Ret False
           | Some target \<Rightarrow>
               if length par < 2 then Ret False
               else case after_slash target of
                   None \<Rightarrow> Oops
                 | Some token \<Rightarrow>
                     let len = min (length token) slack
                     in Ret (length par = len \<and> take len token = take len par)))"

text \<open>The assertion on the index stops the process.\<close>

fun find_unused_card_for ::
  "nat \<Rightarrow> nat option list \<Rightarrow> string option \<Rightarrow> platform_entry list \<Rightarrow> s32 outcome" where
  "find_unused_card_for slack usage parent [] = Ret (- 1)"
| "find_unused_card_for slack usage parent (e # es) =
     (if take 4 (pe_name e) \<noteq> ''evdi'' then find_unused_card_for slack usage parent es
      else case is_correct_parent_device slack e parent of
          Oops \<Rightarrow> Oops
        | Ret False \<Rightarrow> find_unused_card_for slack usage parent es
        | Ret True \<Rightarrow>
            let dev_index = get_drm_device_index (pe_drm e)
            in if \<not> (sint dev_index < int EVDI_USAGE_LEN \<and> 0 \<le> sint dev_index) then Oops
               else if usage ! nat (sint dev_index) = None then Ret dev_index
               else find_unused_card_for slack usage parent es)"

text \<open>
  The directory before and after the command to add a card; what was written, if anything, is the
  third part of the result.
\<close>

definition find_or_add ::
  "nat \<Rightarrow> nat option list \<Rightarrow> string option \<Rightarrow> string \<Rightarrow> platform_entry list \<Rightarrow> platform_entry list \<Rightarrow>
     (s32 \<times> string option) outcome" where
  "find_or_add slack usage parent cmd before after =
     (case find_unused_card_for slack usage parent before of
        Oops \<Rightarrow> Oops
      | Ret idx \<Rightarrow>
          if idx \<noteq> - 1 then Ret (idx, None)
          else case find_unused_card_for slack usage parent after of
              Oops \<Rightarrow> Oops
            | Ret idx2 \<Rightarrow> Ret (idx2, Some cmd))"

definition get_generic_device ::
  "nat \<Rightarrow> nat option list \<Rightarrow> platform_entry list \<Rightarrow> platform_entry list \<Rightarrow> (s32 \<times> string option) outcome" where
  "get_generic_device slack usage before after = find_or_add slack usage None ''1'' before after"

definition get_device_attached_to_usb ::
  "nat \<Rightarrow> nat option list \<Rightarrow> string \<Rightarrow> platform_entry list \<Rightarrow> platform_entry list \<Rightarrow>
     (s32 \<times> string option) outcome" where
  "get_device_attached_to_usb slack usage path before after =
     (if length path < 4 then Ret (- 1, None)
      else find_or_add slack usage (Some (drop 4 path)) path before after)"

text \<open>\<open>length\<close> is the length the caller gives, here that of the string.\<close>

definition wanted_card ::
  "nat \<Rightarrow> nat option list \<Rightarrow> string option \<Rightarrow> platform_entry list \<Rightarrow> platform_entry list \<Rightarrow>
     (s32 \<times> string option) outcome" where
  "wanted_card slack usage path before after =
     (case path of
        None \<Rightarrow> get_generic_device slack usage before after
      | Some p \<Rightarrow>
          if 4 < length p \<and> take 4 p = ''usb:''
          then get_device_attached_to_usb slack usage p before after
          else Ret (- 1, None))"

definition evdi_open_attached_to_fixed ::
  "nat \<Rightarrow> (nat \<Rightarrow> attempt) \<Rightarrow> drm_version result \<Rightarrow> drm_version result \<Rightarrow> nat option \<Rightarrow> string option \<Rightarrow>
     platform_entry list \<Rightarrow> platform_entry list \<Rightarrow> library \<Rightarrow> (nat option \<times> library) outcome" where
  "evdi_open_attached_to_fixed slack attempts v1 v2 fresh path before after lib =
     (case wanted_card slack (card_usage lib) path before after of
        Oops \<Rightarrow> Oops
      | Ret (idx, _) \<Rightarrow>
          if 0 \<le> sint idx \<and> sint idx < int EVDI_USAGE_LEN
          then evdi_open attempts v1 v2 fresh idx lib
          else Ret (None, lib))"

section \<open>The status of a device\<close>

datatype evdi_device_status = AVAILABLE | UNRECOGNIZED | NOT_PRESENT

text \<open>\<open>entries\<close> is the platform directory, if it could be read: names, and whether the card is below.\<close>

definition evdi_check_device :: "bool \<Rightarrow> (string \<times> bool) list option \<Rightarrow> evdi_device_status" where
  "evdi_check_device device_exists entries =
     (if \<not> device_exists then NOT_PRESENT
      else case entries of
          None \<Rightarrow> NOT_PRESENT
        | Some es \<Rightarrow>
            if \<exists>e\<in>set es. take 4 (fst e) = ''evdi'' \<and> snd e then AVAILABLE else UNRECOGNIZED)"

section \<open>The retry loop\<close>

lemma open_as_slave_files:
  "open_as_slave a = (fd, files) \<Longrightarrow> files = (if sint fd < 0 then [] else [fd])"
  by (auto simp: open_as_slave_def Let_def split: if_splits sum.splits)

lemma wait_loop_result:
  "wait_loop attempts k cnt = ((fd, files), n) \<Longrightarrow>
     k < n \<and> n \<le> k + cnt + 1 \<and> open_as_slave (attempts (n - 1)) = (fd, files) \<and>
     (\<forall>j. k \<le> j \<longrightarrow> j < n - 1 \<longrightarrow> sint (fst (open_as_slave (attempts j))) < 0) \<and>
     (sint fd < 0 \<longrightarrow> n = k + cnt + 1)"
proof (induction attempts k cnt rule: wait_loop.induct)
  case (1 attempts k cnt)
  obtain fd0 files0 where o: "open_as_slave (attempts k) = (fd0, files0)" by fastforce
  show ?case
  proof (cases "sint fd0 < 0 \<and> cnt \<noteq> 0")
    case True
    then have r: "wait_loop attempts (k + 1) (cnt - 1) = ((fd, files), n)"
      using "1.prems" o by (simp add: wait_loop.simps [of attempts k])
    have ih: "k + 1 < n \<and> n \<le> k + 1 + (cnt - 1) + 1 \<and> open_as_slave (attempts (n - 1)) = (fd, files) \<and>
     (\<forall>j. k + 1 \<le> j \<longrightarrow> j < n - 1 \<longrightarrow> sint (fst (open_as_slave (attempts j))) < 0) \<and>
     (sint fd < 0 \<longrightarrow> n = k + 1 + (cnt - 1) + 1)"
      by (rule "1.IH" [OF o [symmetric] True r])
    have "sint (fst (open_as_slave (attempts j))) < 0" if "k \<le> j" "j < n - 1" for j
    proof (cases "j = k")
      case False
      then show ?thesis using ih that by simp
    qed (use o True in simp)
    then show ?thesis using ih True by auto
  next
    case False
    then have "fd = fd0" "files = files0" "n = k + 1"
      using "1.prems" o by (auto simp: wait_loop.simps [of attempts k] split: if_splits)
    then show ?thesis using o False by auto
  qed
qed

lemma wait_for_device_files:
  assumes "wait_for_device attempts = (fd, files)"
  shows "files = (if sint fd < 0 then [] else [fd])"
proof -
  let ?n = "snd (wait_loop attempts 0 WAIT_TRIES)"
  have "wait_loop attempts 0 WAIT_TRIES = ((fd, files), ?n)"
    using assms by (simp add: wait_for_device_def prod_eq_iff)
  from wait_loop_result [OF this] have "open_as_slave (attempts (?n - 1)) = (fd, files)" by simp
  then show ?thesis by (rule open_as_slave_files)
qed

section \<open>Properties\<close>

text \<open>
  Waiting for a card makes at most fifty-one attempts, gives up only when all of them failed, and
  leaves open the descriptor it returns and no other.
\<close>

theorem wait_for_device_bounded:
  "snd (wait_loop attempts 0 WAIT_TRIES) \<le> 51 \<and>
   (case wait_for_device attempts of
      (fd, files) \<Rightarrow>
        if sint fd < 0 then files = [] \<and> (\<forall>k<51. sint (fst (open_as_slave (attempts k))) < 0)
        else files = [fd])"
proof -
  obtain fd files n where w: "wait_loop attempts 0 WAIT_TRIES = ((fd, files), n)" by (metis surj_pair)
  have W: "WAIT_TRIES = 50" by (simp add: WAIT_TRIES_def)
  note r = wait_loop_result [OF w, unfolded W]
  have d: "wait_for_device attempts = (fd, files)" using w by (simp add: wait_for_device_def)
  have "\<forall>k<51. sint (fst (open_as_slave (attempts k))) < 0" if "sint fd < 0"
  proof (intro allI impI)
    fix k :: nat
    assume "k < 51"
    moreover have "n = 51" using r that by simp
    ultimately have "k < n - 1 \<or> k = n - 1" by linarith
    then show "sint (fst (open_as_slave (attempts k))) < 0" using r that by auto
  qed
  then show ?thesis using r w d wait_for_device_files [OF d] by auto
qed

text \<open>
  C24: opening and closing a card are inverse: when it cannot be opened, the library is as before,
  unless the descriptor was 0, which stays open; when it is opened, closing the handle gives back the
  descriptors, the handles and the table as they were.
\<close>

theorem open_close_roundtrip:
  assumes "evdi_open attempts v1 v2 fresh device lib = Ret (r, lib')"
    and "\<forall>h. fresh = Some h \<longrightarrow> handles lib h = None \<and> Some h \<notin> set (card_usage lib)"
    and "length (card_usage lib) = EVDI_USAGE_LEN"
    and "0 \<le> sint device" and "card_usage lib ! nat (sint device) = None"
  shows "case r of
      None \<Rightarrow> lib' = lib\<lparr>open_files := (if fst (wait_for_device attempts) = 0 then [0] else []) @ open_files lib\<rparr>
    | Some h \<Rightarrow> card_usage lib' ! nat (sint device) = Some h \<and> evdi_close (Some h) lib' = Ret lib"
proof -
  obtain fd files where w: "wait_for_device attempts = (fd, files)" by fastforce
  have f: "files = (if sint fd < 0 then [] else [fd])" by (rule wait_for_device_files [OF w])
  have zero: "fd = 0" if "\<not> 0 < sint fd" "\<not> sint fd < 0"
    by (rule signed_word_eqI) (use that in simp)
  show ?thesis
  proof (cases "0 < sint fd \<and> is_evdi v1 \<and> is_evdi_compatible v2 \<and> fresh \<noteq> None")
    case True
    then obtain h where h: "fresh = Some h" by blast
    have d: "sint device < int EVDI_USAGE_LEN"
      using assms(1) True h w by (auto simp: evdi_open_def open_device_def Let_def split: if_splits)
    then have i: "nat (sint device) < length (card_usage lib)"
      using assms(3,4) by (simp add: nat_less_iff)
    have r: "r = Some h" and lib': "lib' = lib\<lparr>open_files := fd # open_files lib,
        handles := (handles lib)(h \<mapsto> \<lparr>ctx_fd = fd, bufferToUpdate = 0,
          frameBuffers = \<lparr>head_node = None, nodes = (\<lambda>_. None)\<rparr>, device_index = device\<rparr>),
        card_usage := (card_usage lib)[nat (sint device) := Some h]\<rparr>"
      using assms(1,4) True h w d f by (auto simp: evdi_open_def open_device_def Let_def)
    have "map (\<lambda>u. if u = Some h then None else u) ((card_usage lib)[nat (sint device) := Some h])
        = card_usage lib"
    proof (rule nth_equalityI)
      fix j
      assume "j < length (map (\<lambda>u. if u = Some h then None else u)
          ((card_usage lib)[nat (sint device) := Some h]))"
      then have j: "j < length (card_usage lib)" by simp
      then have "card_usage lib ! j \<noteq> Some h" using assms(2) h nth_mem [OF j] by metis
      then show "map (\<lambda>u. if u = Some h then None else u)
          ((card_usage lib)[nat (sint device) := Some h]) ! j = card_usage lib ! j"
        using assms(5) i j by (auto simp: nth_list_update)
    qed simp
    then show ?thesis
      using assms(2) i unfolding r lib' by (simp add: evdi_close_def h fun_upd_idem)
  next
    case False
    then have "r = None" "lib' = lib\<lparr>open_files := (if fd = 0 then [0] else []) @ open_files lib\<rparr>"
      using assms(1) w f zero
      by (auto simp: evdi_open_def open_device_def Let_def split: if_splits option.splits)
    then show ?thesis using w by simp
  qed
qed

definition sample_library :: library where
  "sample_library = \<lparr>handles = (\<lambda>_. None), card_usage = replicate 64 None, open_files = []\<rparr>"

definition sample_attempt :: attempt where
  "sample_attempt = \<lparr>at_open = 9, at_master = False, at_drop = Inr (), at_master_after = False\<rparr>"

definition sample_version :: "drm_version result" where
  "sample_version = Inr \<lparr>ver_name = ''evdi'', ver_major = 1, ver_minor = 14\<rparr>"

lemma sample_wait: "wait_for_device (\<lambda>_. sample_attempt) = (9, [9])"
  by (simp add: wait_for_device_def wait_loop.simps open_as_slave_def sample_attempt_def)

theorem wait_for_device_bounded_witness:
  "let late = (\<lambda>k. if k < 2 then sample_attempt\<lparr>at_open := - 1\<rparr> else sample_attempt)
   in wait_for_device late = (9, [9]) \<and> snd (wait_loop late 0 WAIT_TRIES) \<le> 51"
proof -
  let ?late = "\<lambda>k. if k < 2 then sample_attempt\<lparr>at_open := - 1\<rparr> else sample_attempt"
  have "fst (wait_for_device ?late) = 9"
    by (simp add: wait_for_device_def wait_loop.simps open_as_slave_def sample_attempt_def WAIT_TRIES_def)
  then show ?thesis using wait_for_device_bounded [of ?late] by (cases "wait_for_device ?late") simp
qed

theorem open_close_roundtrip_witness:
  "\<exists>lib'. evdi_open (\<lambda>_. sample_attempt) sample_version sample_version (Some 100) 3 sample_library
      = Ret (Some 100, lib') \<and> evdi_close (Some 100) lib' = Ret sample_library"
proof -
  obtain lib' where o: "evdi_open (\<lambda>_. sample_attempt) sample_version sample_version (Some 100) 3 sample_library
      = Ret (Some 100, lib')"
    by (simp add: evdi_open_def open_device_def sample_wait is_evdi_def is_evdi_compatible_def
        sample_version_def EVDI_USAGE_LEN_def)
  show ?thesis
    using open_close_roundtrip [OF o] o by (simp add: sample_library_def EVDI_USAGE_LEN_def)
qed

lemma find_unused_card_sound:
  "find_unused_card_for slack usage parent es = Ret idx \<Longrightarrow> idx \<noteq> - 1 \<Longrightarrow>
     \<exists>e\<in>set es. take 4 (pe_name e) = ''evdi'' \<and> is_correct_parent_device slack e parent = Ret True \<and>
       get_drm_device_index (pe_drm e) = idx \<and> 0 \<le> sint idx \<and> sint idx < int EVDI_USAGE_LEN \<and>
       usage ! nat (sint idx) = None"
proof (induction es)
  case (Cons e es)
  let ?idx = "get_drm_device_index (pe_drm e)"
  show ?case
  proof (cases "take 4 (pe_name e) = ''evdi'' \<and> is_correct_parent_device slack e parent = Ret True \<and>
      usage ! nat (sint ?idx) = None \<and> sint ?idx < int EVDI_USAGE_LEN \<and> 0 \<le> sint ?idx")
    case True
    then show ?thesis using Cons.prems by (simp add: Let_def)
  next
    case False
    then have "find_unused_card_for slack usage parent es = Ret idx"
      using Cons.prems(1) by (auto simp: Let_def split: if_splits outcome.splits bool.splits)
    then show ?thesis using Cons.IH Cons.prems(2) by auto
  qed
qed simp

lemma is_correct_parent_device_true:
  assumes "is_correct_parent_device slack e (Some par) = Ret True"
  obtains target token where "pe_device e = Some target" "after_slash target = Some token"
    "length par = min (length token) slack"
    "take (min (length token) slack) token = take (min (length token) slack) par"
  using assms by (auto simp: is_correct_parent_device_def Let_def split: option.splits if_splits)

text \<open>
  The card chosen for a USB device is an unused card of the table's range whose platform device
  hangs below a device of exactly that name, when the bound of the comparison reaches the whole name;
  and nothing is added to the system when such a card is found at once.
\<close>

theorem wanted_card_is_right:
  assumes "wanted_card slack usage (Some path) before after = Ret (idx, written)" and "idx \<noteq> - 1"
    and "\<And>e target token. e \<in> set before \<union> set after \<Longrightarrow> pe_device e = Some target \<Longrightarrow>
       after_slash target = Some token \<Longrightarrow> length token \<le> slack"
  shows "\<exists>e\<in>set (if written = None then before else after).
    take 4 (pe_name e) = ''evdi'' \<and> get_drm_device_index (pe_drm e) = idx \<and>
    (\<exists>target. pe_device e = Some target \<and> after_slash target = Some (drop 4 path)) \<and>
    usage ! nat (sint idx) = None \<and> 0 \<le> sint idx \<and> sint idx < int EVDI_USAGE_LEN"
proof -
  have f: "find_or_add slack usage (Some (drop 4 path)) path before after = Ret (idx, written)"
    using assms(1,2) by (auto simp: wanted_card_def get_device_attached_to_usb_def split: if_splits)
  let ?es = "if written = None then before else after"
  have "find_unused_card_for slack usage (Some (drop 4 path)) ?es = Ret idx"
    using f by (auto simp: find_or_add_def split: outcome.splits if_splits)
  from find_unused_card_sound [OF this assms(2)] obtain e where e: "e \<in> set ?es"
      "take 4 (pe_name e) = ''evdi''" "is_correct_parent_device slack e (Some (drop 4 path)) = Ret True"
      "get_drm_device_index (pe_drm e) = idx" "0 \<le> sint idx" "sint idx < int EVDI_USAGE_LEN"
      "usage ! nat (sint idx) = None"
    by blast
  have m: "e \<in> set before \<union> set after" using e(1) by (auto split: if_splits)
  obtain target token where t: "pe_device e = Some target" "after_slash target = Some token"
      and eq: "length (drop 4 path) = min (length token) slack"
        "take (min (length token) slack) token = take (min (length token) slack) (drop 4 path)"
    by (rule is_correct_parent_device_true [OF e(3)])
  have n: "min (length token) slack = length token" using assms(3) [OF m t] by (rule min_absorb1)
  have l: "length (drop 4 path) = length token" by (rule eq(1) [unfolded n])
  have "take (length token) token = take (length token) (drop 4 path)" by (rule eq(2) [unfolded n])
  then have "token = drop 4 path" by (simp only: take_all [OF order_refl] take_all [OF eq_refl [OF l]])
  then have "after_slash target = Some (drop 4 path)" using t(2) by (simp only:)
  then show ?thesis using e t(1) by (intro bexI [of _ e] conjI exI [of _ target])
qed

definition sample_entry :: platform_entry where
  "sample_entry = \<lparr>pe_name = ''evdi.0'', pe_device = Some ''../../1-2'', pe_drm = Some [''card12'', ''render'']\<rparr>"

lemma sample_token: "after_slash ''../../1-2'' = Some ''1-2''"
  by (simp add: after_slash_def)

lemma sample_index: "get_drm_device_index (pe_drm sample_entry) = 12"
  by (simp add: get_drm_device_index_def sample_entry_def strtol_def is_space_def digit_def)

theorem wanted_card_is_right_witness:
  "wanted_card 4096 (replicate 64 None) (Some ''usb:1-2'') [sample_entry] [] = Ret (12, None) \<and>
   (\<exists>e\<in>{sample_entry}. \<exists>target. pe_device e = Some target \<and> after_slash target = Some ''1-2'')"
proof
  show w: "wanted_card 4096 (replicate 64 None) (Some ''usb:1-2'') [sample_entry] [] = Ret (12, None)"
    using sample_token sample_index
    by (simp add: wanted_card_def get_device_attached_to_usb_def find_or_add_def
        is_correct_parent_device_def sample_entry_def EVDI_USAGE_LEN_def Let_def)
  have b: "\<And>e target token. e \<in> set [sample_entry] \<union> set [] \<Longrightarrow> pe_device e = Some target \<Longrightarrow>
       after_slash target = Some token \<Longrightarrow> length token \<le> 4096"
    using sample_token by (auto simp: sample_entry_def)
  show "\<exists>e\<in>{sample_entry}. \<exists>target. pe_device e = Some target \<and> after_slash target = Some ''1-2''"
    using wanted_card_is_right [OF w _ b] by simp
qed

end
