(* ===== verification/Evdi_Lib.thy ===== *)
theory Evdi_Lib
  imports Evdi_LibOpen Evdi_Damage Evdi_Ddcci
begin

text \<open>
  The requests of the library to the driver, \<open>library/evdi_lib.c\<close>: the loop around \<open>ioctl\<close>, the
  commands, and the grab of the pixels, put together with the driver's side of it.
\<close>

section \<open>The loop around the system call\<close>

text \<open>
  \<open>call\<close> is one system call: its result and the state it leaves. No result at all is a loop that does
  not end.
\<close>

partial_function (option) drm_ioctl ::
  "('s \<Rightarrow> ('a result \<times> 's) outcome) \<Rightarrow> 's \<Rightarrow> ('a result \<times> 's) outcome option" where
  "drm_ioctl call s =
     (case call s of
        Oops \<Rightarrow> Some Oops
      | Ret (r, s1) \<Rightarrow>
          if r = Inl EINTR \<or> r = Inl EAGAIN then drm_ioctl call s1 else Some (Ret (r, s1)))"

text \<open>The result as the code sees it: minus one for an error.\<close>

definition do_ioctl ::
  "('s \<Rightarrow> (nat result \<times> 's) outcome) \<Rightarrow> 's \<Rightarrow> (int \<times> 's) outcome option" where
  "do_ioctl call s =
     (case drm_ioctl call s of
        None \<Rightarrow> None
      | Some Oops \<Rightarrow> Some Oops
      | Some (Ret (Inl _, s1)) \<Rightarrow> Some (Ret (- 1, s1))
      | Some (Ret (Inr n, s1)) \<Rightarrow> Some (Ret (int n, s1)))"

section \<open>Commands\<close>

definition evdi_connect2 :: "u64 \<Rightarrow> u32 \<Rightarrow> u32 \<Rightarrow> u32 \<Rightarrow> drm_evdi_connect" where
  "evdi_connect2 e len max_area per_second =
     \<lparr>connected = 1, conn_edid = e, conn_edid_length = len, conn_pixel_area_limit = max_area,
      conn_pixel_per_second_limit = per_second\<rparr>"

definition evdi_connect :: "u64 \<Rightarrow> u32 \<Rightarrow> u32 \<Rightarrow> drm_evdi_connect" where
  "evdi_connect e len sku = evdi_connect2 e len sku (sku * 60)"

definition evdi_disconnect :: drm_evdi_connect where
  "evdi_disconnect =
     \<lparr>connected = 0, conn_edid = 0, conn_edid_length = 0, conn_pixel_area_limit = 0,
      conn_pixel_per_second_limit = 0\<rparr>"

definition evdi_enable_cursor_events :: "bool \<Rightarrow> u8" where
  "evdi_enable_cursor_events enable = (if enable then 1 else 0)"

definition evdi_ddcci_response :: "u64 \<Rightarrow> u32 \<Rightarrow> bool \<Rightarrow> drm_evdi_ddcci_response" where
  "evdi_ddcci_response buf len ok =
     \<lparr>resp_buffer = buf, resp_buffer_length = len, resp_result = (if ok then 1 else 0)\<rparr>"

text \<open>The buffer for the next grab is remembered; the answer is whether to grab at once.\<close>

definition evdi_request_update ::
  "('s \<Rightarrow> (nat result \<times> 's) outcome) \<Rightarrow> s32 \<Rightarrow> evdi_device_context \<Rightarrow> 's \<Rightarrow>
     (bool \<times> evdi_device_context \<times> 's) outcome option" where
  "evdi_request_update call bid c s =
     (case do_ioctl call s of
        None \<Rightarrow> None
      | Some Oops \<Rightarrow> Some Oops
      | Some (Ret (n, s1)) \<Rightarrow> Some (Ret (n = 1, c\<lparr>bufferToUpdate := bid\<rparr>, s1)))"

section \<open>Grabbing pixels\<close>

record evdi_rect =
  er_x1 :: s32
  er_y1 :: s32
  er_x2 :: s32
  er_y2 :: s32

definition to_evdi_rect :: "drm_clip_rect \<Rightarrow> evdi_rect" where
  "to_evdi_rect r = \<lparr>er_x1 = ucast (x1 r), er_y1 = ucast (y1 r), er_x2 = ucast (x2 r), er_y2 = ucast (y2 r)\<rparr>"

text \<open>A rectangle in memory is its four 16-bit fields.\<close>

definition rect_of_bytes :: "u8 list \<Rightarrow> drm_clip_rect" where
  "rect_of_bytes bs =
     \<lparr>x1 = le_word (take 2 bs), y1 = le_word (take 2 (drop 2 bs)), x2 = le_word (take 2 (drop 4 bs)),
      y2 = le_word (take 2 (drop 6 bs))\<rparr>"

definition read_rect :: "umem \<Rightarrow> u64 \<Rightarrow> drm_clip_rect" where
  "read_rect mem addr = rect_of_bytes (map (\<lambda>j. mem (addr + of_nat j)) [0..<8])"

definition LIB_MAX_DIRTS :: nat where
  "LIB_MAX_DIRTS = 16"

definition grab_command :: "u64 \<Rightarrow> evdi_buffer \<Rightarrow> drm_evdi_grabpix" where
  "grab_command dirts b =
     \<lparr>mode = EVDI_GRABPIX_MODE_DIRTY, buf_width = eb_width b, buf_height = eb_height b,
      buf_byte_stride = eb_stride b, buffer = eb_buffer b, num_rects = int LIB_MAX_DIRTS,
      rects_ptr = dirts\<rparr>"

text \<open>
  \<open>serve\<close> is the driver's side, on its state \<open>k\<close>; \<open>dirts\<close> is the address of the array on the stack.
  The result is the rectangles stored for the client and their number. Reading past the array is an
  \<open>Oops\<close>.
\<close>

definition evdi_grab_pixels ::
  "(drm_evdi_grabpix \<Rightarrow> 'k \<Rightarrow> umem \<Rightarrow> (unit result \<times> drm_evdi_grabpix \<times> 'k \<times> umem) outcome) \<Rightarrow>
     u64 \<Rightarrow> evdi_device_context \<Rightarrow> 'k \<Rightarrow> umem \<Rightarrow>
     (evdi_rect list \<times> int \<times> 'k \<times> umem) outcome option" where
  "evdi_grab_pixels serve dirts c k mem =
     (let mem0 = snd (user_store mem dirts (replicate (8 * LIB_MAX_DIRTS) 0))
      in case findBuffer (frameBuffers c) (bufferToUpdate c) of
          None \<Rightarrow> None
        | Some Oops \<Rightarrow> Some Oops
        | Some (Ret None) \<Rightarrow> Some (Ret ([], 0, k, mem0))
        | Some (Ret (Some a)) \<Rightarrow>
            (case nodes (frameBuffers c) a of
               None \<Rightarrow> Some Oops
             | Some n \<Rightarrow>
                 (case drm_ioctl (\<lambda>(cmd, k, m). serve cmd k m)
                         (grab_command dirts (frame_buffer n), k, mem0) of
                    None \<Rightarrow> None
                  | Some Oops \<Rightarrow> Some Oops
                  | Some (Ret (Inl _, cmd, k1, mem1)) \<Rightarrow> Some (Ret ([], 0, k1, mem1))
                  | Some (Ret (Inr _, cmd, k1, mem1)) \<Rightarrow>
                      if int LIB_MAX_DIRTS < num_rects cmd then Some Oops
                      else Some (Ret
                        (map (\<lambda>r. to_evdi_rect (read_rect mem1 (dirts + of_nat (8 * r))))
                           [0..<nat (num_rects cmd)], num_rects cmd, k1, mem1)))))"

section \<open>Rectangles through memory\<close>

lemma length_rect_bytes: "length (rect_bytes r) = 8"
  by (simp add: rect_bytes_def)

lemma rect_of_bytes_bytes: "rect_of_bytes (rect_bytes r) = r"
  by (cases r) (simp add: rect_of_bytes_def rect_bytes_def le_word_bytes)

lemma concat_fixed_nth:
  "(\<And>r. length (f r) = k) \<Longrightarrow> i < length rs \<Longrightarrow> j < k \<Longrightarrow> concat (map f rs) ! (k * i + j) = f (rs ! i) ! j"
proof (induction rs arbitrary: i)
  case (Cons r rs)
  then show ?case by (cases i) (simp_all add: nth_append algebra_simps)
qed simp

lemma length_concat_fixed: "(\<And>r. length (f r) = k) \<Longrightarrow> length (concat (map f rs)) = k * length rs"
  by (induction rs) simp_all

lemma read_rect_written:
  assumes ok: "copy_to_user_ok ctu" and w: "ctu mem addr (concat (map rect_bytes rs)) = (False, mem1)"
    and "length rs \<le> 16" and i: "i < length rs"
    and keep: "\<And>b. b \<in> addressed addr 128 \<Longrightarrow> mem2 b = mem1 b"
  shows "read_rect mem2 (addr + of_nat (8 * i)) = rs ! i"
proof -
  have l: "length (concat (map rect_bytes rs)) = 8 * length rs"
    by (rule length_concat_fixed) (rule length_rect_bytes)
  have "mem2 (addr + of_nat (8 * i) + of_nat j) = rect_bytes (rs ! i) ! j" if j: "j < 8" for j
  proof -
    have n: "8 * i + j < 8 * length rs" using i j by linarith
    have "addr + of_nat (8 * i + j) \<in> addressed addr 128"
      unfolding addressed_def using n assms(3) by (intro imageI) simp
    then have "mem2 (addr + of_nat (8 * i + j)) = mem1 (addr + of_nat (8 * i + j))" by (rule keep)
    also have "\<dots> = concat (map rect_bytes rs) ! (8 * i + j)"
      by (rule copy_written [OF ok w]) (use l n assms(3) in simp_all)
    also have "\<dots> = rect_bytes (rs ! i) ! j"
      by (rule concat_fixed_nth) (use length_rect_bytes i j in simp_all)
    finally show ?thesis by (simp add: add.assoc)
  qed
  then have "map (\<lambda>j. mem2 (addr + of_nat (8 * i) + of_nat j)) [0..<8] = rect_bytes (rs ! i)"
    by (intro nth_equalityI) (simp_all add: length_rect_bytes)
  then show ?thesis by (simp only: read_rect_def rect_of_bytes_bytes)
qed

section \<open>The driver's answer to a grab\<close>

lemma compose_loop_error:
  assumes "\<And>x m e m'. f x m = Ret (Inl e, m') \<Longrightarrow> e = EFAULT"
  shows "compose_loop f xs m = Ret (Inl e, m') \<Longrightarrow> e = EFAULT"
  by (induction xs arbitrary: m) (auto split: outcome.splits sum.splits dest: assms)

lemma copy_rows_error:
  "copy_rows ctu vm span pitch ds n dst src m = Ret (Inl e, m') \<Longrightarrow> e = EFAULT"
  by (induction n arbitrary: dst src m) (auto split: option.splits prod.splits if_splits)

lemma copy_one_rect_error:
  "copy_one_rect ctu vm fb buf s mx my r m = Ret (Inl e, m') \<Longrightarrow> e = EFAULT"
  unfolding copy_one_rect_def Let_def by (auto split: if_splits dest: copy_rows_error)

text \<open>Once rectangles are taken, the driver never asks for another try.\<close>

lemma grab_after_take:
  assumes cs: "copy_setup (ge_ctu env) vm fb (buf_byte_stride cmd)" and x: "\<not> is_from_xe fb"
    and up: "\<forall>r\<in>set (g_rects g). upright r" and g: "g_fb g = fb" and o: "fb_obj fb = Some a"
    and v: "grab_vmap (ge_vmap env) a objs = (Some vm, objs1)"
    and len: "length (g_rects g) \<le> 16"
    and apart: "addressed (rects_ptr cmd) 128 \<inter>
      pixel_bytes (buffer cmd) (unat (buf_byte_stride cmd)) (frame_of fb) = {}"
  shows "\<exists>r mem'. grabpix_copy env cmd g c True objs mem = Ret (r, objs1, mem') \<and>
    r \<noteq> Inl EAGAIN \<and> r \<noteq> Inl EINTR \<and>
    (r = Inr () \<longrightarrow>
       (\<forall>p\<in>damage_of (g_rects g).
          shows_pixel vm fb (buffer cmd) (unat (buf_byte_stride cmd)) mem' p) \<and>
       (\<forall>i<length (g_rects g). read_rect mem' (rects_ptr cmd + of_nat (8 * i)) = g_rects g ! i))"
proof (cases "buf_width cmd = fb_width fb \<and> buf_height cmd = fb_height fb")
  case False
  then show ?thesis by (auto simp: grabpix_copy_def g o v)
next
  case True
  let ?rs = "g_rects g" and ?s = "buf_byte_stride cmd" and ?buf = "buffer cmd"
  obtain failed mem1 where w: "ge_ctu env mem (rects_ptr cmd) (concat (map rect_bytes ?rs)) = (failed, mem1)"
    by fastforce
  obtain ret mem2 where c: "compose_loop (copy_one_rect (ge_ctu env) vm fb ?buf ?s (fb_width fb)
        (fb_height fb)) ?rs mem1 = Ret (ret, mem2)"
      "\<And>b. b \<notin> pixel_bytes ?buf (unat ?s) (damage_of ?rs \<inter> frame_of fb) \<Longrightarrow> mem2 b = mem1 b"
      "ret = Inr () \<Longrightarrow> damage_of ?rs \<subseteq> frame_of fb \<and>
         (\<forall>p\<in>damage_of ?rs. shows_pixel vm fb ?buf (unat ?s) mem2 p)"
    using copy_rects_result [OF cs up, of ?buf mem1] by blast
  have e: "e = EFAULT" if "ret = Inl e" for e
    by (rule compose_loop_error [OF _ c(1) [unfolded that]]) (rule copy_one_rect_error)
  have p: "copy_primary_pixels (ge_vmalloc env) (ge_ctu env) vm fb ?buf ?s ?rs (fb_width fb)
      (fb_height fb) mem1 = Ret (ret, mem2)"
    using c(1) x by (simp add: copy_primary_pixels_def)
  have k: "mem2 b = mem1 b" if "b \<in> addressed (rects_ptr cmd) 128" for b
  proof (rule c(2))
    have "b \<notin> pixel_bytes ?buf (unat ?s) (frame_of fb)" using apart that by blast
    then show "b \<notin> pixel_bytes ?buf (unat ?s) (damage_of ?rs \<inter> frame_of fb)"
      using pixel_bytes_mono [OF Int_lower2, of ?buf "unat ?s" "damage_of ?rs" "frame_of fb"] by blast
  qed
  have rd: "read_rect mem2 (rects_ptr cmd + of_nat (8 * i)) = ?rs ! i" if "i < length ?rs" "\<not> failed" for i
    by (rule read_rect_written [OF _ _ len that(1) k, of "ge_ctu env"])
      (use cs w that(2) in \<open>simp_all add: copy_setup_def\<close>)
  show ?thesis
    using True w p e c(3) rd by (cases ret) (auto simp: grabpix_copy_def g o v Let_def)
qed

lemma drm_ioctl_once:
  assumes "call s = Ret (r, s1)" and "r \<noteq> Inl EAGAIN" and "r \<noteq> Inl EINTR"
  shows "drm_ioctl call s = Some (Ret (r, s1))"
  by (subst drm_ioctl.simps) (simp add: assms)

text \<open>A call that asks for another try from every state it leads to is repeated for ever.\<close>

lemma drm_ioctl_spins:
  assumes step: "\<And>s. again s \<Longrightarrow> \<exists>s'. call s = Ret (Inl EAGAIN, s') \<and> again s'" and "again s"
  shows "drm_ioctl call s = None"
proof -
  have "c = call \<longrightarrow> \<not> again s" if "drm_ioctl c s = Some y" for c s y
  proof (rule drm_ioctl.raw_induct [where P = "\<lambda>c s y. c = call \<longrightarrow> \<not> again s", OF _ that])
    fix loop c s y
    assume ih: "\<And>c s y. loop c s = Some y \<Longrightarrow> c = call \<longrightarrow> \<not> again s"
      and r: "(case c s of Oops \<Rightarrow> Some Oops
        | Ret (r, s1) \<Rightarrow> if r = Inl EINTR \<or> r = Inl EAGAIN then loop c s1 else Some (Ret (r, s1))) = Some y"
    show "c = call \<longrightarrow> \<not> again s"
    proof (intro impI notI)
      assume "c = call" and "again s"
      then obtain s' where "c s = Ret (Inl EAGAIN, s')" "again s'" using step by blast
      then show False using ih [of c s' y] r \<open>c = call\<close> by simp
    qed
  qed
  then show ?thesis using assms(2) by (cases "drm_ioctl call s") auto
qed

lemma grab_found:
  assumes "holds (frameBuffers c) bs" and "List.find (\<lambda>b. eb_id b = bufferToUpdate c) bs = Some b"
  obtains a n where "findBuffer (frameBuffers c) (bufferToUpdate c) = Some (Ret (Some a))"
    "nodes (frameBuffers c) a = Some n" "frame_buffer n = b"
proof -
  obtain r where r: "findBuffer (frameBuffers c) (bufferToUpdate c) = Some (Ret r)"
    "map_option (\<lambda>a. frame_buffer (the (nodes (frameBuffers c) a))) r = Some b"
    using findBuffer_holds [OF assms(1)] assms(2) by metis
  then obtain a where a: "r = Some a" "frame_buffer (the (nodes (frameBuffers c) a)) = b" by blast
  have "nodes (frameBuffers c) a \<noteq> None"
    using findBuffer_allocated [OF assms(1) r(1) [unfolded a(1)]] .
  then show ?thesis using that r(1) a by auto
qed

lemma grab_pixels_unfold:
  assumes "holds (frameBuffers c) bs" and "List.find (\<lambda>b. eb_id b = bufferToUpdate c) bs = Some b"
  shows "evdi_grab_pixels serve dirts c k mem =
    (case drm_ioctl (\<lambda>(cmd, k, m). serve cmd k m)
            (grab_command dirts b, k, snd (user_store mem dirts (replicate 128 0))) of
       None \<Rightarrow> None
     | Some Oops \<Rightarrow> Some Oops
     | Some (Ret (Inl _, cmd, k1, mem1)) \<Rightarrow> Some (Ret ([], 0, k1, mem1))
     | Some (Ret (Inr _, cmd, k1, mem1)) \<Rightarrow>
         if int LIB_MAX_DIRTS < num_rects cmd then Some Oops
         else Some (Ret
           (map (\<lambda>r. to_evdi_rect (read_rect mem1 (dirts + of_nat (8 * r)))) [0..<nat (num_rects cmd)],
            num_rects cmd, k1, mem1)))"
proof -
  obtain a n where "findBuffer (frameBuffers c) (bufferToUpdate c) = Some (Ret (Some a))"
      "nodes (frameBuffers c) a = Some n" "frame_buffer n = b"
    by (rule grab_found [OF assms])
  then show ?thesis by (simp add: evdi_grab_pixels_def LIB_MAX_DIRTS_def)
qed

text \<open>One grab, with what it leaves of the painter.\<close>

lemma grab_delivers:
  assumes "holds (frameBuffers c) bs" and "List.find (\<lambda>b. eb_id b = bufferToUpdate c) bs = Some b"
    and "painter evdi = Some p" and "dirts_ok p" and "scanout_fb p = Some fb" and "fb_obj fb = Some a"
    and "grab_vmap (ge_vmap env) a (gems evdi) = (Some vm, objs1)"
    and "copy_setup (ge_ctu env) vm fb (eb_stride b)" and "\<not> is_from_xe fb"
    and "cursor_events_enabled evdi"
    and "addressed dirts 128 \<inter> pixel_bytes (eb_buffer b) (unat (eb_stride b)) (frame_of fb) = {}"
  shows "\<exists>rects n evdi' p' mem'.
    evdi_grab_pixels (evdi_painter_grabpix_ioctl env) dirts c evdi mem
      = Some (Ret (rects, n, evdi', mem')) \<and>
    painter evdi' = Some p' \<and> damage p' = {} \<and> num_dirts p' = 0 \<and> was_update_requested p' = was_update_requested p \<and>
    n = int (length rects) \<and> n \<le> 16 \<and>
    (rects \<noteq> [] \<longrightarrow> (\<exists>taken. rects = map to_evdi_rect taken \<and> damage p \<subseteq> damage_of taken \<and>
       (\<forall>q\<in>damage_of taken. shows_pixel vm fb (eb_buffer b) (unat (eb_stride b)) mem' q)))"
proof -
  let ?cmd = "grab_command dirts b" and ?mem0 = "snd (user_store mem dirts (replicate 128 0))"
  obtain res cmd1 p1 cs where t0: "grabpix_take ?cmd p = (res, cmd1, p1, cs)" by (metis prod_cases4)
  have one: "1 \<le> num_rects ?cmd" by (simp add: grab_command_def LIB_MAX_DIRTS_def)
  obtain g where t: "grabpix_take ?cmd p = (Inr g, cmd1, p1, cs)"
    using t0 grabpix_take_error [OF assms(4) one] assms(5) by (cases res) auto
  note k = grabpix_take_contract [OF assms(4) one t]
  have fb: "g_fb g = fb" using k(8) assms(5) by simp
  have cmd1: "buf_byte_stride cmd1 = eb_stride b" "buffer cmd1 = eb_buffer b" "rects_ptr cmd1 = dirts"
    using t assms(5) dirts_okD(1) [OF assms(4)]
    by (auto simp: grabpix_take_eq grab_command_def split: if_splits)
  obtain r mem' where c: "grabpix_copy env cmd1 g (cursor evdi) True (gems evdi) ?mem0 = Ret (r, objs1, mem')"
      "r \<noteq> Inl EAGAIN" "r \<noteq> Inl EINTR"
      "r = Inr () \<Longrightarrow> (\<forall>q\<in>damage_of (g_rects g).
          shows_pixel vm fb (eb_buffer b) (unat (eb_stride b)) mem' q) \<and>
       (\<forall>i<length (g_rects g). read_rect mem' (dirts + of_nat (8 * i)) = g_rects g ! i)"
    using grab_after_take [of env vm fb cmd1 g a "gems evdi" objs1 "cursor evdi" ?mem0] assms fb k(2,4)
    unfolding cmd1 by (auto simp: MAX_DIRTS_def)
  let ?evdi = "emit (cs @ grabpix_end g) (evdi\<lparr>painter := Some p1, gems := objs1\<rparr>)"
  have "evdi_painter_grabpix_ioctl env ?cmd evdi ?mem0 = Ret (r, cmd1, ?evdi, mem')"
    using t c(1) assms(3,10) one by (simp add: evdi_painter_grabpix_ioctl_def grab_command_def)
  then have i: "drm_ioctl (\<lambda>(cmd, k, m). evdi_painter_grabpix_ioctl env cmd k m) (?cmd, evdi, ?mem0)
      = Some (Ret (r, cmd1, ?evdi, mem'))"
    by (intro drm_ioctl_once) (use c(2,3) in simp_all)
  let ?rects = "if r = Inr () then map to_evdi_rect (g_rects g) else []"
  have "map (\<lambda>j. to_evdi_rect (read_rect mem' (dirts + of_nat (8 * j)))) [0..<length (g_rects g)]
      = map to_evdi_rect (g_rects g)" if "r = Inr ()"
    using c(4) [OF that] by (intro nth_equalityI) simp_all
  then have "evdi_grab_pixels (evdi_painter_grabpix_ioctl env) dirts c evdi mem
      = Some (Ret (?rects, int (length ?rects), ?evdi, mem'))"
    using k(4,5) unfolding grab_pixels_unfold [OF assms(1,2)] i
    by (cases r) (simp_all add: MAX_DIRTS_def LIB_MAX_DIRTS_def)
  moreover have "painter ?evdi = Some p1" by (simp add: emit_def)
  moreover have "num_dirts p1 = 0" "was_update_requested p1 = was_update_requested p"
    using t assms(5) dirts_okD(1) [OF assms(4)]
    by (auto simp: grabpix_take_eq prepared_def reduce_dirts_def Let_def split: if_splits prod.splits)
  moreover have "int (length ?rects) \<le> 16" using k(4) by (simp add: MAX_DIRTS_def)
  moreover have "?rects \<noteq> [] \<longrightarrow> (\<exists>taken. ?rects = map to_evdi_rect taken \<and> damage p \<subseteq> damage_of taken \<and>
       (\<forall>q\<in>damage_of taken. shows_pixel vm fb (eb_buffer b) (unat (eb_stride b)) mem' q))"
    using k(1) c(4) by (intro impI exI [of _ "g_rects g"]) (simp split: if_splits)
  ultimately show ?thesis using k(7) by blast
qed

section \<open>Properties\<close>


text \<open>
  C36: without a framebuffer a grab of damage that is still recorded never comes back: the driver
  answers that the client should try again, leaves the damage where it is, and the library tries again
  at once, for ever.
\<close>

theorem grab_without_scanout_spins:
  assumes "holds (frameBuffers c) bs" and "List.find (\<lambda>b. eb_id b = bufferToUpdate c) bs = Some b"
    and "painter evdi = Some p" and "dirts_ok p" and "scanout_fb p = None" and "0 < num_dirts p"
  shows "evdi_grab_pixels (evdi_painter_grabpix_ioctl env) dirts c evdi mem = None"
proof -
  let ?call = "\<lambda>(cmd, k, m). evdi_painter_grabpix_ioctl env cmd k m"
  let ?again = "\<lambda>(cmd, evdi, m :: umem). mode cmd = EVDI_GRABPIX_MODE_DIRTY \<and> 1 \<le> num_rects cmd \<and>
    (\<exists>p. painter evdi = Some p \<and> dirts_ok p \<and> scanout_fb p = None \<and> 0 < num_dirts p)"
  have "\<exists>s'. ?call s = Ret (Inl EAGAIN, s') \<and> ?again s'" if again: "?again s" for s
  proof -
    obtain cmd k m where s: "s = (cmd, k, m)" by (cases s)
    obtain q where a: "mode cmd = EVDI_GRABPIX_MODE_DIRTY"
        "1 \<le> num_rects cmd" "painter k = Some q" "dirts_ok q" "scanout_fb q = None" "0 < num_dirts q"
      using again unfolding s by auto
    let ?q = "prepared cmd q"
    have t: "grabpix_take cmd q = (Inl EAGAIN, cmd\<lparr>num_rects := num_dirts ?q\<rparr>, ?q, [])"
      using a(5,6) by (simp add: grabpix_take_eq)
    have "?call s = Ret (Inl EAGAIN, cmd\<lparr>num_rects := num_dirts ?q\<rparr>,
        emit [] (k\<lparr>painter := Some ?q\<rparr>), m)"
      using a(1-3) t by (simp add: s evdi_painter_grabpix_ioctl_def)
    moreover have "0 < num_dirts ?q" by (rule prepared_pos [OF a(4,6)])
    ultimately show ?thesis using a(1) prepared_ok(1) [OF a(4,2)] a(5)
      by (simp add: emit_def prepared_scanout)
  qed
  then have "drm_ioctl ?call (grab_command dirts b, evdi, snd (user_store mem dirts (replicate 128 0))) = None"
    by (rule drm_ioctl_spins) (use assms(3-6) in \<open>auto simp: grab_command_def LIB_MAX_DIRTS_def\<close>)
  then show ?thesis unfolding grab_pixels_unfold [OF assms(1,2)] by (simp only: option.case)
qed


section \<open>Witnesses\<close>

text \<open>A client with one registered buffer, and a device whose shown framebuffer has one damaged line.\<close>

definition client_buffer :: evdi_buffer where
  "client_buffer = \<lparr>eb_id = 7, eb_buffer = 0x1000, eb_width = 2, eb_height = 2, eb_stride = 8,
     eb_rects = 0, eb_rect_count = 16\<rparr>"

definition client_context :: evdi_device_context where
  "client_context = \<lparr>ctx_fd = 9, bufferToUpdate = 7,
     frameBuffers = \<lparr>head_node = Some 0,
       nodes = [0 \<mapsto> \<lparr>frame_buffer = client_buffer, next_node = None\<rparr>]\<rparr>, device_index = 0\<rparr>"

lemma client_context_holds: "holds (frameBuffers client_context) [client_buffer]"
  "List.find (\<lambda>b. eb_id b = bufferToUpdate client_context) [client_buffer] = Some client_buffer"
  by (auto simp: holds_def client_context_def client_buffer_def intro!: exI [of _ "[0]"])

definition damaged_painter :: evdi_painter where
  "damaged_painter = sample_painter\<lparr>
     dirty_rects := \<lparr>x1 = 0, y1 = 0, x2 = 2, y2 = 1\<rparr> # tl (dirty_rects sample_painter), num_dirts := 1\<rparr>"

definition damaged_device :: evdi_device where
  "damaged_device = sample_device\<lparr>painter := Some damaged_painter\<rparr>"

lemma damaged_painter_ok: "dirts_ok damaged_painter" "scanout_fb damaged_painter = Some sample_fb"
  "0 < num_dirts damaged_painter"
  by (auto simp: damaged_painter_def sample_painter_def fresh_painter_def dirts_ok_def MAX_DIRTS_def
      all_within_def within_def less_Suc_eq nth_Cons')

lemma client_memory_apart:
  "addressed 0x2000 128 \<inter> pixel_bytes 0x1000 8 (frame_of sample_fb) = {}"
proof -
  have "unat b < 0x1010" if m: "b \<in> pixel_bytes 0x1000 8 (frame_of sample_fb)" for b
  proof -
    obtain x y k where b: "b = 0x1000 + of_nat (8 * y + 4 * x + k)" and "x < 2" "y < 2" "k < 4"
      using m by (auto simp: pixel_bytes_def frame_of_def sample_fb_def user_addr_def)
    then have "8 * y + 4 * x + k < 16" by linarith
    moreover have "unat (0x1000 + of_nat n :: u64) < 0x1010" if "n < 16" for n :: nat
      using that by (simp add: unat_word_ariths unat_of_nat)
    ultimately show ?thesis unfolding b by blast
  qed
  moreover have "0x2000 \<le> unat b" if "b \<in> addressed 0x2000 128" for b
    using that by (auto simp: addressed_def unat_word_ariths unat_of_nat)
  ultimately show ?thesis by fastforce
qed

lemma merge_one: "merge_dirty_rects (r # rs) 1 = (r # rs, 1)"
  by (simp add: merge_dirty_rects_def merge_outer.simps)

lemma sample_take:
  "grabpix_take (grab_command 0x2000 client_buffer) damaged_painter =
    (Inr \<lparr>g_rects = [\<lparr>x1 = 0, y1 = 0, x2 = 2, y2 = 1\<rparr>], g_fb = sample_fb, g_crtc = None, g_vblank = None\<rparr>,
     (grab_command 0x2000 client_buffer)\<lparr>num_rects := 1\<rparr>, damaged_painter\<lparr>num_dirts := 0\<rparr>,
     [FbGet (fb_id sample_fb)])"
  by (simp add: grabpix_take_def damaged_painter_def reduce_dirts_def merge_one [simplified]
      grab_command_def LIB_MAX_DIRTS_def sample_painter_def fresh_painter_def)

lemma sample_copy:
  "\<exists>m. copy_one_rect user_store (replicate 16 0xff) sample_fb 0x1000 8 2 2
     \<lparr>x1 = 0, y1 = 0, x2 = 2, y2 = 1\<rparr> mem = Ret (Inr (), m)"
  by (simp add: copy_one_rect_def sample_fb_def kread_def user_store_def Let_def word_sless_alt)

lemma sample_grab_succeeds:
  "\<exists>evdi' mem'. evdi_painter_grabpix_ioctl sample_env (grab_command 0x2000 client_buffer) damaged_device mem
     = Ret (Inr (), (grab_command 0x2000 client_buffer)\<lparr>num_rects := 1\<rparr>, evdi', mem')"
proof -
  let ?r = "\<lparr>x1 = 0, y1 = 0, x2 = 2, y2 = 1\<rparr> :: drm_clip_rect"
  obtain m where m: "copy_one_rect user_store (replicate 16 0xff) sample_fb 0x1000 8 2 2 ?r
      (snd (user_store mem 0x2000 (rect_bytes ?r))) = Ret (Inr (), m)"
    using sample_copy by blast
  let ?objs = "\<lambda>_ :: nat. sample_object"
  have f: "fb_obj sample_fb = Some 0" "fb_width sample_fb = 2" "fb_height sample_fb = 2"
    "is_from_xe sample_fb = False" "import_attach sample_object = None"
    by (simp_all add: sample_fb_def sample_object_def)
  have "grabpix_copy sample_env ((grab_command 0x2000 client_buffer)\<lparr>num_rects := 1\<rparr>)
      \<lparr>g_rects = [?r], g_fb = sample_fb, g_crtc = None, g_vblank = None\<rparr> zero_cursor True ?objs mem
    = Ret (Inr (), ?objs, m)"
    using m by (simp add: grabpix_copy_def f sample_grab_vmap grab_command_def client_buffer_def
        sample_env_def copy_primary_pixels_def user_store_def)
  then show ?thesis
    by (simp add: evdi_painter_grabpix_ioctl_def sample_take damaged_device_def sample_device_def)
      (simp add: grab_command_def LIB_MAX_DIRTS_def)
qed


theorem grab_without_scanout_spins_witness:
  "evdi_grab_pixels (evdi_painter_grabpix_ioctl sample_env) 0x2000 client_context
     (damaged_device\<lparr>painter := Some (damaged_painter\<lparr>scanout_fb := None\<rparr>)\<rparr>) (\<lambda>_. 0) = None"
  by (rule grab_without_scanout_spins [OF client_context_holds,
        where p = "damaged_painter\<lparr>scanout_fb := None\<rparr>"])
    (use damaged_painter_ok in \<open>simp_all add: dirts_ok_def\<close>)

end
