(* ===== verification/Evdi_LibProc.thy ===== *)
theory Evdi_LibProc
  imports Evdi_LibOpen
begin

text \<open>
  What the library looks up under \<open>/proc\<close>, \<open>library/evdi_lib.c\<close> and \<open>library/evdi_procfs.c\<close>: whether
  another process has a card open, and whether the X server runs. The directory is an argument.
\<close>

section \<open>Strings and processes\<close>

fun strstr :: "string \<Rightarrow> string \<Rightarrow> bool" where
  "strstr [] pat = (pat = [])"
| "strstr (c # cs) pat = (take (length pat) (c # cs) = pat \<or> strstr cs pat)"

definition PATH_MAX :: nat where
  "PATH_MAX = 4096"

text \<open>
  An entry of \<open>/proc\<close>: its name, the targets of the links of its \<open>fd\<close> directory (\<open>None\<close> for one that
  cannot be read), the lines of its \<open>maps\<close>, and its \<open>stat\<close>; \<open>None\<close> for what cannot be opened.
\<close>

record process =
  pr_name :: string
  pr_fds :: "string option list option"
  pr_maps :: "string list option"
  pr_stat :: "string option"

definition does_path_links_to :: "string option \<Rightarrow> string \<Rightarrow> bool" where
  "does_path_links_to target substr =
     (case target of None \<Rightarrow> False | Some path \<Rightarrow> strstr (take (PATH_MAX - 1) path) substr)"

fun line_loop :: "string list \<Rightarrow> string \<Rightarrow> bool" where
  "line_loop [] dev = False"
| "line_loop (l # ls) dev = (if strstr l dev then True else line_loop ls dev)"

definition process_opened_device :: "process \<Rightarrow> string \<Rightarrow> bool" where
  "process_opened_device p dev = (case pr_maps p of None \<Rightarrow> False | Some ls \<Rightarrow> line_loop ls dev)"

fun fd_loop :: "string option list \<Rightarrow> string \<Rightarrow> bool" where
  "fd_loop [] dev = False"
| "fd_loop (t # ts) dev = (if does_path_links_to t dev then True else fd_loop ts dev)"

definition process_opened_files :: "process \<Rightarrow> string \<Rightarrow> bool" where
  "process_opened_files p dev = (case pr_fds p of None \<Rightarrow> False | Some ts \<Rightarrow> fd_loop ts dev)"

definition is_numeric :: "string \<Rightarrow> bool" where
  "is_numeric s = (case s of [] \<Rightarrow> False | c # _ \<Rightarrow> is_digit c)"

text \<open>\<open>myself\<close> is the number of the calling process.\<close>

definition skipped :: "s32 \<Rightarrow> process \<Rightarrow> bool" where
  "skipped myself p = (\<not> is_numeric (pr_name p) \<or> of_int (strtol (pr_name p)) = myself)"

fun master_loop :: "s32 \<Rightarrow> process list \<Rightarrow> string \<Rightarrow> bool" where
  "master_loop myself [] dev = False"
| "master_loop myself (p # ps) dev =
     (if skipped myself p then master_loop myself ps dev
      else if process_opened_files p dev then True
      else if process_opened_device p dev then True
      else master_loop myself ps dev)"

definition device_has_master :: "s32 \<Rightarrow> process list option \<Rightarrow> string \<Rightarrow> bool" where
  "device_has_master myself proc dev =
     (case proc of None \<Rightarrow> False | Some ps \<Rightarrow> master_loop myself ps dev)"

section \<open>The X server\<close>

text \<open>One word of \<open>fscanf\<close>: white space is skipped, then characters are read up to the next.\<close>

definition scan_word :: "string \<Rightarrow> string option \<times> string" where
  "scan_word s =
     (let t = dropWhile is_space s
      in if t = [] then (None, []) else (Some (takeWhile (\<lambda>c. \<not> is_space c) t), dropWhile (\<lambda>c. \<not> is_space c) t))"

text \<open>The second word, at most six characters of it; without one the name is not written.\<close>

definition process_name :: "string \<Rightarrow> string option" where
  "process_name stat = map_option (take 6) (fst (scan_word (snd (scan_word stat))))"

definition is_name_Xorg :: "string \<Rightarrow> bool" where
  "is_name_Xorg name = strstr name ''Xorg''"

definition is_Xorg :: "process \<Rightarrow> bool outcome" where
  "is_Xorg p =
     (case pr_stat p of
        None \<Rightarrow> Ret False
      | Some stat \<Rightarrow> (case process_name stat of None \<Rightarrow> Oops | Some name \<Rightarrow> Ret (is_name_Xorg name)))"

definition is_Xorg_process_folder :: "process \<Rightarrow> bool outcome" where
  "is_Xorg_process_folder p = (if is_numeric (pr_name p) then is_Xorg p else Ret False)"

fun Xorg_loop :: "process list \<Rightarrow> bool outcome" where
  "Xorg_loop [] = Ret False"
| "Xorg_loop (p # ps) =
     (case is_Xorg_process_folder p of Oops \<Rightarrow> Oops | Ret True \<Rightarrow> Ret True | Ret False \<Rightarrow> Xorg_loop ps)"

definition Xorg_running :: "process list option \<Rightarrow> bool outcome" where
  "Xorg_running proc = (case proc of None \<Rightarrow> Ret False | Some ps \<Rightarrow> Xorg_loop ps)"

section \<open>What the searches find\<close>

lemma strstr_iff: "strstr s pat \<longleftrightarrow> (\<exists>pre post. s = pre @ pat @ post)"
proof (induction s)
  case (Cons c s)
  have "take (length pat) (c # s) = pat \<longleftrightarrow> (\<exists>post. c # s = pat @ post)"
    by (metis append_eq_conv_conj append_take_drop_id)
  moreover have "(\<exists>pre post. c # s = pre @ pat @ post) \<longleftrightarrow>
      (\<exists>post. c # s = pat @ post) \<or> (\<exists>pre post. s = pre @ pat @ post)"
    by (auto simp: Cons_eq_append_conv)
  ultimately show ?case using Cons by simp
qed auto

lemma line_loop_iff: "line_loop ls dev \<longleftrightarrow> (\<exists>l\<in>set ls. strstr l dev)"
  by (induction ls) auto

lemma fd_loop_iff: "fd_loop ts dev \<longleftrightarrow> (\<exists>t\<in>set ts. does_path_links_to t dev)"
  by (induction ts) auto

lemma master_loop_iff:
  "master_loop myself ps dev \<longleftrightarrow>
     (\<exists>p\<in>set ps. \<not> skipped myself p \<and> (process_opened_files p dev \<or> process_opened_device p dev))"
  by (induction ps) auto

lemma process_opened_files_iff:
  "process_opened_files p dev \<longleftrightarrow>
     (\<exists>ts t pre post. pr_fds p = Some ts \<and> Some t \<in> set ts \<and> take (PATH_MAX - 1) t = pre @ dev @ post)"
proof -
  have "(\<exists>t\<in>set ts. does_path_links_to t dev) \<longleftrightarrow>
      (\<exists>t pre post. Some t \<in> set ts \<and> take (PATH_MAX - 1) t = pre @ dev @ post)" for ts
    by (auto simp: does_path_links_to_def strstr_iff split: option.splits)
  then show ?thesis by (simp add: process_opened_files_def fd_loop_iff split: option.splits)
qed

lemma process_opened_device_iff:
  "process_opened_device p dev \<longleftrightarrow>
     (\<exists>ls l pre post. pr_maps p = Some ls \<and> l \<in> set ls \<and> l = pre @ dev @ post)"
  by (simp add: process_opened_device_def line_loop_iff strstr_iff split: option.splits) blast

lemma Xorg_loop_iff:
  "(\<And>p. p \<in> set ps \<Longrightarrow> is_Xorg_process_folder p \<noteq> Oops) \<Longrightarrow>
     Xorg_loop ps = Ret (\<exists>p\<in>set ps. is_Xorg_process_folder p = Ret True)"
proof (induction ps)
  case (Cons p ps)
  have "Xorg_loop ps = Ret (\<exists>p\<in>set ps. is_Xorg_process_folder p = Ret True)"
    using Cons by simp
  moreover obtain b where "is_Xorg_process_folder p = Ret b"
    using Cons.prems [of p] by (cases "is_Xorg_process_folder p") auto
  ultimately show ?case by (cases b) auto
qed simp

section \<open>Properties\<close>

text \<open>
  A card counts as opened by another process exactly when some process other than the caller has a
  link or a mapping whose name contains that of the card; the name of a card is part of the names of
  others, so card 1 counts as opened when only card 10 is.
\<close>

theorem has_master_iff:
  "device_has_master myself (Some ps) dev \<longleftrightarrow>
     (\<exists>p\<in>set ps. is_numeric (pr_name p) \<and> of_int (strtol (pr_name p)) \<noteq> myself \<and>
        ((\<exists>ts t pre post. pr_fds p = Some ts \<and> Some t \<in> set ts \<and> take (PATH_MAX - 1) t = pre @ dev @ post) \<or>
         (\<exists>ls l pre post. pr_maps p = Some ls \<and> l \<in> set ls \<and> l = pre @ dev @ post)))"
  unfolding device_has_master_def option.case master_loop_iff process_opened_files_iff process_opened_device_iff
    skipped_def by simp

text \<open>
  Only the links to card 10 are needed to take card 1 for opened.
\<close>

theorem other_card_counts:
  "device_has_master 1 (Some [\<lparr>pr_name = ''200'', pr_fds = Some [Some ''/dev/dri/card10''], pr_maps = None,
      pr_stat = None\<rparr>]) ''/dev/dri/card1''"
  by (simp add: device_has_master_def skipped_def is_numeric_def is_digit_def digit_def strtol_def is_space_def
      process_opened_files_def does_path_links_to_def PATH_MAX_def)

end
