(* ===== verification/Evdi_PyBuffer.thy ===== *)
theory Evdi_PyBuffer
  imports Evdi_Lib Evdi_LibEvents "HOL-Library.Signed_Division"
begin

text \<open>
  The Python module's buffers, \<open>pyevdi/Buffer.cpp\<close>, and its statistics, \<open>pyevdi/Stats.cpp\<close>: how large a
  buffer is made for a mode, and whether the pixels of the mode fit.
\<close>

section \<open>Buffers\<close>

record py_buffer =
  pb_buffer :: evdi_buffer
  bytes_per_pixel :: u64
  buffer_size :: u64

definition buffer_stride :: "s32 \<Rightarrow> s32" where
  "buffer_stride width = ((width + 63) AND NOT 63) * 4"

text \<open>The products of the size are of \<open>int\<close>, then of \<open>size_t\<close>.\<close>

definition mode_bytes_per_pixel :: "evdi_mode \<Rightarrow> u64" where
  "mode_bytes_per_pixel md = word_of_int (sint (em_bits_per_pixel md) sdiv 8)"

definition new_buffer :: "s32 \<Rightarrow> u64 \<Rightarrow> u64 \<Rightarrow> evdi_mode \<Rightarrow> py_buffer" where
  "new_buffer n rects_at pixels_at md =
     \<lparr>pb_buffer = \<lparr>eb_id = n, eb_buffer = pixels_at, eb_width = em_width md, eb_height = em_height md,
        eb_stride = buffer_stride (em_width md), eb_rects = rects_at, eb_rect_count = 16\<rparr>,
      bytes_per_pixel = mode_bytes_per_pixel md,
      buffer_size = scast (em_width md * em_height md) * mode_bytes_per_pixel md\<rparr>"

lemma unat_buffer_stride:
  assumes "4 * unat width + 256 < 2 ^ 31"
  shows "unat (buffer_stride width) = 4 * (64 * ((unat width + 63) div 64))"
proof -
  have m: "(63 :: s32) = mask 6" by (simp add: mask_eq_exp_minus_1)
  have "unat (width + 63) = unat width + 63" using assms by (subst unat_add_exact) simp_all
  then have a: "unat ((width + 63) AND NOT 63) = (unat width + 63) div 64 * 64"
    using unat_and_not_mask [of "width + 63" 6] by (simp add: m)
  define q where "q = (unat width + 63) div 64 * 64"
  have "q \<le> unat width + 63" unfolding q_def by simp
  then have "q * 4 < 2 ^ 32" using assms by simp
  then have "unat ((width + 63) AND NOT 63) * 4 < 2 ^ 32" unfolding a q_def .
  then have "unat (((width + 63) AND NOT 63) * 4) = unat ((width + 63) AND NOT 63) * 4"
    by (subst unat_mult_exact) simp_all
  then show ?thesis unfolding buffer_stride_def a by simp
qed

lemma buffer_stride_pitch:
  assumes "4 * unat width + 256 < 2 ^ 31"
  shows "4 * unat width \<le> unat (buffer_stride width)"
    and "unat (buffer_stride width) = 4 * unat width \<longleftrightarrow> 64 dvd unat width"
proof -
  define q where "q = (unat width + 63) div 64"
  have s: "unat (buffer_stride width) = 4 * (64 * q)" unfolding q_def by (rule unat_buffer_stride [OF assms])
  have "unat width + 63 = 64 * q + (unat width + 63) mod 64" unfolding q_def by simp
  moreover have "(unat width + 63) mod 64 < 64" by simp
  ultimately have le: "unat width \<le> 64 * q" by linarith
  then show "4 * unat width \<le> unat (buffer_stride width)" unfolding s by simp
  have "64 * q = unat width" if "64 dvd unat width"
    using that unfolding q_def by (auto elim!: dvdE)
  then show "unat (buffer_stride width) = 4 * unat width \<longleftrightarrow> 64 dvd unat width"
    unfolding s by (metis dvd_triv_left mult_cancel1 zero_neq_numeral)
qed

lemma scast_small: "unat (x :: s32) < 2 ^ 31 \<Longrightarrow> unat (scast x :: u64) = unat x"
proof -
  assume a: "unat x < 2 ^ 31"
  then have "sint x = int (unat x)" by (rule sint_eq_unat)
  then have "scast x = (of_nat (unat x) :: u64)" by (simp only: scast_eq of_int_of_nat_eq)
  moreover have "unat (of_nat (unat x) :: u64) = unat x mod 2 ^ LENGTH(64)" by (rule unat_of_nat)
  ultimately show "unat (scast x :: u64) = unat x" using a by simp
qed

lemma unat_buffer_size:
  assumes "em_bits_per_pixel md = 32" and "4 * (unat (em_width md) * unat (em_height md)) < 2 ^ 31"
  shows "unat (buffer_size (new_buffer n r a md)) = 4 * (unat (em_width md) * unat (em_height md))"
proof -
  let ?p = "em_width md * em_height md"
  have b: "mode_bytes_per_pixel md = 4" by (simp add: mode_bytes_per_pixel_def assms(1))
  have p: "unat ?p = unat (em_width md) * unat (em_height md)"
    using assms(2) by (subst unat_mult_exact) (simp_all add: mult.commute)
  then have u: "unat (scast ?p :: u64) = unat (em_width md) * unat (em_height md)"
    using assms(2) scast_small [of ?p] by linarith
  then have "unat (scast ?p :: u64) * 4 < 2 ^ 64" using assms(2) by simp
  then have "unat ((scast ?p :: u64) * 4) = unat (scast ?p :: u64) * 4" by (simp add: unat_word_ariths)
  then show ?thesis by (simp add: new_buffer_def b u)
qed

text \<open>
  C35: the pixels of a mode stay inside a buffer made for it exactly when its lines are not padded, or there
  is one line: the stride is rounded up to 64 pixels, but the size is computed from the width.
\<close>

theorem client_buffer_fits_iff:
  assumes "em_bits_per_pixel md = 32" and "em_width md = fb_width fb" and "em_height md = fb_height fb"
    and "0 < unat (fb_width fb)" and "0 < unat (fb_height fb)" and "4 * unat (fb_width fb) + 256 < 2 ^ 31"
    and "unat (buffer_stride (fb_width fb)) * unat (fb_height fb) < 2 ^ 31"
    and "new_buffer n r a md = b"
  shows "pixel_bytes a (unat (eb_stride (pb_buffer b))) (frame_of fb) \<subseteq> addressed a (unat (buffer_size b)) \<longleftrightarrow>
    64 dvd unat (fb_width fb) \<or> unat (fb_height fb) = 1"
proof -
  let ?w = "unat (fb_width fb)" and ?h = "unat (fb_height fb)" and ?s = "unat (buffer_stride (fb_width fb))"
  note pitch = buffer_stride_pitch [OF assms(6)]
  have s: "unat (eb_stride (pb_buffer b)) = ?s" using assms(2,8) by (auto simp: new_buffer_def)
  have "4 * (?w * ?h) \<le> ?s * ?h" using pitch(1) by simp
  then have small: "4 * (?w * ?h) < 2 ^ 31" using assms(7) by linarith
  have sz: "unat (buffer_size b) = 4 * (?w * ?h)"
    using unat_buffer_size [of md n r a] assms(1-3,8) small by simp
  define last where "last = ?s * (?h - 1) + 4 * (?w - 1) + 3"
  have h: "?s * ?h = ?s * (?h - 1) + ?s" using assms(5) by (metis Suc_pred' mult_Suc_right add.commute)
  have last: "last < 2 ^ 31" "last + 1 = ?s * (?h - 1) + 4 * ?w"
    using assms(4,7) pitch(1) h by (simp_all add: last_def)
  have area: "4 * (?w * ?h) = 4 * ?w * (?h - 1) + 4 * ?w" using assms(5) by (cases ?h) simp_all
  have offs: "?s * y + 4 * x + k \<le> last" if "x < ?w" "y < ?h" "k < 4" for x y k
  proof -
    have "?s * y \<le> ?s * (?h - 1)" using that(2) by (intro mult_le_mono) simp_all
    then show ?thesis using that(1,3) unfolding last_def by linarith
  qed
  have "pixel_bytes a ?s (frame_of fb) \<subseteq> addressed a (4 * (?w * ?h)) \<longleftrightarrow> last < 4 * (?w * ?h)"
  proof
    assume sub: "pixel_bytes a ?s (frame_of fb) \<subseteq> addressed a (4 * (?w * ?h))"
    have "user_addr a ?s (?w - 1) (?h - 1) 3 \<in> pixel_bytes a ?s (frame_of fb)"
      unfolding pixel_bytes_def frame_of_def using assms(4,5)
      by (intro CollectI exI [of _ "?w - 1"] exI [of _ "?h - 1"] exI [of _ 3]) simp
    then obtain i where i: "i < 4 * (?w * ?h)" "a + of_nat last = a + (of_nat i :: u64)"
      using sub by (auto simp: user_addr_def addressed_def last_def)
    have "i < 2 ^ 31" using i(1) small by (rule less_trans)
    then have "last = i" using i(2) last(1) by (intro of_nat_u64_inj) simp_all
    then show "last < 4 * (?w * ?h)" using i(1) by simp
  next
    assume l: "last < 4 * (?w * ?h)"
    show "pixel_bytes a ?s (frame_of fb) \<subseteq> addressed a (4 * (?w * ?h))"
    proof
      fix q
      assume "q \<in> pixel_bytes a ?s (frame_of fb)"
      then obtain x y k where q: "q = user_addr a ?s x y k" "x < ?w" "y < ?h" "k < 4"
        by (auto simp: pixel_bytes_def frame_of_def)
      then have "?s * y + 4 * x + k < 4 * (?w * ?h)" using offs l by (meson le_less_trans)
      then show "q \<in> addressed a (4 * (?w * ?h))" unfolding q(1) user_addr_def addressed_def by blast
    qed
  qed
  also have "last < 4 * (?w * ?h) \<longleftrightarrow> ?s * (?h - 1) \<le> 4 * ?w * (?h - 1)"
    unfolding area using last(2) by linarith
  also have "\<dots> \<longleftrightarrow> ?s = 4 * ?w \<or> ?h = 1"
    using pitch(1) assms(5) by (auto simp: mult_le_cancel2)
  finally show ?thesis unfolding s sz pitch(2) .
qed

section \<open>Statistics\<close>

text \<open>Times in microseconds; an average of nothing divides by zero (\<open>Oops\<close>). The number is unsigned, so the division is.\<close>

record memory_access_stats =
  grabPixelStats :: "u64 list"
  bufferStats :: "u64 list"

definition totalTime :: "u64 list \<Rightarrow> u64" where
  "totalTime stats = sum_list stats"

definition averageTime :: "u64 list \<Rightarrow> u64 outcome" where
  "averageTime stats = (if stats = [] then Oops else Ret (totalTime stats div of_nat (length stats)))"

definition avgGrabPixelsTime :: "memory_access_stats \<Rightarrow> u64 outcome" where
  "avgGrabPixelsTime s = averageTime (grabPixelStats s)"

definition avgBufferReadTime :: "memory_access_stats \<Rightarrow> u64 outcome" where
  "avgBufferReadTime s = averageTime (bufferStats s)"

definition countGrabPixels :: "memory_access_stats \<Rightarrow> nat" where
  "countGrabPixels s = length (grabPixelStats s)"

definition countBuffer :: "memory_access_stats \<Rightarrow> nat" where
  "countBuffer s = length (grabPixelStats s)"

text \<open>\<open>start\<close> and \<open>stop\<close> are the clock before and after the grab, or the reading of a buffer.\<close>

definition stats_grab_pixels :: "u64 \<Rightarrow> u64 \<Rightarrow> memory_access_stats \<Rightarrow> memory_access_stats" where
  "stats_grab_pixels start stop s = s\<lparr>grabPixelStats := grabPixelStats s @ [stop - start]\<rparr>"

definition stats_call :: "u64 \<Rightarrow> u64 \<Rightarrow> memory_access_stats \<Rightarrow> memory_access_stats" where
  "stats_call start stop s = s\<lparr>bufferStats := bufferStats s @ [stop - start]\<rparr>"

section \<open>Witnesses\<close>

definition laptop_fb :: evdi_framebuffer where
  "laptop_fb = sample_fb\<lparr>fb_width := 1366, fb_height := 768\<rparr>"

definition laptop_buffer :: py_buffer where
  "laptop_buffer = new_buffer 0 0x4000 0x100000 (to_evdi_mode 1366 768 60 32 0)"

theorem client_buffer_fits_iff_witness:
  "\<not> pixel_bytes 0x100000 (unat (eb_stride (pb_buffer laptop_buffer))) (frame_of laptop_fb)
     \<subseteq> addressed 0x100000 (unat (buffer_size laptop_buffer))"
proof -
  have "unat (buffer_stride 1366) = 5632" by (simp add: buffer_stride_def)
  then show ?thesis
    using client_buffer_fits_iff [of "to_evdi_mode 1366 768 60 32 0" laptop_fb 0 "0x4000" "0x100000" laptop_buffer]
    by (simp add: laptop_fb_def laptop_buffer_def to_evdi_mode_def)
qed

end
