(* ===== verification/Evdi_Card.thy ===== *)
theory Evdi_Card
  imports Evdi_PyBuffer
begin

text \<open>
  The Python module's card, \<open>pyevdi/Card.cpp\<close>: the buffers it registers with the library, which of them it
  has asked the driver to fill, and when they are handed to the Python code and freed. The callbacks of the
  Python code are arguments.
\<close>

section \<open>The card\<close>

text \<open>
  A buffer object is named by its number, which the process never gives twice before it wraps. A buffer is
  referred to by the list of the card, by \<open>buffer_requested\<close> and by the references the Python code keeps;
  \<open>ctx\<close> is what the handle points to, as long as \<open>evdiHandle\<close> is not NULL.
\<close>

record py_card =
  evdiHandle :: bool
  ctx :: evdi_device_context
  card_mode :: evdi_mode
  buffer_list :: "s32 list"
  buffer_requested :: "s32 option"
  py_kept :: "s32 list"
  numerator :: s32

text \<open>
  The surroundings: the node \<open>calloc\<close> gives for a heap, where the rectangles and the pixels of a buffer
  are, the two system calls, where the stack of a grab is, and the callbacks, if set: the references
  the Python code keeps after it was given a buffer, or was told a mode.
\<close>

record 'k client_env =
  ce_node :: "node_heap \<Rightarrow> nat option"
  ce_memory :: "s32 \<Rightarrow> u64 \<times> u64"
  ce_request :: "'k \<Rightarrow> (nat result \<times> 'k) outcome"
  ce_serve :: "drm_evdi_grabpix \<Rightarrow> 'k \<Rightarrow> umem \<Rightarrow> (unit result \<times> drm_evdi_grabpix \<times> 'k \<times> umem) outcome"
  ce_cursor_events :: "u8 \<Rightarrow> 'k \<Rightarrow> 'k"
  ce_stack :: u64
  ce_acquire :: "(s32 \<Rightarrow> s32 list \<Rightarrow> s32 list) option"
  ce_mode_handler :: "(evdi_mode \<Rightarrow> s32 list \<Rightarrow> s32 list) option"

definition bind_run :: "'a outcome option \<Rightarrow> ('a \<Rightarrow> 'b outcome option) \<Rightarrow> 'b outcome option" where
  "bind_run x f = Option.bind x (\<lambda>r. case r of Oops \<Rightarrow> Some Oops | Ret y \<Rightarrow> f y)"

lemma bind_run_simps [simp]:
  "bind_run None f = None" "bind_run (Some Oops) f = Some Oops" "bind_run (Some (Ret y)) f = f y"
  by (simp_all add: bind_run_def)

lemma run_cases:
  "(x = None \<Longrightarrow> P) \<Longrightarrow> (x = Some Oops \<Longrightarrow> P) \<Longrightarrow> (\<And>y. x = Some (Ret y) \<Longrightarrow> P) \<Longrightarrow> P"
  by (metis not_None_eq outcome.exhaust)

lemma bind_run_Ret:
  "bind_run x f = Some (Ret z) \<longleftrightarrow> (\<exists>y. x = Some (Ret y) \<and> f y = Some (Ret z))"
  by (cases x; simp add: bind_run_def split: outcome.splits)

lemma bind_run_mono [partial_function_mono]:
  assumes "mono_option B" and "\<And>y. mono_option (\<lambda>f. C y f)"
  shows "mono_option (\<lambda>f. bind_run (B f) (\<lambda>y. C y f))"
  unfolding bind_run_def
proof (rule bind_mono [OF assms(1)])
  show "mono_option (\<lambda>f. case r of Oops \<Rightarrow> Some Oops | Ret y \<Rightarrow> C y f)" for r
    by (cases r) (simp_all add: assms(2) option.const_mono)
qed

text \<open>How many \<open>shared_ptr\<close> refer to a buffer; the last one that goes runs the destructor.\<close>

definition use_count :: "s32 \<Rightarrow> py_card \<Rightarrow> nat" where
  "use_count b c = count_list (buffer_list c) b + (if buffer_requested c = Some b then 1 else 0) +
     count_list (py_kept c) b"

text \<open>The destructor uses the handle it was made with, which \<open>close\<close> frees.\<close>

definition drop_buffer :: "s32 \<Rightarrow> py_card \<Rightarrow> py_card outcome option" where
  "drop_buffer b c =
     (if use_count b c \<noteq> 0 then Some (Ret c)
      else if \<not> evdiHandle c then Some Oops
      else bind_run (evdi_unregister_buffer b (frameBuffers (ctx c)))
             (\<lambda>l. Some (Ret (c\<lparr>ctx := (ctx c)\<lparr>frameBuffers := l\<rparr>\<rparr>))))"

primrec drop_all :: "s32 list \<Rightarrow> py_card \<Rightarrow> py_card outcome option" where
  "drop_all [] c = Some (Ret c)"
| "drop_all (b # bs) c = bind_run (drop_buffer b c) (drop_all bs)"

definition reset_requested :: "py_card \<Rightarrow> py_card outcome option" where
  "reset_requested c =
     (case buffer_requested c of
        None \<Rightarrow> Some (Ret c)
      | Some b \<Rightarrow> drop_buffer b (c\<lparr>buffer_requested := None\<rparr>))"

primrec clear_loop :: "s32 list \<Rightarrow> py_card \<Rightarrow> py_card outcome option" where
  "clear_loop [] c = Some (Ret (c\<lparr>buffer_list := []\<rparr>))"
| "clear_loop (b # bs) c = bind_run (drop_buffer b (c\<lparr>buffer_list := bs\<rparr>)) (clear_loop bs)"

definition clearBuffers :: "py_card \<Rightarrow> py_card outcome option" where
  "clearBuffers c = bind_run (reset_requested c) (\<lambda>c1. clear_loop (buffer_list c1) c1)"

text \<open>The constructor of a buffer registers it; with no handle it reads through NULL.\<close>

definition make_buffer :: "'k client_env \<Rightarrow> py_card \<Rightarrow> py_card outcome option" where
  "make_buffer env c =
     (let n = numerator c; (rects_at, pixels_at) = ce_memory env n;
          b = pb_buffer (new_buffer n rects_at pixels_at (card_mode c)); l = frameBuffers (ctx c)
      in if \<not> evdiHandle c then Some Oops
         else bind_run (evdi_register_buffer (ce_node env (nodes l)) b l)
           (\<lambda>l1. Some (Ret (c\<lparr>numerator := n + 1, ctx := (ctx c)\<lparr>frameBuffers := l1\<rparr>,
              buffer_list := buffer_list c @ [n]\<rparr>))))"

primrec make_loop :: "'k client_env \<Rightarrow> nat \<Rightarrow> py_card \<Rightarrow> py_card outcome option" where
  "make_loop env 0 c = Some (Ret c)"
| "make_loop env (Suc n) c = bind_run (make_buffer env c) (make_loop env n)"

definition makeBuffers :: "'k client_env \<Rightarrow> nat \<Rightarrow> py_card \<Rightarrow> py_card outcome option" where
  "makeBuffers env n c = bind_run (clearBuffers c) (make_loop env n)"

text \<open>A callback of the Python code: the references it drops are dropped.\<close>

definition python_keeps :: "s32 list \<Rightarrow> py_card \<Rightarrow> py_card outcome option" where
  "python_keeps ks c = drop_all (remdups (filter (\<lambda>b. b \<notin> set ks) (py_kept c))) (c\<lparr>py_kept := ks\<rparr>)"

section \<open>Updates\<close>

definition free_buffer :: "py_card \<Rightarrow> s32 option" where
  "free_buffer c = List.find (\<lambda>b. use_count b c = 1) (buffer_list c)"

text \<open>The callback gets a reference to the buffer, and the card forgets that it had asked for it.\<close>

definition hand_over :: "'k client_env \<Rightarrow> s32 \<Rightarrow> py_card \<Rightarrow> py_card outcome option" where
  "hand_over env b c =
     (case ce_acquire env of
        None \<Rightarrow> reset_requested c
      | Some f \<Rightarrow> python_keeps (f b (py_kept c)) (c\<lparr>py_kept := b # py_kept c, buffer_requested := None\<rparr>))"

text \<open>\<open>grab_pixels\<close> up to the next request.\<close>

definition grab_requested ::
  "'k client_env \<Rightarrow> py_card \<times> 'k \<times> umem \<Rightarrow> (py_card \<times> 'k \<times> umem) outcome option" where
  "grab_requested env s =
     (case s of (c, k, mem) \<Rightarrow>
        case buffer_requested c of
          None \<Rightarrow> Some (Ret (c, k, mem))
        | Some b \<Rightarrow>
            if \<not> evdiHandle c then Some Oops
            else bind_run (evdi_grab_pixels (ce_serve env) (ce_stack env) (ctx c) k mem)
              (\<lambda>(rects, n, k1, mem1). bind_run (hand_over env b c) (\<lambda>c1. Some (Ret (c1, k1, mem1)))))"

partial_function (option) request_update ::
  "'k client_env \<Rightarrow> py_card \<times> 'k \<times> umem \<Rightarrow> (py_card \<times> 'k \<times> umem) outcome option" where
  "request_update env s =
     (case s of (c, k, mem) \<Rightarrow>
        if buffer_requested c \<noteq> None then Some (Ret s)
        else case free_buffer c of
            None \<Rightarrow> Some (Ret s)
          | Some b \<Rightarrow>
              if \<not> evdiHandle c then Some Oops
              else bind_run (evdi_request_update (ce_request env) b (ctx c) k)
                (\<lambda>(update_ready, ctx1, k1).
                   let c1 = c\<lparr>buffer_requested := Some b, ctx := ctx1\<rparr>
                   in if \<not> update_ready then Some (Ret (c1, k1, mem))
                      else bind_run (grab_requested env (c1, k1, mem)) (request_update env)))"

definition grab_pixels ::
  "'k client_env \<Rightarrow> py_card \<times> 'k \<times> umem \<Rightarrow> (py_card \<times> 'k \<times> umem) outcome option" where
  "grab_pixels env s =
     (if buffer_requested (fst s) = None then Some (Ret s)
      else bind_run (grab_requested env s) (request_update env))"

section \<open>Events\<close>

text \<open>
  The handlers, each on the card with the driver and the memory. An assertion that fails stops the process.
\<close>

definition default_update_ready_handler ::
  "'k client_env \<Rightarrow> s32 \<Rightarrow> py_card \<times> 'k \<times> umem \<Rightarrow> (py_card \<times> 'k \<times> umem) outcome option" where
  "default_update_ready_handler env buffer_to_be_updated s =
     (case buffer_requested (fst s) of
        None \<Rightarrow> Some Oops
      | Some b \<Rightarrow> if buffer_to_be_updated \<noteq> b then Some Oops else grab_pixels env s)"

definition call_mode_handler :: "'k client_env \<Rightarrow> evdi_mode \<Rightarrow> py_card \<Rightarrow> py_card outcome option" where
  "call_mode_handler env m c =
     (case ce_mode_handler env of None \<Rightarrow> Some (Ret c) | Some f \<Rightarrow> python_keeps (f m (py_kept c)) c)"

definition card_C_mode_handler ::
  "'k client_env \<Rightarrow> evdi_mode \<Rightarrow> py_card \<times> 'k \<times> umem \<Rightarrow> (py_card \<times> 'k \<times> umem) outcome option" where
  "card_C_mode_handler env m s =
     (case s of (c, k, mem) \<Rightarrow>
        bind_run (makeBuffers env 2 (c\<lparr>card_mode := m\<rparr>)) (\<lambda>c1.
        bind_run (call_mode_handler env m c1) (\<lambda>c2. request_update env (c2, k, mem))))"

text \<open>The handlers of the cursor and of the power state only log and free what they are given.\<close>

definition card_upcall ::
  "'k client_env \<Rightarrow> upcall \<Rightarrow> py_card \<times> 'k \<times> umem \<Rightarrow> (py_card \<times> 'k \<times> umem) outcome option" where
  "card_upcall env u s =
     (case u of
        UpdateReadyHandler b \<Rightarrow> default_update_ready_handler env b s
      | ModeChangedHandler m \<Rightarrow> card_C_mode_handler env m s
      | EnableCursorEvents e \<Rightarrow>
          (case s of (c, k, mem) \<Rightarrow> Some (Ret (c, ce_cursor_events env (evdi_enable_cursor_events e) k, mem)))
      | _ \<Rightarrow> Some (Ret s))"

definition eventContext :: evdi_event_context where
  "eventContext = \<lparr>dpms_handler = True, mode_changed_handler = True, update_ready_handler = True,
     crtc_state_handler = False, cursor_set_handler = True, cursor_move_handler = True,
     ddcci_data_handler = False\<rparr>"

primrec run_upcalls ::
  "'k client_env \<Rightarrow> upcall list \<Rightarrow> py_card \<times> 'k \<times> umem \<Rightarrow> (py_card \<times> 'k \<times> umem) outcome option" where
  "run_upcalls env [] s = Some (Ret s)"
| "run_upcalls env (u # us) s = bind_run (card_upcall env u s) (run_upcalls env us)"

text \<open>One event of those that were read: the buffer that is to be updated is looked up when it is handled.\<close>

definition card_event ::
  "'k client_env \<Rightarrow> cursor_env \<Rightarrow> drm_event \<Rightarrow> py_card \<times> 'k \<times> umem \<Rightarrow> (py_card \<times> 'k \<times> umem) outcome option" where
  "card_event env cenv e s =
     (case client_calls cenv eventContext (bufferToUpdate (ctx (fst s))) e of
        Oops \<Rightarrow> Some Oops
      | Ret us \<Rightarrow> run_upcalls env us s)"

primrec card_events ::
  "'k client_env \<Rightarrow> cursor_env \<Rightarrow> drm_event list \<Rightarrow> py_card \<times> 'k \<times> umem \<Rightarrow>
     (py_card \<times> 'k \<times> umem) outcome option" where
  "card_events env cenv [] s = Some (Ret s)"
| "card_events env cenv (e # es) s = bind_run (card_event env cenv e s) (card_events env cenv es)"

text \<open>
  The descriptor to wait for is read through the handle, also when it is NULL. \<open>selected\<close> is the result of
  \<open>select\<close>, also when it is minus one; \<open>es\<close> are the events then read.
\<close>

definition handle_events ::
  "'k client_env \<Rightarrow> cursor_env \<Rightarrow> int \<Rightarrow> drm_event list \<Rightarrow> py_card \<times> 'k \<times> umem \<Rightarrow>
     (py_card \<times> 'k \<times> umem) outcome option" where
  "handle_events env cenv selected es s =
     (if \<not> evdiHandle (fst s) then Some Oops
      else bind_run (request_update env s)
        (\<lambda>s1. if selected \<noteq> 0 then card_events env cenv es s1 else Some (Ret s1)))"

section \<open>Opening and closing\<close>

text \<open>A card whose device cannot be opened is an exception; \<open>n\<close> is the number of the next buffer.\<close>

definition new_card :: "evdi_device_context option \<Rightarrow> s32 \<Rightarrow> py_card option" where
  "new_card opened n =
     map_option (\<lambda>h. \<lparr>evdiHandle = True, ctx = h, card_mode = to_evdi_mode 0 0 0 0 0, buffer_list = [],
       buffer_requested = None, py_kept = [], numerator = n\<rparr>) opened"

definition close_card :: "py_card \<Rightarrow> py_card outcome option" where
  "close_card c =
     (if evdiHandle c then bind_run (clearBuffers c) (\<lambda>c1. Some (Ret (c1\<lparr>evdiHandle := False\<rparr>)))
      else Some (Ret (c\<lparr>evdiHandle := False\<rparr>)))"

section \<open>The buffers that are registered\<close>

text \<open>The buffers something refers to; \<open>registered R c\<close>: the library has the buffers \<open>R\<close>, each once.\<close>

definition live :: "py_card \<Rightarrow> s32 set" where
  "live c = set (buffer_list c) \<union> set_option (buffer_requested c) \<union> set (py_kept c)"

definition registered :: "s32 set \<Rightarrow> py_card \<Rightarrow> bool" where
  "registered R c \<longleftrightarrow> evdiHandle c \<and>
     (\<exists>bs. holds (frameBuffers (ctx c)) bs \<and> distinct (map eb_id bs) \<and> eb_id ` set bs = R)"

definition with_heap :: "node_list \<Rightarrow> py_card \<Rightarrow> py_card" where
  "with_heap l c = c\<lparr>ctx := (ctx c)\<lparr>frameBuffers := l\<rparr>\<rparr>"

lemma with_heap_simps [simp]:
  "evdiHandle (with_heap l c) = evdiHandle c" "buffer_list (with_heap l c) = buffer_list c"
  "buffer_requested (with_heap l c) = buffer_requested c" "py_kept (with_heap l c) = py_kept c"
  "numerator (with_heap l c) = numerator c" "card_mode (with_heap l c) = card_mode c"
  "frameBuffers (ctx (with_heap l c)) = l" "bufferToUpdate (ctx (with_heap l c)) = bufferToUpdate (ctx c)"
  "with_heap l (with_heap l' c) = with_heap l c" "live (with_heap l c) = live c"
  "use_count b (with_heap l c) = use_count b c"
  by (simp_all add: with_heap_def live_def use_count_def)

lemma with_heap_same: "with_heap (frameBuffers (ctx c)) c = c"
  by (simp add: with_heap_def)

lemma use_count_zero: "use_count b c = 0 \<longleftrightarrow> b \<notin> live c"
  by (auto simp: use_count_def live_def count_list_0_iff)

lemma registered_unregister:
  assumes "registered R c" and "b \<in> R"
  shows "\<exists>l. evdi_unregister_buffer b (frameBuffers (ctx c)) = Some (Ret l) \<and> registered (R - {b}) (with_heap l c)"
proof -
  obtain bs where bs: "holds (frameBuffers (ctx c)) bs" "distinct (map eb_id bs)" "eb_id ` set bs = R"
    using assms(1) by (auto simp: registered_def)
  have "\<exists>x\<in>set bs. eb_id x = b" using bs(3) assms(2) by blast
  then obtain l where l: "evdi_unregister_buffer b (frameBuffers (ctx c)) = Some (Ret l)"
      "holds l (filter (\<lambda>x. eb_id x \<noteq> b) bs)"
    using unregister_holds [OF bs(1), of b] by auto
  have "distinct (map eb_id (filter (\<lambda>x. eb_id x \<noteq> b) bs))" using bs(2) by (simp add: distinct_map_filter)
  moreover have "eb_id ` set (filter (\<lambda>x. eb_id x \<noteq> b) bs) = R - {b}" using bs(3) by auto
  moreover have "evdiHandle c" using assms(1) by (simp add: registered_def)
  ultimately have "registered (R - {b}) (with_heap l c)" unfolding registered_def using l(2)
    by (intro conjI exI [of _ "filter (\<lambda>x. eb_id x \<noteq> b) bs"]) simp_all
  then show ?thesis using l(1) by blast
qed

lemma drop_buffer_registered:
  assumes "registered R c" and "b \<in> R"
  shows "\<exists>l. drop_buffer b c = Some (Ret (with_heap l c)) \<and>
    registered (if b \<in> live c then R else R - {b}) (with_heap l c)"
proof (cases "b \<in> live c")
  case True
  then have "drop_buffer b c = Some (Ret c)" using use_count_zero [of b c] by (simp add: drop_buffer_def)
  then show ?thesis using True assms(1) with_heap_same [of c] by metis
next
  case False
  obtain l where l: "evdi_unregister_buffer b (frameBuffers (ctx c)) = Some (Ret l)"
      "registered (R - {b}) (with_heap l c)"
    using registered_unregister [OF assms] by blast
  have "evdiHandle c" using assms(1) by (simp add: registered_def)
  then have "drop_buffer b c = Some (Ret (with_heap l c))"
    using False use_count_zero [of b c] l(1) by (simp add: drop_buffer_def with_heap_def)
  then show ?thesis using False l(2) by auto
qed

lemma drop_all_registered:
  assumes "registered R c" and "set bs \<subseteq> R" and "distinct bs"
  shows "\<exists>l. drop_all bs c = Some (Ret (with_heap l c)) \<and> registered (R - (set bs - live c)) (with_heap l c)"
  using assms
proof (induction bs arbitrary: R c)
  case Nil
  then show ?case using with_heap_same [of c] by (metis Diff_empty drop_all.simps(1) empty_Diff list.set(1))
next
  case (Cons b bs)
  let ?R = "if b \<in> live c then R else R - {b}"
  obtain l where l: "drop_buffer b c = Some (Ret (with_heap l c))" "registered ?R (with_heap l c)"
    using drop_buffer_registered [OF Cons.prems(1)] Cons.prems(2) by auto
  have "set bs \<subseteq> ?R" using Cons.prems(2,3) by auto
  then obtain l' where l': "drop_all bs (with_heap l c) = Some (Ret (with_heap l' c))"
      "registered (?R - (set bs - live c)) (with_heap l' c)"
    using Cons.IH [OF l(2)] Cons.prems(3) by auto
  have "?R - (set bs - live c) = R - (set (b # bs) - live c)" by auto
  then show ?case using l(1) l' by auto
qed

lemma reset_requested_registered:
  assumes "registered R c" and "live c \<subseteq> R" and "set_option (buffer_requested c) \<subseteq> set (buffer_list c)"
  shows "\<exists>l. reset_requested c = Some (Ret (with_heap l (c\<lparr>buffer_requested := None\<rparr>))) \<and>
    registered R (with_heap l (c\<lparr>buffer_requested := None\<rparr>))"
proof (cases "buffer_requested c")
  case None
  then have "c\<lparr>buffer_requested := None\<rparr> = c" by simp
  then show ?thesis using assms(1) None with_heap_same [of c] by (metis option.simps(4) reset_requested_def)
next
  case (Some b)
  let ?c = "c\<lparr>buffer_requested := None\<rparr>"
  have b: "b \<in> live ?c" "b \<in> R" using Some assms(2,3) by (auto simp: live_def)
  have "registered R ?c" using assms(1) by (simp add: registered_def)
  then show ?thesis
    using drop_buffer_registered [of R ?c b] b Some by (auto simp: reset_requested_def)
qed

lemma clear_loop_registered:
  assumes "registered R c" and "buffer_requested c = None" and "buffer_list c = bs" and "distinct bs"
    and "set bs \<subseteq> R" and "set (py_kept c) \<subseteq> R"
  shows "\<exists>l. clear_loop bs c = Some (Ret (with_heap l (c\<lparr>buffer_list := []\<rparr>))) \<and>
    registered (R - (set bs - set (py_kept c))) (with_heap l (c\<lparr>buffer_list := []\<rparr>))"
  using assms
proof (induction bs arbitrary: R c)
  case Nil
  then have "registered R (c\<lparr>buffer_list := []\<rparr>)" by (simp add: registered_def)
  then show ?case using with_heap_same [of "c\<lparr>buffer_list := []\<rparr>"]
    by (metis Diff_empty clear_loop.simps(1) empty_Diff list.set(1))
next
  case (Cons b bs)
  let ?c = "c\<lparr>buffer_list := bs\<rparr>"
  have lv: "live ?c = set bs \<union> set (py_kept c)" using Cons.prems(2) by (simp add: live_def)
  let ?R = "if b \<in> live ?c then R else R - {b}"
  have "registered R ?c" using Cons.prems(1) by (simp add: registered_def)
  then obtain l where l: "drop_buffer b ?c = Some (Ret (with_heap l ?c))" "registered ?R (with_heap l ?c)"
    using drop_buffer_registered [of R ?c b] Cons.prems(5) by auto
  have R: "?R = (if b \<in> set (py_kept c) then R else R - {b})" using lv Cons.prems(4) by auto
  have "set bs \<subseteq> ?R" "set (py_kept c) \<subseteq> ?R" using Cons.prems(4,5,6) lv by auto
  then obtain l' where l': "clear_loop bs (with_heap l ?c) = Some (Ret (with_heap l' ((with_heap l ?c)\<lparr>buffer_list := []\<rparr>)))"
      "registered (?R - (set bs - set (py_kept c))) (with_heap l' ((with_heap l ?c)\<lparr>buffer_list := []\<rparr>))"
    using Cons.IH [OF l(2)] Cons.prems(2,4) by auto
  have "with_heap l' ((with_heap l ?c)\<lparr>buffer_list := []\<rparr>) = with_heap l' (c\<lparr>buffer_list := []\<rparr>)"
    by (simp add: with_heap_def)
  moreover have "?R - (set bs - set (py_kept c)) = R - (set (b # bs) - set (py_kept c))" unfolding R by auto
  ultimately show ?case using l(1) l' by auto
qed

section \<open>The invariant of a card\<close>

text \<open>
  No buffer twice in the list; a buffer asked for is in the list, not with the Python code, and the one the
  library fills next; no number given yet is in use; and, while the card is open, exactly the buffers
  something refers to are registered.
\<close>

definition card_ok :: "py_card \<Rightarrow> bool" where
  "card_ok c \<longleftrightarrow> distinct (buffer_list c) \<and> set_option (buffer_requested c) \<subseteq> set (buffer_list c) - set (py_kept c) \<and>
     (\<forall>b. buffer_requested c = Some b \<longrightarrow> bufferToUpdate (ctx c) = b) \<and>
     (\<forall>b\<in>live c. unat b < unat (numerator c)) \<and>
     (if evdiHandle c then registered (live c) c else buffer_list c = [])"

text \<open>What the surroundings promise: memory as long as some is left, callbacks that invent no references.\<close>

definition env_ok :: "'k client_env \<Rightarrow> bool" where
  "env_ok env \<longleftrightarrow> (\<forall>h. finite (dom h) \<longrightarrow> (\<exists>a. ce_node env h = Some a \<and> h a = None)) \<and>
     (\<forall>f b ks. ce_acquire env = Some f \<longrightarrow> set (f b ks) \<subseteq> insert b (set ks)) \<and>
     (\<forall>f m ks. ce_mode_handler env = Some f \<longrightarrow> set (f m ks) \<subseteq> set ks)"

lemma clearBuffers_ok:
  assumes "card_ok c" and "evdiHandle c"
  shows "\<exists>c'. clearBuffers c = Some (Ret c') \<and> card_ok c' \<and> registered (set (py_kept c)) c' \<and>
    buffer_list c' = [] \<and> buffer_requested c' = None \<and> py_kept c' = py_kept c \<and> numerator c' = numerator c \<and>
    card_mode c' = card_mode c"
proof -
  let ?c = "c\<lparr>buffer_requested := None\<rparr>"
  have r: "registered (live c) c" and d: "distinct (buffer_list c)"
    and q: "set_option (buffer_requested c) \<subseteq> set (buffer_list c)"
    using assms by (auto simp: card_ok_def)
  obtain l where l: "reset_requested c = Some (Ret (with_heap l ?c))" "registered (live c) (with_heap l ?c)"
    using reset_requested_registered [OF r _ q] by auto
  have lv: "live c = set (buffer_list c) \<union> set (py_kept c)" using q by (auto simp: live_def)
  obtain l' where l': "clear_loop (buffer_list c) (with_heap l ?c) = Some (Ret (with_heap l' ((with_heap l ?c)\<lparr>buffer_list := []\<rparr>)))"
      "registered (live c - (set (buffer_list c) - set (py_kept c))) (with_heap l' ((with_heap l ?c)\<lparr>buffer_list := []\<rparr>))"
    using clear_loop_registered [OF l(2), of "buffer_list c"] d lv by auto
  let ?d = "with_heap l' ((with_heap l ?c)\<lparr>buffer_list := []\<rparr>)"
  have k: "live c - (set (buffer_list c) - set (py_kept c)) = set (py_kept c)" using lv by auto
  have "live ?d = set (py_kept c)" by (simp add: live_def)
  then have "card_ok ?d" using assms(1,2) l'(2) lv unfolding k by (auto simp: card_ok_def)
  then show ?thesis using l(1) l' unfolding k by (auto simp: clearBuffers_def)
qed

lemma holds_finite: "holds l bs \<Longrightarrow> finite (dom (nodes l))"
  by (auto simp: holds_def)

lemma make_buffer_ok:
  assumes "card_ok c" and "evdiHandle c" and "env_ok env" and "unat (numerator c) + 1 < 2 ^ 32"
    and "buffer_requested c = None"
  shows "\<exists>c'. make_buffer env c = Some (Ret c') \<and> card_ok c' \<and> evdiHandle c' \<and>
    buffer_list c' = buffer_list c @ [numerator c] \<and> buffer_requested c' = None \<and> py_kept c' = py_kept c \<and>
    unat (numerator c') = unat (numerator c) + 1 \<and> card_mode c' = card_mode c"
proof -
  obtain bs where bs: "holds (frameBuffers (ctx c)) bs" "distinct (map eb_id bs)" "eb_id ` set bs = live c"
    using assms(1,2) by (auto simp: card_ok_def registered_def)
  obtain a where a: "ce_node env (nodes (frameBuffers (ctx c))) = Some a" "nodes (frameBuffers (ctx c)) a = None"
    using assms(3) holds_finite [OF bs(1)] by (auto simp: env_ok_def)
  obtain r p where m: "ce_memory env (numerator c) = (r, p)" by fastforce
  let ?b = "pb_buffer (new_buffer (numerator c) r p (card_mode c))"
  have i: "eb_id ?b = numerator c" by (simp add: new_buffer_def)
  have new: "numerator c \<notin> live c" using assms(1) by (auto simp: card_ok_def)
  then have "\<not> (\<exists>x\<in>set bs. eb_id x = eb_id ?b)" using bs(3) i by (metis image_eqI)
  then obtain l where l: "evdi_register_buffer (Some a) ?b (frameBuffers (ctx c)) = Some (Ret l)" "holds l (bs @ [?b])"
    using register_holds [OF bs(1) a(2), of ?b] by auto
  let ?c = "c\<lparr>numerator := numerator c + 1, ctx := (ctx c)\<lparr>frameBuffers := l\<rparr>,
      buffer_list := buffer_list c @ [numerator c]\<rparr>"
  have mk: "make_buffer env c = Some (Ret ?c)" using m a(1) l(1) assms(2) by (simp add: make_buffer_def Let_def)
  have n: "unat (numerator c + 1) = unat (numerator c) + 1" using assms(4) by (intro unat_plus_one) simp
  have lv: "live ?c = insert (numerator c) (live c)" by (auto simp: live_def)
  have "distinct (map eb_id (bs @ [?b]))" using bs(2,3) new i by auto
  moreover have "eb_id ` set (bs @ [?b]) = live ?c" using bs(3) i lv by auto
  ultimately have "registered (live ?c) ?c" using l(2) assms(2) unfolding registered_def
    by (intro conjI exI [of _ "bs @ [?b]"]) simp_all
  moreover have "\<forall>b\<in>live ?c. unat b < unat (numerator ?c)"
    unfolding lv using assms(1) n by (auto simp: card_ok_def less_Suc_eq)
  moreover have "distinct (buffer_list ?c)" using assms(1) new by (auto simp: card_ok_def live_def)
  ultimately have "card_ok ?c" using assms(2,5) by (simp add: card_ok_def)
  then show ?thesis using mk n assms(2,5) by auto
qed

lemma makeBuffers_ok:
  assumes "card_ok c" and "evdiHandle c" and "env_ok env" and "unat (numerator c) + 2 < 2 ^ 32"
  shows "\<exists>c'. makeBuffers env 2 c = Some (Ret c') \<and> card_ok c' \<and> evdiHandle c' \<and> length (buffer_list c') = 2 \<and>
    buffer_requested c' = None \<and> py_kept c' = py_kept c \<and> set (buffer_list c') \<inter> live c = {} \<and>
    card_mode c' = card_mode c"
proof -
  obtain c0 where c0: "clearBuffers c = Some (Ret c0)" "card_ok c0" "registered (set (py_kept c)) c0"
      "buffer_list c0 = []" "buffer_requested c0 = None" "py_kept c0 = py_kept c" "numerator c0 = numerator c"
      "card_mode c0 = card_mode c"
    using clearBuffers_ok [OF assms(1,2)] by auto
  have h0: "evdiHandle c0" using c0(3) by (simp add: registered_def)
  obtain c1 where c1: "make_buffer env c0 = Some (Ret c1)" "card_ok c1" "evdiHandle c1"
      "buffer_list c1 = [numerator c]" "buffer_requested c1 = None" "py_kept c1 = py_kept c"
      "unat (numerator c1) = unat (numerator c) + 1" "card_mode c1 = card_mode c"
    using make_buffer_ok [OF c0(2) h0 assms(3)] assms(4) c0(4-8) by auto
  obtain c2 where c2: "make_buffer env c1 = Some (Ret c2)" "card_ok c2" "evdiHandle c2"
      "buffer_list c2 = [numerator c, numerator c1]" "buffer_requested c2 = None" "py_kept c2 = py_kept c"
      "card_mode c2 = card_mode c"
    using make_buffer_ok [OF c1(2,3) assms(3)] assms(4) c1(4-8) by auto
  have "numerator c \<notin> live c" "numerator c1 \<notin> live c"
    using assms(1) c1(7) by (auto simp: card_ok_def dest!: bspec)
  then have "set (buffer_list c2) \<inter> live c = {}" using c2(4) by auto
  then show ?thesis using c0(1) c1(1) c2 by (auto simp: makeBuffers_def numeral_2_eq_2)
qed

lemma python_keeps_ok:
  assumes "registered (live c) c" and "set ks \<subseteq> set (py_kept c)"
  shows "\<exists>l. python_keeps ks c = Some (Ret (with_heap l (c\<lparr>py_kept := ks\<rparr>))) \<and>
    registered (live (c\<lparr>py_kept := ks\<rparr>)) (with_heap l (c\<lparr>py_kept := ks\<rparr>))"
proof -
  let ?c = "c\<lparr>py_kept := ks\<rparr>" and ?bs = "remdups (filter (\<lambda>b. b \<notin> set ks) (py_kept c))"
  have "registered (live c) ?c" using assms(1) by (simp add: registered_def)
  moreover have "set ?bs \<subseteq> live c" "distinct ?bs" by (auto simp: live_def)
  ultimately obtain l where l: "drop_all ?bs ?c = Some (Ret (with_heap l ?c))"
      "registered (live c - (set ?bs - live ?c)) (with_heap l ?c)"
    using drop_all_registered by blast
  have "live c - (set ?bs - live ?c) = live ?c" using assms(2) by (auto simp: live_def)
  then show ?thesis using l by (auto simp: python_keeps_def)
qed

lemma python_ok:
  assumes "card_ok c" and "evdiHandle c" and "set ks \<subseteq> set (py_kept c)"
  shows "\<exists>c'. python_keeps ks c = Some (Ret c') \<and> card_ok c' \<and> evdiHandle c' \<and> py_kept c' = ks \<and>
    buffer_list c' = buffer_list c \<and> buffer_requested c' = buffer_requested c \<and> numerator c' = numerator c \<and>
    bufferToUpdate (ctx c') = bufferToUpdate (ctx c)"
proof -
  have "registered (live c) c" using assms(1,2) by (simp add: card_ok_def)
  then obtain l where l: "python_keeps ks c = Some (Ret (with_heap l (c\<lparr>py_kept := ks\<rparr>)))"
      "registered (live (c\<lparr>py_kept := ks\<rparr>)) (with_heap l (c\<lparr>py_kept := ks\<rparr>))"
    using python_keeps_ok [OF _ assms(3)] by blast
  have "live (c\<lparr>py_kept := ks\<rparr>) \<subseteq> live c" using assms(3) by (auto simp: live_def)
  then have "card_ok (with_heap l (c\<lparr>py_kept := ks\<rparr>))"
    using l(2) assms by (auto simp: card_ok_def)
  then show ?thesis using l(1) assms(2) by auto
qed

lemma hand_over_ok:
  assumes "card_ok c" and "evdiHandle c" and "env_ok env" and "buffer_requested c = Some b"
  shows "\<exists>c'. hand_over env b c = Some (Ret c') \<and> card_ok c' \<and> evdiHandle c' \<and> buffer_requested c' = None \<and>
    py_kept c' = (case ce_acquire env of None \<Rightarrow> py_kept c | Some f \<Rightarrow> f b (py_kept c)) \<and>
    buffer_list c' = buffer_list c \<and> numerator c' = numerator c"
proof (cases "ce_acquire env")
  case None
  have r: "registered (live c) c" using assms(1,2) by (simp add: card_ok_def)
  have q: "set_option (buffer_requested c) \<subseteq> set (buffer_list c)" using assms(1) by (auto simp: card_ok_def)
  let ?c = "c\<lparr>buffer_requested := None\<rparr>"
  obtain l where l: "reset_requested c = Some (Ret (with_heap l ?c))" "registered (live c) (with_heap l ?c)"
    using reset_requested_registered [OF r _ q] by auto
  have "live ?c = live c" using q by (auto simp: live_def)
  then have "card_ok (with_heap l ?c)" using l(2) assms(1,2) by (auto simp: card_ok_def)
  then show ?thesis using l(1) None assms(2) by (auto simp: hand_over_def)
next
  case (Some f)
  let ?c = "c\<lparr>py_kept := b # py_kept c, buffer_requested := None\<rparr>"
  have b: "b \<in> set (buffer_list c)" using assms(1,4) by (auto simp: card_ok_def)
  then have lv: "live ?c = live c" using assms(4) by (auto simp: live_def)
  have "registered (live c) ?c" using assms(1,2) by (simp add: card_ok_def registered_def)
  then have "card_ok ?c" using assms(1,2) lv by (auto simp: card_ok_def)
  moreover have "set (f b (py_kept c)) \<subseteq> set (py_kept ?c)" using assms(3) Some by (simp add: env_ok_def)
  ultimately obtain c' where "python_keeps (f b (py_kept c)) ?c = Some (Ret c')" "card_ok c'" "evdiHandle c'"
      "py_kept c' = f b (py_kept c)" "buffer_list c' = buffer_list c" "buffer_requested c' = None"
      "numerator c' = numerator c"
    using python_ok [of ?c "f b (py_kept c)"] assms(2) by auto
  then show ?thesis using Some by (simp add: hand_over_def)
qed

lemma grab_requested_Ret:
  assumes "card_ok c" and "evdiHandle c" and "env_ok env" and "buffer_requested c = Some b"
    and "evdi_grab_pixels (ce_serve env) (ce_stack env) (ctx c) k mem = Some (Ret (rects, n, k1, mem1))"
  shows "\<exists>c'. grab_requested env (c, k, mem) = Some (Ret (c', k1, mem1)) \<and> hand_over env b c = Some (Ret c') \<and>
    card_ok c' \<and> evdiHandle c' \<and> buffer_requested c' = None \<and> buffer_list c' = buffer_list c \<and>
    py_kept c' = (case ce_acquire env of None \<Rightarrow> py_kept c | Some f \<Rightarrow> f b (py_kept c)) \<and> numerator c' = numerator c"
  using hand_over_ok [OF assms(1-4)] assms(2,4,5) by (auto simp: grab_requested_def)

lemma grab_requested_ok:
  assumes "card_ok c" and "evdiHandle c" and "env_ok env" and "buffer_requested c = Some b"
    and "grab_requested env (c, k, mem) = Some (Ret (c', s))"
  shows "card_ok c' \<and> evdiHandle c' \<and> buffer_requested c' = None \<and> buffer_list c' = buffer_list c \<and>
    numerator c' = numerator c"
proof -
  obtain rects n k1 mem1 where "evdi_grab_pixels (ce_serve env) (ce_stack env) (ctx c) k mem = Some (Ret (rects, n, k1, mem1))"
    using assms(2,4,5) by (auto simp: grab_requested_def bind_run_Ret)
  then show ?thesis using grab_requested_Ret [OF assms(1-4)] assms(5) by fastforce
qed

text \<open>A buffer that only the list refers to may be asked for.\<close>

lemma free_buffer_Some:
  assumes "free_buffer c = Some b" and "buffer_requested c = None"
  shows "b \<in> set (buffer_list c)" and "b \<notin> set (py_kept c)"
proof -
  have u: "use_count b c = 1" and b: "b \<in> set (buffer_list c)"
    using assms(1) by (auto simp: free_buffer_def find_Some_iff)
  show "b \<in> set (buffer_list c)" by (rule b)
  have "count_list (buffer_list c) b \<noteq> 0" using b by (simp add: count_list_0_iff)
  then have "count_list (py_kept c) b = 0" using u by (simp add: use_count_def)
  then show "b \<notin> set (py_kept c)" by (simp add: count_list_0_iff)
qed

lemma requested_ok:
  assumes "card_ok c" and "evdiHandle c" and "buffer_requested c = None" and "free_buffer c = Some b"
  shows "card_ok (c\<lparr>buffer_requested := Some b, ctx := (ctx c)\<lparr>bufferToUpdate := b\<rparr>\<rparr>)"
proof -
  let ?c = "c\<lparr>buffer_requested := Some b, ctx := (ctx c)\<lparr>bufferToUpdate := b\<rparr>\<rparr>"
  note b = free_buffer_Some [OF assms(4,3)]
  have lv: "live ?c = live c" using b(1) assms(3) by (auto simp: live_def)
  have "registered (live c) ?c" using assms(1,2) by (simp add: card_ok_def registered_def)
  then show ?thesis using assms(1,2) b lv by (auto simp: card_ok_def)
qed

text \<open>What a call leaves of a card that was in order and open.\<close>

definition keeps_card :: "py_card \<Rightarrow> py_card \<Rightarrow> bool" where
  "keeps_card c c' \<longleftrightarrow> card_ok c \<and> evdiHandle c \<longrightarrow> card_ok c' \<and> evdiHandle c'"

lemma keeps_card_trans: "keeps_card c c' \<Longrightarrow> keeps_card c' c'' \<Longrightarrow> keeps_card c c''"
  by (auto simp: keeps_card_def)

lemma grab_requested_keeps:
  assumes "env_ok env" and "buffer_requested c = Some b" and "grab_requested env (c, k, mem) = Some (Ret t)"
  shows "keeps_card c (fst t)"
proof -
  have g: "grab_requested env (c, k, mem) = Some (Ret (fst t, snd t))" using assms(3) by simp
  show ?thesis unfolding keeps_card_def using grab_requested_ok [OF _ _ assms(1,2) g] by blast
qed

lemma request_Ret:
  "evdi_request_update call b c k = Some (Ret x) \<longleftrightarrow>
     (\<exists>n k1. do_ioctl call k = Some (Ret (n, k1)) \<and> x = (n = 1, c\<lparr>bufferToUpdate := b\<rparr>, k1))"
  by (auto simp: evdi_request_update_def split: option.splits outcome.splits)

lemma request_update_keeps:
  assumes "env_ok env" and "request_update env s = Some (Ret s')"
  shows "keeps_card (fst s) (fst s')"
proof -
  have "env_ok e \<longrightarrow> (case y of Ret s' \<Rightarrow> keeps_card (fst s) (fst s') | Oops \<Rightarrow> True)"
    if "request_update e s = Some y" for e :: "'a client_env" and s y
  proof (rule request_update.raw_induct [where P = "\<lambda>e s y. env_ok e \<longrightarrow>
        (case y of Ret s' \<Rightarrow> keeps_card (fst s) (fst s') | Oops \<Rightarrow> True)", OF _ that])
    fix loop :: "'a client_env \<Rightarrow> py_card \<times> 'a \<times> umem \<Rightarrow> (py_card \<times> 'a \<times> umem) outcome option" and e s y
    assume ih: "\<And>e s y. loop e s = Some y \<Longrightarrow>
        env_ok e \<longrightarrow> (case y of Ret s' \<Rightarrow> keeps_card (fst s) (fst s') | Oops \<Rightarrow> True)"
      and step: "(case s of (c, k, mem) \<Rightarrow>
        if buffer_requested c \<noteq> None then Some (Ret s)
        else case free_buffer c of
            None \<Rightarrow> Some (Ret s)
          | Some b \<Rightarrow>
              if \<not> evdiHandle c then Some Oops
              else bind_run (evdi_request_update (ce_request e) b (ctx c) k)
                (\<lambda>(update_ready, ctx1, k1).
                   let c1 = c\<lparr>buffer_requested := Some b, ctx := ctx1\<rparr>
                   in if \<not> update_ready then Some (Ret (c1, k1, mem))
                      else bind_run (grab_requested e (c1, k1, mem)) (loop e))) = Some y"
    obtain c k mem where s: "s = (c, k, mem)" by (cases s)
    show "env_ok e \<longrightarrow> (case y of Ret s' \<Rightarrow> keeps_card (fst s) (fst s') | Oops \<Rightarrow> True)"
    proof (intro impI, cases y)
      fix s'
      assume env: "env_ok e" and y: "y = Ret s'"
      consider (same) "s' = s"
        | (asked) b ready k1 where "buffer_requested c = None" "free_buffer c = Some b" "evdiHandle c"
            "evdi_request_update (ce_request e) b (ctx c) k = Some (Ret (ready, (ctx c)\<lparr>bufferToUpdate := b\<rparr>, k1))"
            "(if \<not> ready then Some (Ret (c\<lparr>buffer_requested := Some b, ctx := (ctx c)\<lparr>bufferToUpdate := b\<rparr>\<rparr>, k1, mem))
              else bind_run (grab_requested e (c\<lparr>buffer_requested := Some b, ctx := (ctx c)\<lparr>bufferToUpdate := b\<rparr>\<rparr>, k1, mem)) (loop e))
               = Some (Ret s')"
      proof (cases "buffer_requested c = None \<and> (\<exists>b. free_buffer c = Some b)")
        case False
        then have "buffer_requested c \<noteq> None \<or> free_buffer c = None" by auto
        then have "s' = s" using step unfolding s y by (elim disjE) (simp_all split: if_splits)
        then show ?thesis by (rule same)
      next
        case True
        then obtain b where b: "buffer_requested c = None" "free_buffer c = Some b" by blast
        have h: "evdiHandle c" using step b unfolding s y by (cases "evdiHandle c") simp_all
        then obtain ready ctx1 k1 where r:
            "evdi_request_update (ce_request e) b (ctx c) k = Some (Ret (ready, ctx1, k1))"
            "(if \<not> ready then Some (Ret (c\<lparr>buffer_requested := Some b, ctx := ctx1\<rparr>, k1, mem))
              else bind_run (grab_requested e (c\<lparr>buffer_requested := Some b, ctx := ctx1\<rparr>, k1, mem)) (loop e))
               = Some (Ret s')"
          using step b h unfolding s y
          by (cases "evdi_request_update (ce_request e) b (ctx c) k" rule: run_cases) (auto simp: Let_def)
        have x: "ctx1 = (ctx c)\<lparr>bufferToUpdate := b\<rparr>" using r(1) by (auto simp: request_Ret)
        show ?thesis using asked [OF b h r(1) [unfolded x] r(2) [unfolded x]] .
      qed
      then show "case y of Ret s' \<Rightarrow> keeps_card (fst s) (fst s') | Oops \<Rightarrow> True"
      proof cases
        case same
        then show ?thesis by (simp add: y keeps_card_def)
      next
        case (asked b ready k1)
        let ?c = "c\<lparr>buffer_requested := Some b, ctx := (ctx c)\<lparr>bufferToUpdate := b\<rparr>\<rparr>"
        have k1: "keeps_card c ?c"
          using requested_ok [OF _ asked(3,1,2)] asked(3) by (simp add: keeps_card_def)
        show ?thesis
        proof (cases ready)
          case False
          then show ?thesis using asked(5) k1 by (auto simp: y s)
        next
          case True
          then obtain t where t: "grab_requested e (?c, k1, mem) = Some (Ret t)" "loop e t = Some (Ret s')"
            using asked(5) by (auto simp: bind_run_Ret)
          have "keeps_card ?c (fst t)" by (rule grab_requested_keeps [OF env _ t(1)]) simp
          then have "keeps_card c (fst t)" by (rule keeps_card_trans [OF k1])
          moreover have "keeps_card (fst t) (fst s')" using ih [OF t(2)] env by simp
          ultimately have "keeps_card c (fst s')" by (rule keeps_card_trans)
          then show ?thesis by (simp add: y s)
        qed
      qed
    qed simp
  qed
  from this [OF assms(2)] assms(1) show ?thesis by simp
qed

lemma grab_pixels_keeps:
  assumes "env_ok env" and "grab_pixels env s = Some (Ret s')"
  shows "keeps_card (fst s) (fst s')"
proof (cases "buffer_requested (fst s)")
  case None
  then show ?thesis using assms(2) by (simp add: grab_pixels_def keeps_card_def)
next
  case (Some b)
  obtain c k mem where s: "s = (c, k, mem)" by (cases s)
  obtain t where t: "grab_requested env s = Some (Ret t)" "request_update env t = Some (Ret s')"
    using assms(2) Some by (auto simp: grab_pixels_def bind_run_Ret)
  have "keeps_card (fst s) (fst t)" using grab_requested_keeps [OF assms(1)] Some t(1) by (simp add: s)
  then show ?thesis using request_update_keeps [OF assms(1) t(2)] by (rule keeps_card_trans)
qed

lemma mode_handler_keeps:
  assumes "env_ok env" and "card_C_mode_handler env m s = Some (Ret s')" and "unat (numerator (fst s)) + 2 < 2 ^ 32"
  shows "keeps_card (fst s) (fst s')"
  unfolding keeps_card_def
proof (intro impI, elim conjE)
  assume ok: "card_ok (fst s)" and h: "evdiHandle (fst s)"
  obtain c k mem where s: "s = (c, k, mem)" by (cases s)
  let ?c = "c\<lparr>card_mode := m\<rparr>"
  have "live ?c = live c" by (simp add: live_def)
  moreover have "registered (live c) ?c" using ok h by (simp add: s card_ok_def registered_def)
  ultimately have "card_ok ?c" using ok h by (simp add: s card_ok_def)
  then obtain c1 where c1: "makeBuffers env 2 ?c = Some (Ret c1)" "card_ok c1" "evdiHandle c1"
    using makeBuffers_ok [of ?c env] assms(1,3) h by (auto simp: s)
  obtain c2 where c2: "call_mode_handler env m c1 = Some (Ret c2)" "request_update env (c2, k, mem) = Some (Ret s')"
    using assms(2) c1(1) by (auto simp: s card_C_mode_handler_def bind_run_Ret)
  have "card_ok c2 \<and> evdiHandle c2"
  proof (cases "ce_mode_handler env")
    case None
    then show ?thesis using c1 c2(1) by (simp add: call_mode_handler_def)
  next
    case (Some f)
    then have "set (f m (py_kept c1)) \<subseteq> set (py_kept c1)" using assms(1) by (simp add: env_ok_def)
    then obtain c3 where "python_keeps (f m (py_kept c1)) c1 = Some (Ret c3)" "card_ok c3" "evdiHandle c3"
      using python_ok [OF c1(2,3)] by auto
    then show ?thesis using c2(1) Some by (simp add: call_mode_handler_def)
  qed
  then show "card_ok (fst s') \<and> evdiHandle (fst s')"
    using request_update_keeps [OF assms(1) c2(2)] by (simp add: keeps_card_def)
qed

lemma upcall_keeps:
  assumes "env_ok env" and "card_upcall env u s = Some (Ret s')" and "unat (numerator (fst s)) + 2 < 2 ^ 32"
  shows "keeps_card (fst s) (fst s')"
proof (cases u)
  case (UpdateReadyHandler b)
  then have "grab_pixels env s = Some (Ret s')"
    using assms(2) by (auto simp: card_upcall_def default_update_ready_handler_def split: option.splits if_splits)
  then show ?thesis by (rule grab_pixels_keeps [OF assms(1)])
next
  case (ModeChangedHandler m)
  then show ?thesis using mode_handler_keeps [OF assms(1) _ assms(3)] assms(2) by (simp add: card_upcall_def)
next
  case (EnableCursorEvents e)
  then show ?thesis using assms(2) by (auto simp: card_upcall_def keeps_card_def split: prod.splits)
qed (use assms(2) in \<open>simp_all add: card_upcall_def keeps_card_def\<close>)

text \<open>
  The states of an open card: opened on a handle without buffers, then updates, events, references the
  Python code drops, and anything the driver and other parts of the process do to their own state. Buffers
  are made while their number does not wrap.
\<close>

inductive card_reach :: "'k client_env \<Rightarrow> py_card \<times> 'k \<times> umem \<Rightarrow> bool" for env where
  opened: "new_card (Some h) n = Some c \<Longrightarrow> holds (frameBuffers h) [] \<Longrightarrow> card_reach env (c, k, mem)"
| update: "card_reach env s \<Longrightarrow> request_update env s = Some (Ret s') \<Longrightarrow> card_reach env s'"
| upcall: "card_reach env s \<Longrightarrow> unat (numerator (fst s)) + 2 < 2 ^ 32 \<Longrightarrow>
    card_upcall env u s = Some (Ret s') \<Longrightarrow> card_reach env s'"
| python: "card_reach env (c, k, mem) \<Longrightarrow> set ks \<subseteq> set (py_kept c) \<Longrightarrow>
    python_keeps ks c = Some (Ret c') \<Longrightarrow> card_reach env (c', k, mem)"
| elsewhere: "card_reach env (c, k, mem) \<Longrightarrow> card_reach env (c, k', mem')"

lemma new_card_ok:
  assumes "new_card (Some h) n = Some c" and "holds (frameBuffers h) []"
  shows "card_ok c \<and> evdiHandle c"
proof -
  have c: "evdiHandle c" "ctx c = h" "buffer_list c = []" "buffer_requested c = None" "py_kept c = []"
    using assms(1) by (auto simp: new_card_def)
  have "registered {} c" unfolding registered_def using c assms(2) by (intro conjI exI [of _ "[]"]) simp_all
  then show ?thesis using c by (simp add: card_ok_def live_def)
qed

lemma card_reach_ok:
  assumes "env_ok env"
  shows "card_reach env s \<Longrightarrow> card_ok (fst s) \<and> evdiHandle (fst s)"
proof (induction rule: card_reach.induct)
  case (opened h n c k mem)
  then show ?case using new_card_ok by simp
next
  case (update s s')
  then show ?case using request_update_keeps [OF assms update.hyps(2)] by (simp add: keeps_card_def)
next
  case (upcall s u s')
  then show ?case using upcall_keeps [OF assms upcall.hyps(3,2)] by (simp add: keeps_card_def)
next
  case (python c k mem ks c')
  then have "card_ok c" "evdiHandle c" by simp_all
  then show ?case using python_ok [OF _ _ python.hyps(2)] python.hyps(3) by auto
qed simp

lemma close_card_ok:
  assumes "card_ok c" and "evdiHandle c"
  shows "\<exists>c'. close_card c = Some (Ret c') \<and> \<not> evdiHandle c' \<and> buffer_list c' = [] \<and>
    buffer_requested c' = None \<and> py_kept c' = py_kept c"
  using clearBuffers_ok [OF assms] assms(2) by (auto simp: close_card_def)

section \<open>With the driver\<close>

definition driver_request :: "evdi_device \<Rightarrow> (nat result \<times> evdi_device) outcome" where
  "driver_request evdi =
     (case evdi_painter_request_update_ioctl (painter evdi) of (r, q) \<Rightarrow> Ret (r, evdi\<lparr>painter := q\<rparr>))"

lemma do_request:
  assumes "painter evdi = Some p" and "\<not> was_update_requested p"
  shows "evdi_request_update driver_request b h evdi = Some (Ret (0 < num_dirts p, h\<lparr>bufferToUpdate := b\<rparr>,
    evdi\<lparr>painter := Some (p\<lparr>was_update_requested := (num_dirts p \<le> 0)\<rparr>)\<rparr>))"
proof -
  let ?n = "if 0 < num_dirts p then 1 else 0 :: nat"
  let ?e = "evdi\<lparr>painter := Some (p\<lparr>was_update_requested := (num_dirts p \<le> 0)\<rparr>)\<rparr>"
  have "p\<lparr>was_update_requested := False\<rparr> = p" using assms(2) by simp
  then have "driver_request evdi = Ret (Inr ?n, ?e)"
    using assms by (auto simp: driver_request_def evdi_painter_request_update_ioctl_def)
  then have "drm_ioctl driver_request evdi = Some (Ret (Inr ?n, ?e))" by (rule drm_ioctl_once) simp_all
  then show ?thesis by (simp add: evdi_request_update_def do_ioctl_def)
qed

lemma find_registered:
  assumes "b \<in> set bs" and "distinct (map eb_id bs)"
  shows "List.find (\<lambda>x. eb_id x = eb_id b) bs = Some b"
  using assms by (induction bs) (auto simp: image_iff)

text \<open>A second request, after the damage is taken, comes back at once.\<close>

lemma request_when_clean:
  assumes "ce_request env = driver_request" and "painter evdi = Some p" and "\<not> was_update_requested p"
    and "num_dirts p = 0" and "card_ok c" and "evdiHandle c" and "buffer_requested c = None"
  shows "\<exists>c' p'. request_update env (c, evdi, mem) = Some (Ret (c', evdi\<lparr>painter := Some p'\<rparr>, mem)) \<and> card_ok c' \<and>
    evdiHandle c' \<and> py_kept c' = py_kept c \<and> buffer_requested c' = free_buffer c \<and> damage p' = damage p \<and>
    num_dirts p' = 0 \<and> (was_update_requested p' \<longleftrightarrow> free_buffer c \<noteq> None)"
proof (cases "free_buffer c")
  case None
  have "evdi\<lparr>painter := Some p\<rparr> = evdi" using assms(2) by simp
  moreover have "request_update env (c, evdi, mem) = Some (Ret (c, evdi, mem))"
    using None assms(7) by (subst request_update.simps) simp
  ultimately show ?thesis using None assms(3-7) by (intro exI [of _ c] exI [of _ p]) simp
next
  case (Some b)
  let ?c = "c\<lparr>buffer_requested := Some b, ctx := (ctx c)\<lparr>bufferToUpdate := b\<rparr>\<rparr>"
  have "request_update env (c, evdi, mem) =
      Some (Ret (?c, evdi\<lparr>painter := Some (p\<lparr>was_update_requested := True\<rparr>)\<rparr>, mem))"
    using Some assms do_request [OF assms(2,3), of b "ctx c"] by (subst request_update.simps) simp
  moreover have "card_ok ?c" by (rule requested_ok [OF assms(5-7) Some])
  moreover have "damage (p\<lparr>was_update_requested := True\<rparr>) = damage p" by (simp add: damage_def)
  ultimately show ?thesis using Some assms(4,6) by (intro exI [of _ ?c] exI [of _ "p\<lparr>was_update_requested := True\<rparr>"]) simp
qed

section \<open>Properties\<close>

text \<open>
  C4: whatever events, updates and callbacks an open card goes through, exactly the buffers that the card or
  the Python code refers to are registered with the library, each once; a buffer the card has asked for is
  not with the Python code and is the one the library fills next, so the assertion of the update handler
  holds; and making the buffers of a mode, and closing, never stop the process.
\<close>

theorem card_invariant:
  assumes "env_ok env" and "card_reach env (c, k, mem)"
  shows "evdiHandle c \<and>
    (\<exists>bs. holds (frameBuffers (ctx c)) bs \<and> distinct (map eb_id bs) \<and>
       eb_id ` set bs = set (buffer_list c) \<union> set_option (buffer_requested c) \<union> set (py_kept c)) \<and>
    (\<forall>b. buffer_requested c = Some b \<longrightarrow> b \<notin> set (py_kept c) \<and>
       default_update_ready_handler env (bufferToUpdate (ctx c)) (c, k, mem) = grab_pixels env (c, k, mem)) \<and>
    (unat (numerator c) + 2 < 2 ^ 32 \<longrightarrow>
       (\<exists>c'. makeBuffers env 2 c = Some (Ret c') \<and> length (buffer_list c') = 2 \<and>
          set (buffer_list c') \<inter> set (py_kept c) = {})) \<and>
    (\<exists>c'. close_card c = Some (Ret c'))"
proof -
  have ok: "card_ok c" "evdiHandle c" using card_reach_ok [OF assms] by simp_all
  have "registered (live c) c" using ok by (simp add: card_ok_def)
  moreover have "b \<notin> set (py_kept c) \<and> bufferToUpdate (ctx c) = b" if "buffer_requested c = Some b" for b
    using ok(1) that by (simp add: card_ok_def)
  moreover have "\<exists>c'. makeBuffers env 2 c = Some (Ret c') \<and> length (buffer_list c') = 2 \<and>
      set (buffer_list c') \<inter> set (py_kept c) = {}" if "unat (numerator c) + 2 < 2 ^ 32"
    using makeBuffers_ok [OF ok assms(1) that] by (auto simp: live_def)
  moreover have "\<exists>c'. close_card c = Some (Ret c')" using close_card_ok [OF ok] by blast
  ultimately show ?thesis using ok(2) by (auto simp: registered_def live_def default_update_ready_handler_def)
qed


text \<open>
  A buffer the Python code still has when its card is closed cannot be given back: its destructor
  unregisters it through the handle that was freed.
\<close>

theorem buffer_outlives_card:
  assumes "env_ok env" and "card_reach env (c, k, mem)" and "b \<in> set (py_kept c)" and "b \<notin> set ks"
  shows "\<exists>c'. close_card c = Some (Ret c') \<and> python_keeps ks c' = Some Oops"
proof -
  have "card_ok c" "evdiHandle c" using card_reach_ok [OF assms(1,2)] by simp_all
  then obtain c' where c': "close_card c = Some (Ret c')" "\<not> evdiHandle c'" "buffer_list c' = []"
      "buffer_requested c' = None" "py_kept c' = py_kept c"
    using close_card_ok by blast
  let ?bs = "remdups (filter (\<lambda>b. b \<notin> set ks) (py_kept c'))"
  have "b \<in> set ?bs" using assms(3,4) c'(5) by simp
  then obtain x xs where x: "?bs = x # xs" by (cases ?bs) auto
  then have "x \<in> set ?bs" by simp
  then have "x \<notin> set ks" by simp
  then have "use_count x (c'\<lparr>py_kept := ks\<rparr>) = 0" using c'(3,4) by (simp add: use_count_zero live_def)
  then have "python_keeps ks c' = Some Oops" using x c'(2) by (simp add: python_keeps_def drop_buffer_def)
  then show ?thesis using c'(1) by blast
qed

section \<open>Witnesses\<close>

definition sample_handle :: evdi_device_context where
  "sample_handle = client_context\<lparr>frameBuffers := empty_list\<rparr>"

definition sample_client :: "evdi_device client_env" where
  "sample_client = \<lparr>ce_node = (\<lambda>h. Some (LEAST a. h a = None)), ce_memory = (\<lambda>_. (0x4000, 0x1000)),
     ce_request = driver_request, ce_serve = evdi_painter_grabpix_ioctl sample_env,
     ce_cursor_events = (\<lambda>_ k. k), ce_stack = 0x8000, ce_acquire = Some (\<lambda>b ks. b # ks),
     ce_mode_handler = None\<rparr>"

definition sample_mode :: evdi_mode where
  "sample_mode = to_evdi_mode 2 2 60 32 0"

lemma sample_client_ok: "env_ok sample_client"
proof -
  have "h (LEAST a. h a = None) = None" if fin: "finite (dom h)" for h :: node_heap
  proof -
    obtain a where "a \<notin> dom h" using ex_new_if_finite [OF infinite_UNIV_nat fin] ..
    then have "h a = None" by blast
    then show ?thesis by (rule LeastI)
  qed
  moreover have "ce_node sample_client = (\<lambda>h. Some (LEAST a. h a = None))" "ce_acquire sample_client = Some (\<lambda>b ks. b # ks)"
    "ce_mode_handler sample_client = None" by (simp_all add: sample_client_def)
  ultimately show ?thesis unfolding env_ok_def by simp
qed

definition sample_card :: py_card where
  "sample_card = \<lparr>evdiHandle = True, ctx = sample_handle, card_mode = to_evdi_mode 0 0 0 0 0, buffer_list = [],
     buffer_requested = None, py_kept = [], numerator = 0\<rparr>"

lemma sample_opened: "card_reach env (sample_card, k, mem)"
  by (rule card_reach.opened [of sample_handle 0])
    (simp_all add: new_card_def sample_card_def sample_handle_def empty_list_holds)

theorem card_invariant_witness:
  "\<exists>c'. makeBuffers sample_client 2 sample_card = Some (Ret c') \<and> length (buffer_list c') = 2"
proof -
  have "unat (numerator sample_card) + 2 < 2 ^ 32" by (simp add: sample_card_def)
  then show ?thesis using card_invariant [OF sample_client_ok sample_opened] by blast
qed

text \<open>A card that was told of the mode: its first buffer is asked for.\<close>

definition first_buffer :: evdi_buffer where
  "first_buffer = pb_buffer (new_buffer 0 0x4000 0x1000 sample_mode)"

lemma make_buffer_content:
  assumes "make_buffer env c = Some (Ret c')" and "holds (frameBuffers (ctx c)) bs"
    and "env_ok env" and "ce_memory env (numerator c) = (r, p)"
  shows "holds (frameBuffers (ctx c')) (bs @ [pb_buffer (new_buffer (numerator c) r p (card_mode c))])"
proof -
  let ?b = "pb_buffer (new_buffer (numerator c) r p (card_mode c))"
  obtain a where a: "ce_node env (nodes (frameBuffers (ctx c))) = Some a" "nodes (frameBuffers (ctx c)) a = None"
    using assms(3) holds_finite [OF assms(2)] by (auto simp: env_ok_def)
  obtain l where "evdi_register_buffer (Some a) ?b (frameBuffers (ctx c)) = Some (Ret l)" "frameBuffers (ctx c') = l"
    using assms(1,4) a(1) by (auto simp: make_buffer_def Let_def bind_run_Ret split: if_splits)
  then show ?thesis using register_holds [OF assms(2) a(2), of ?b] by (auto split: if_splits)
qed

lemma sample_told:
  fixes evdi :: evdi_device
  assumes "painter evdi = Some p" and "\<not> was_update_requested p" and "num_dirts p = 0"
  shows "\<exists>c bs. card_reach sample_client (c, evdi', mem) \<and> buffer_requested c = Some 0 \<and> py_kept c = [] \<and>
    holds (frameBuffers (ctx c)) bs \<and> first_buffer \<in> set bs \<and> unat (numerator c) = 2"
proof -
  let ?env = sample_client and ?c = "sample_card\<lparr>card_mode := sample_mode\<rparr>"
  have f: "buffer_list ?c = []" "buffer_requested ?c = None" "py_kept ?c = []" "numerator ?c = 0" "evdiHandle ?c"
      "ctx ?c = sample_handle" "card_mode ?c = sample_mode"
    by (simp_all add: sample_card_def)
  have h: "holds (frameBuffers (ctx ?c)) []" by (simp add: f sample_handle_def empty_list_holds)
  then have ok: "card_ok ?c"
    using f by (auto simp: card_ok_def registered_def live_def intro!: exI [of _ "[]"])
  have n: "unat (numerator ?c) + 1 < 2 ^ 32" by (simp add: f)
  obtain c1 where c1: "make_buffer ?env ?c = Some (Ret c1)" "card_ok c1" "evdiHandle c1" "buffer_list c1 = [0]"
      "buffer_requested c1 = None" "py_kept c1 = []" "unat (numerator c1) = 1" "card_mode c1 = sample_mode"
    using make_buffer_ok [OF ok f(5) sample_client_ok n f(2)] f by auto
  have h1: "holds (frameBuffers (ctx c1)) [first_buffer]"
    using make_buffer_content [OF c1(1) h sample_client_ok, where r = "0x4000" and p = "0x1000"] f
    by (simp add: sample_client_def first_buffer_def)
  have n1: "numerator c1 = 1" using c1(7) by (simp add: word_unat_eq_iff)
  obtain c2 where c2: "make_buffer ?env c1 = Some (Ret c2)" "card_ok c2" "evdiHandle c2" "buffer_list c2 = [0, 1]"
      "buffer_requested c2 = None" "py_kept c2 = []" "unat (numerator c2) = 2"
    using make_buffer_ok [OF c1(2,3) sample_client_ok _ c1(5)] c1 n1 by auto
  obtain r q where m: "ce_memory ?env (numerator c1) = (r, q)" by fastforce
  note h2 = make_buffer_content [OF c2(1) h1 sample_client_ok m]
  have fr: "free_buffer c2 = Some 0" using c2(4-6) by (simp add: free_buffer_def use_count_def)
  let ?c3 = "c2\<lparr>buffer_requested := Some 0, ctx := (ctx c2)\<lparr>bufferToUpdate := 0\<rparr>\<rparr>"
  have "clearBuffers ?c = Some (Ret ?c)" by (simp add: clearBuffers_def reset_requested_def sample_card_def)
  then have mk: "makeBuffers ?env 2 ?c = Some (Ret c2)"
    using c1(1) c2(1) by (simp add: makeBuffers_def numeral_2_eq_2)
  have "ce_request ?env = driver_request" by (simp add: sample_client_def)
  then have "request_update ?env (c2, evdi, mem) =
      Some (Ret (?c3, evdi\<lparr>painter := Some (p\<lparr>was_update_requested := True\<rparr>)\<rparr>, mem))"
    using do_request [OF assms(1,2), of 0 "ctx c2"] assms(3) c2(3,5) fr by (subst request_update.simps) simp
  then have "card_upcall ?env (ModeChangedHandler sample_mode) (sample_card, evdi, mem) =
      Some (Ret (?c3, evdi\<lparr>painter := Some (p\<lparr>was_update_requested := True\<rparr>)\<rparr>, mem))"
    using mk by (simp add: card_upcall_def card_C_mode_handler_def call_mode_handler_def) (simp add: sample_client_def)
  then have "card_reach ?env (?c3, evdi\<lparr>painter := Some (p\<lparr>was_update_requested := True\<rparr>)\<rparr>, mem)"
    by (rule card_reach.upcall [OF sample_opened, rotated]) (simp add: sample_card_def)
  then have "card_reach ?env (?c3, evdi', mem)" by (rule card_reach.elsewhere)
  then show ?thesis using h2 c2(6,7)
    by (intro exI [of _ ?c3] exI [of _ "[first_buffer] @ [pb_buffer (new_buffer (numerator c1) r q (card_mode c1))]"]) simp
qed

lemma first_buffer_fields: "eb_id first_buffer = 0" "eb_buffer first_buffer = 0x1000" "eb_stride first_buffer = 256"
  by (simp_all add: first_buffer_def new_buffer_def sample_mode_def to_evdi_mode_def buffer_stride_def)

lemma first_buffer_apart:
  "addressed 0x8000 128 \<inter> pixel_bytes 0x1000 256 (frame_of sample_fb) = {}"
proof -
  have "unat b < 0x2000" if m: "b \<in> pixel_bytes 0x1000 256 (frame_of sample_fb)" for b
  proof -
    obtain x y k where b: "b = 0x1000 + of_nat (256 * y + 4 * x + k)" and "x < 2" "y < 2" "k < 4"
      using m by (auto simp: pixel_bytes_def frame_of_def sample_fb_def user_addr_def)
    then have "256 * y + 4 * x + k < 0x1000" by linarith
    moreover have "unat (0x1000 + of_nat n :: u64) < 0x2000" if "n < 0x1000" for n :: nat
      using that by (simp add: unat_word_ariths unat_of_nat)
    ultimately show ?thesis unfolding b by blast
  qed
  moreover have "0x8000 \<le> unat b" if "b \<in> addressed 0x8000 128" for b
    using that by (auto simp: addressed_def unat_word_ariths unat_of_nat)
  ultimately show ?thesis by fastforce
qed


text \<open>A buffer given to the Python code, by a grab that the driver refused.\<close>

lemma sample_given:
  "\<exists>c k mem. card_reach sample_client (c, k, mem) \<and> py_kept c = [0]"
proof -
  let ?dead = "damaged_device\<lparr>painter := None\<rparr>" and ?env = sample_client
  have clean: "painter sample_device = Some sample_painter" "\<not> was_update_requested sample_painter"
      "num_dirts sample_painter = 0"
    by (simp_all add: sample_device_def sample_painter_def fresh_painter_def)
  obtain c bs where c: "card_reach ?env (c, ?dead, \<lambda>_. 0)" "buffer_requested c = Some 0"
      "py_kept c = []" "holds (frameBuffers (ctx c)) bs" "first_buffer \<in> set bs" "unat (numerator c) = 2"
    using sample_told [OF clean] by blast
  have ok: "card_ok c" "evdiHandle c" using card_reach_ok [OF sample_client_ok c(1)] by simp_all
  obtain bs' where bs': "holds (frameBuffers (ctx c)) bs'" "distinct (map eb_id bs')"
    using ok by (auto simp: card_ok_def registered_def)
  have "bs' = bs" by (rule holds_unique [OF bs'(1) c(4)])
  moreover have b2u: "bufferToUpdate (ctx c) = 0" using ok(1) c(2) by (simp add: card_ok_def)
  ultimately have find: "List.find (\<lambda>x. eb_id x = bufferToUpdate (ctx c)) bs = Some first_buffer"
    using find_registered [OF c(5)] bs'(2) first_buffer_fields(1) by simp
  let ?mem = "snd (user_store (\<lambda>_. 0) 0x8000 (replicate 128 0))" and ?cmd = "grab_command 0x8000 first_buffer"
  have e: "ce_request ?env = driver_request" "ce_serve ?env = evdi_painter_grabpix_ioctl sample_env"
      "ce_stack ?env = 0x8000" "ce_acquire ?env = Some (\<lambda>b ks. b # ks)"
    by (simp_all add: sample_client_def)
  have "drm_ioctl (\<lambda>(cmd, k, m). evdi_painter_grabpix_ioctl sample_env cmd k m) (?cmd, ?dead, ?mem) =
      Some (Ret (Inl ENODEV, ?cmd, ?dead, ?mem))"
    by (intro drm_ioctl_once) (simp_all add: evdi_painter_grabpix_ioctl_def grab_command_def LIB_MAX_DIRTS_def)
  then have g: "evdi_grab_pixels (ce_serve ?env) (ce_stack ?env) (ctx c) ?dead (\<lambda>_. 0) = Some (Ret ([], 0, ?dead, ?mem))"
    unfolding e(2,3) grab_pixels_unfold [OF c(4) find] by simp
  obtain c1 where c1: "grab_requested ?env (c, ?dead, \<lambda>_. 0) = Some (Ret (c1, ?dead, ?mem))" "evdiHandle c1"
      "buffer_requested c1 = None" "py_kept c1 = [0]"
    using grab_requested_Ret [OF ok sample_client_ok c(2) g] c(3) e(4) by auto
  have d: "driver_request ?dead = Ret (Inl ENODEV, ?dead)"
    by (simp add: driver_request_def evdi_painter_request_update_ioctl_def)
  have "drm_ioctl driver_request ?dead = Some (Ret (Inl ENODEV, ?dead))"
    by (intro drm_ioctl_once d) simp_all
  then have r: "evdi_request_update driver_request b h ?dead = Some (Ret (False, h\<lparr>bufferToUpdate := b\<rparr>, ?dead))" for b h
    by (simp add: evdi_request_update_def do_ioctl_def)
  have "\<exists>c2. request_update ?env (c1, ?dead, ?mem) = Some (Ret (c2, ?dead, ?mem)) \<and> py_kept c2 = [0]"
  proof (cases "free_buffer c1")
    case None
    then show ?thesis using c1(3,4) by (subst request_update.simps) simp
  next
    case (Some b)
    then show ?thesis using c1(2-4) r [of b "ctx c1"] e(1) by (subst request_update.simps) simp
  qed
  then obtain c2 where c2: "request_update ?env (c1, ?dead, ?mem) = Some (Ret (c2, ?dead, ?mem))" "py_kept c2 = [0]"
    by blast
  have "card_upcall ?env (UpdateReadyHandler 0) (c, ?dead, \<lambda>_. 0) = Some (Ret (c2, ?dead, ?mem))"
    using c(2) c1(1) c2(1) by (simp add: card_upcall_def default_update_ready_handler_def grab_pixels_def)
  then have "card_reach ?env (c2, ?dead, ?mem)"
    by (rule card_reach.upcall [OF c(1), rotated]) (simp add: c(6))
  then show ?thesis using c2(2) by blast
qed

theorem buffer_outlives_card_witness:
  "\<exists>c c'. py_kept c = [0] \<and> close_card c = Some (Ret c') \<and> python_keeps [] c' = Some Oops"
proof -
  obtain c k mem where c: "card_reach sample_client (c, k, mem)" "py_kept c = [0]" using sample_given by blast
  then show ?thesis using buffer_outlives_card [OF sample_client_ok c(1), of 0 "[]"] by auto
qed

end
