(* ===== verification/Evdi_Platform.thy ===== *)
theory Evdi_Platform
  imports Evdi_Painter
begin

text \<open>
  The registry of cards, \<open>module/evdi_platform_drv.c\<close> and \<open>module/evdi_platform_dev.c\<close>: sixteen slots
  of platform devices, each with a card, which are added on request, lent to USB devices and taken back
  when those go away.
\<close>

section \<open>Platform devices\<close>

text \<open>
  The data of a bound device: the card's private data (\<open>None\<close> for a NULL pointer) and the USB device it
  is linked with, a number. A device whose probe failed has none. \<open>pd_parent\<close> is the parent the device
  was registered with, \<open>None\<close> for the platform bus.
\<close>

record evdi_platform_device_data =
  pdd_evdi :: "evdi_device option"
  pdd_parent :: "nat option"
  symlinked :: bool

record platform_device =
  drvdata :: "evdi_platform_device_data option"
  pd_parent :: "nat option"

text \<open>What the kernel answers while a device is made.\<close>

record new_device =
  nd_registered :: bool
  nd_kzalloc :: bool
  nd_drm :: "evdi_device result"

definition evdi_platform_device_probe ::
  "new_device \<Rightarrow> unit result \<times> evdi_platform_device_data option" where
  "evdi_platform_device_probe env =
     (if \<not> nd_kzalloc env then (Inl ENOMEM, None)
      else case nd_drm env of
          Inl e \<Rightarrow> (Inl e, None)
        | Inr evdi \<Rightarrow> (Inr (), Some \<lparr>pdd_evdi = Some evdi, pdd_parent = None, symlinked = False\<rparr>))"

text \<open>
  Registering a device binds it, and goes well also when the probe fails. When registering fails, the
  code works on with an error pointer.
\<close>

definition evdi_platform_dev_create :: "new_device \<Rightarrow> nat option \<Rightarrow> platform_device outcome" where
  "evdi_platform_dev_create env parent =
     (if \<not> nd_registered env then Oops
      else Ret \<lparr>drvdata = snd (evdi_platform_device_probe env), pd_parent = parent\<rparr>)"

definition evdi_platform_device_is_free :: "platform_device \<Rightarrow> bool outcome" where
  "evdi_platform_device_is_free pdev =
     (case drvdata pdev of
        None \<Rightarrow> Oops
      | Some d \<Rightarrow>
          Ret (case pdd_evdi d of
                 None \<Rightarrow> False
               | Some evdi \<Rightarrow> \<not> evdi_painter_is_connected (painter evdi) \<and> \<not> symlinked d))"

definition evdi_platform_device_link ::
  "bool \<Rightarrow> nat option \<Rightarrow> platform_device \<Rightarrow> platform_device outcome" where
  "evdi_platform_device_link link_ok parent pdev =
     (case parent of
        None \<Rightarrow> Ret pdev
      | Some usb \<Rightarrow>
          (case evdi_platform_device_is_free pdev of
             Oops \<Rightarrow> Oops
           | Ret False \<Rightarrow> Ret pdev
           | Ret True \<Rightarrow>
               if \<not> link_ok then Ret pdev
               else Ret (pdev\<lparr>drvdata := map_option (\<lambda>d. d\<lparr>symlinked := True, pdd_parent := Some usb\<rparr>)
                                 (drvdata pdev)\<rparr>)))"

definition evdi_platform_device_unlink_if_linked_with ::
  "nat \<Rightarrow> platform_device \<Rightarrow> platform_device outcome" where
  "evdi_platform_device_unlink_if_linked_with usb pdev =
     (case drvdata pdev of
        None \<Rightarrow> Oops
      | Some d \<Rightarrow>
          if pdd_parent d = Some usb
          then Ret (pdev\<lparr>drvdata := Some (d\<lparr>symlinked := False, pdd_parent := None\<rparr>)\<rparr>)
          else Ret pdev)"

section \<open>The registry\<close>

definition EVDI_DEVICE_COUNT_MAX :: nat where
  "EVDI_DEVICE_COUNT_MAX = 16"

record evdi_platform_drv_context =
  dev_count :: u32
  devices :: "platform_device option list"

text \<open>The loops over the slots return the index of the first slot that fits.\<close>

fun free_idx_loop :: "nat \<Rightarrow> platform_device option list \<Rightarrow> nat option" where
  "free_idx_loop i [] = None"
| "free_idx_loop i (d # ds) = (if d = None then Some i else free_idx_loop (i + 1) ds)"

definition evdi_platform_drv_get_free_idx :: "evdi_platform_drv_context \<Rightarrow> nat option" where
  "evdi_platform_drv_get_free_idx ctx = free_idx_loop 0 (devices ctx)"

fun free_device_loop :: "nat \<Rightarrow> platform_device option list \<Rightarrow> nat option outcome" where
  "free_device_loop i [] = Ret None"
| "free_device_loop i (d # ds) =
     (case d of
        None \<Rightarrow> free_device_loop (i + 1) ds
      | Some pdev \<Rightarrow>
          (case evdi_platform_device_is_free pdev of
             Oops \<Rightarrow> Oops
           | Ret True \<Rightarrow> Ret (Some i)
           | Ret False \<Rightarrow> free_device_loop (i + 1) ds))"

definition evdi_platform_drv_get_free_device :: "evdi_platform_drv_context \<Rightarrow> nat option outcome" where
  "evdi_platform_drv_get_free_device ctx = free_device_loop 0 (devices ctx)"

text \<open>The result is the slot of the new device.\<close>

definition evdi_platform_drv_create_new_device ::
  "new_device \<Rightarrow> evdi_platform_drv_context \<Rightarrow> (nat result \<times> evdi_platform_drv_context) outcome" where
  "evdi_platform_drv_create_new_device env ctx =
     (case evdi_platform_drv_get_free_idx ctx of
        None \<Rightarrow> Ret (Inl EINVAL, ctx)
      | Some i \<Rightarrow>
          if of_nat EVDI_DEVICE_COUNT_MAX \<le> dev_count ctx then Ret (Inl EINVAL, ctx)
          else case evdi_platform_dev_create env None of
              Oops \<Rightarrow> Oops
            | Ret pdev \<Rightarrow>
                Ret (Inr i, ctx\<lparr>devices := (devices ctx)[i := Some pdev], dev_count := dev_count ctx + 1\<rparr>))"

definition link_slot ::
  "bool \<Rightarrow> nat option \<Rightarrow> nat \<Rightarrow> evdi_platform_drv_context \<Rightarrow>
     (unit result \<times> evdi_platform_drv_context) outcome" where
  "link_slot link_ok parent i ctx =
     (case devices ctx ! i of
        None \<Rightarrow> Ret (Inr (), ctx)
      | Some pdev \<Rightarrow>
          (case evdi_platform_device_link link_ok parent pdev of
             Oops \<Rightarrow> Oops
           | Ret pdev' \<Rightarrow> Ret (Inr (), ctx\<lparr>devices := (devices ctx)[i := Some pdev']\<rparr>)))"

definition evdi_platform_device_add ::
  "new_device \<Rightarrow> bool \<Rightarrow> nat option \<Rightarrow> evdi_platform_drv_context \<Rightarrow>
     (unit result \<times> evdi_platform_drv_context) outcome" where
  "evdi_platform_device_add env link_ok parent ctx =
     (case (if parent = None then Ret None else evdi_platform_drv_get_free_device ctx) of
        Oops \<Rightarrow> Oops
      | Ret (Some i) \<Rightarrow> link_slot link_ok parent i ctx
      | Ret None \<Rightarrow>
          (case evdi_platform_drv_create_new_device env ctx of
             Oops \<Rightarrow> Oops
           | Ret (Inl _, ctx1) \<Rightarrow> Ret (Inl EINVAL, ctx1)
           | Ret (Inr i, ctx1) \<Rightarrow> link_slot link_ok parent i ctx1))"

text \<open>The loop stops at the first device that cannot be added; its error is not passed on.\<close>

fun add_devices_loop ::
  "(nat \<Rightarrow> new_device) \<Rightarrow> nat \<Rightarrow> evdi_platform_drv_context \<Rightarrow> evdi_platform_drv_context outcome" where
  "add_devices_loop envs 0 ctx = Ret ctx"
| "add_devices_loop envs (Suc val) ctx =
     (case evdi_platform_device_add (envs val) True None ctx of
        Oops \<Rightarrow> Oops
      | Ret (Inl _, ctx1) \<Rightarrow> Ret ctx1
      | Ret (Inr _, ctx1) \<Rightarrow> add_devices_loop envs val ctx1)"

definition evdi_platform_add_devices ::
  "(nat \<Rightarrow> new_device) \<Rightarrow> u32 \<Rightarrow> evdi_platform_drv_context \<Rightarrow>
     (unit result \<times> evdi_platform_drv_context) outcome" where
  "evdi_platform_add_devices envs val ctx =
     (if val = 0 then Ret (Inr (), ctx)
      else if of_nat EVDI_DEVICE_COUNT_MAX - dev_count ctx < val then Ret (Inl EINVAL, ctx)
      else case add_devices_loop envs (unat val) ctx of
          Oops \<Rightarrow> Oops
        | Ret ctx1 \<Rightarrow> Ret (Inr (), ctx1))"

definition evdi_platform_remove_all_devices :: "evdi_platform_drv_context \<Rightarrow> evdi_platform_drv_context" where
  "evdi_platform_remove_all_devices ctx =
     ctx\<lparr>devices := map (\<lambda>_. None) (devices ctx), dev_count := 0\<rparr>"

text \<open>A USB device is removed; the number of slots emptied goes with the slots.\<close>

fun usb_loop ::
  "nat \<Rightarrow> platform_device option list \<Rightarrow> (platform_device option list \<times> nat) outcome" where
  "usb_loop usb [] = Ret ([], 0)"
| "usb_loop usb (d # ds) =
     (case d of
        None \<Rightarrow>
          (case usb_loop usb ds of Oops \<Rightarrow> Oops | Ret (ds', n) \<Rightarrow> Ret (None # ds', n))
      | Some pdev \<Rightarrow>
          (case evdi_platform_device_unlink_if_linked_with usb pdev of
             Oops \<Rightarrow> Oops
           | Ret pdev' \<Rightarrow>
               (case usb_loop usb ds of
                  Oops \<Rightarrow> Oops
                | Ret (ds', n) \<Rightarrow>
                    if pd_parent pdev' = Some usb then Ret (None # ds', n + 1)
                    else Ret (Some pdev' # ds', n))))"

text \<open>\<open>deleted\<close> says that the notification is about a device going away.\<close>

definition evdi_platform_drv_usb ::
  "bool \<Rightarrow> nat option \<Rightarrow> evdi_platform_drv_context \<Rightarrow> evdi_platform_drv_context outcome" where
  "evdi_platform_drv_usb deleted usb ctx =
     (case usb of
        None \<Rightarrow> Ret ctx
      | Some u \<Rightarrow>
          if \<not> deleted then Ret ctx
          else case usb_loop u (devices ctx) of
              Oops \<Rightarrow> Oops
            | Ret (ds, n) \<Rightarrow> Ret (ctx\<lparr>devices := ds, dev_count := dev_count ctx - of_nat n\<rparr>))"

definition empty_registry :: evdi_platform_drv_context where
  "empty_registry = \<lparr>dev_count = 0, devices = replicate EVDI_DEVICE_COUNT_MAX None\<rparr>"

text \<open>Loading the module adds the cards asked for by its parameter; unloading removes all.\<close>

definition evdi_init ::
  "unit result \<Rightarrow> (nat \<Rightarrow> new_device) \<Rightarrow> u32 \<Rightarrow> (unit result \<times> evdi_platform_drv_context) outcome" where
  "evdi_init registered envs initial_device_count =
     (case registered of
        Inl e \<Rightarrow> Ret (Inl e, empty_registry)
      | Inr _ \<Rightarrow>
          if initial_device_count \<noteq> 0
          then evdi_platform_add_devices envs initial_device_count empty_registry
          else Ret (Inr (), empty_registry))"

definition evdi_exit :: "evdi_platform_drv_context \<Rightarrow> evdi_platform_drv_context" where
  "evdi_exit ctx = evdi_platform_remove_all_devices ctx"

section \<open>The registry as a state machine\<close>

text \<open>
  What can happen to the registry: a write to \<open>add\<close> with a number or a USB device, a notification of
  the USB core, a write to \<open>remove_all\<close>, and anything a client does with the card of a slot.
\<close>

datatype registry_op =
    AddDevices "nat \<Rightarrow> new_device" u32
  | AddUsb new_device bool nat
  | UsbNotify bool "nat option"
  | RemoveAll
  | CardChanges nat "evdi_device option"

definition change_card :: "evdi_device option \<Rightarrow> platform_device \<Rightarrow> platform_device outcome" where
  "change_card evdi pdev = Ret (pdev\<lparr>drvdata := map_option (\<lambda>d. d\<lparr>pdd_evdi := evdi\<rparr>) (drvdata pdev)\<rparr>)"

definition at_slot ::
  "(platform_device \<Rightarrow> platform_device outcome) \<Rightarrow> nat \<Rightarrow> evdi_platform_drv_context \<Rightarrow>
     evdi_platform_drv_context outcome" where
  "at_slot f i ctx =
     (if i < length (devices ctx)
      then case devices ctx ! i of
          None \<Rightarrow> Ret ctx
        | Some pdev \<Rightarrow>
            (case f pdev of
               Oops \<Rightarrow> Oops
             | Ret pdev' \<Rightarrow> Ret (ctx\<lparr>devices := (devices ctx)[i := Some pdev']\<rparr>))
      else Ret ctx)"

definition registry_step ::
  "registry_op \<Rightarrow> evdi_platform_drv_context \<Rightarrow> evdi_platform_drv_context outcome" where
  "registry_step opn ctx =
     (case opn of
        AddDevices envs val \<Rightarrow> map_outcome snd (evdi_platform_add_devices envs val ctx)
      | AddUsb env link_ok usb \<Rightarrow> map_outcome snd (evdi_platform_device_add env link_ok (Some usb) ctx)
      | UsbNotify deleted usb \<Rightarrow> evdi_platform_drv_usb deleted usb ctx
      | RemoveAll \<Rightarrow> Ret (evdi_platform_remove_all_devices ctx)
      | CardChanges i evdi \<Rightarrow> at_slot (change_card evdi) i ctx)"

inductive registry_reachable :: "evdi_platform_drv_context \<Rightarrow> bool" where
  start: "registry_reachable empty_registry"
| step: "registry_reachable ctx \<Longrightarrow> registry_step opn ctx = Ret ctx' \<Longrightarrow> registry_reachable ctx'"

section \<open>Its invariant\<close>

definition occupied :: "platform_device option list \<Rightarrow> nat" where
  "occupied ds = length (filter (\<lambda>d. d \<noteq> None) ds)"

definition slot_ok :: "platform_device \<Rightarrow> bool" where
  "slot_ok pdev \<longleftrightarrow> pd_parent pdev = None \<and>
     (\<forall>d. drvdata pdev = Some d \<longrightarrow> (symlinked d \<longleftrightarrow> pdd_parent d \<noteq> None))"

definition registry_ok :: "evdi_platform_drv_context \<Rightarrow> bool" where
  "registry_ok ctx \<longleftrightarrow> length (devices ctx) = EVDI_DEVICE_COUNT_MAX \<and>
     unat (dev_count ctx) = occupied (devices ctx) \<and>
     (\<forall>pdev. Some pdev \<in> set (devices ctx) \<longrightarrow> slot_ok pdev)"

lemma occupied_simps [simp]: "occupied [] = 0" "occupied (None # ds) = occupied ds"
  "occupied (Some pdev # ds) = Suc (occupied ds)"
  by (simp_all add: occupied_def)

lemma occupied_le: "occupied ds \<le> length ds"
  by (simp add: occupied_def)

lemma occupied_update:
  "i < length ds \<Longrightarrow> occupied (ds[i := Some pdev]) = occupied ds + of_bool (ds ! i = None)"
proof (induction ds arbitrary: i)
  case (Cons d ds)
  show ?case using Cons.IH Cons.prems by (cases i; cases d) simp_all
qed simp

lemma free_idx_loop_Some:
  "free_idx_loop i ds = Some j \<Longrightarrow> i \<le> j \<and> j - i < length ds \<and> ds ! (j - i) = None"
proof (induction ds arbitrary: i)
  case (Cons d ds)
  then show ?case by (force simp: nth_Cons' split: if_splits)
qed simp

lemma free_idx_loop_None: "free_idx_loop i ds = None \<Longrightarrow> None \<notin> set ds"
  by (induction ds arbitrary: i) (auto split: if_splits)

lemma full_occupied: "None \<notin> set ds \<Longrightarrow> occupied ds = length ds"
proof (induction ds)
  case (Cons d ds)
  then show ?case by (cases d) simp_all
qed simp

text \<open>Every operation on the device of one slot keeps the registry's invariant if it keeps the slot's.\<close>

lemma map_outcome_Ret: "map_outcome f x = Ret y \<longleftrightarrow> (\<exists>z. x = Ret z \<and> y = f z)"
  by (cases x) auto

locale slot_operation =
  fixes f :: "platform_device \<Rightarrow> platform_device outcome"
  assumes keeps_slot: "f pdev = Ret pdev' \<Longrightarrow> slot_ok pdev \<Longrightarrow> slot_ok pdev'"
begin

lemma at_slot_ok:
  assumes "registry_ok ctx" and "at_slot f i ctx = Ret ctx'"
  shows "registry_ok ctx'"
proof (cases "i < length (devices ctx) \<and> devices ctx ! i \<noteq> None")
  case True
  then obtain pdev where p: "devices ctx ! i = Some pdev" by blast
  then obtain pdev' where f: "f pdev = Ret pdev'" and c: "ctx' = ctx\<lparr>devices := (devices ctx)[i := Some pdev']\<rparr>"
    using assms(2) True by (auto simp: at_slot_def split: outcome.splits)
  have "slot_ok pdev"
    using assms(1) True p nth_mem [of i "devices ctx"] by (auto simp: registry_ok_def)
  then have "slot_ok pdev'" by (rule keeps_slot [OF f])
  then show ?thesis
    using assms(1) True set_update_subset_insert [of "devices ctx" i "Some pdev'"]
    by (auto simp: c registry_ok_def occupied_update)
next
  case False
  then show ?thesis using assms by (auto simp: at_slot_def split: if_splits)
qed

end

interpretation link: slot_operation "evdi_platform_device_link link_ok parent" for link_ok parent
  by unfold_locales
    (auto simp: evdi_platform_device_link_def evdi_platform_device_is_free_def slot_ok_def
      split: option.splits outcome.splits bool.splits if_splits)

interpretation unlink: slot_operation "evdi_platform_device_unlink_if_linked_with usb" for usb
  by unfold_locales
    (auto simp: evdi_platform_device_unlink_if_linked_with_def slot_ok_def split: option.splits if_splits)

interpretation change: slot_operation "change_card evdi" for evdi
  by unfold_locales (auto simp: change_card_def slot_ok_def)

lemma link_slot_at_slot:
  "i < length (devices ctx) \<Longrightarrow>
     link_slot link_ok parent i ctx = map_outcome (Pair (Inr ())) (at_slot (evdi_platform_device_link link_ok parent) i ctx)"
  by (simp add: link_slot_def at_slot_def split: option.splits outcome.splits)

lemma create_new_device_ok:
  assumes "registry_ok ctx" and "evdi_platform_drv_create_new_device env ctx = Ret (r, ctx')"
  shows "registry_ok ctx' \<and> (case r of
      Inl e \<Rightarrow> e = EINVAL \<and> ctx' = ctx \<and> occupied (devices ctx) = EVDI_DEVICE_COUNT_MAX
    | Inr i \<Rightarrow> i < EVDI_DEVICE_COUNT_MAX \<and> devices ctx ! i = None \<and>
        devices ctx' = (devices ctx)[i := Some \<lparr>drvdata = snd (evdi_platform_device_probe env), pd_parent = None\<rparr>])"
proof (cases "evdi_platform_drv_get_free_idx ctx")
  case None
  then have "occupied (devices ctx) = length (devices ctx)"
    by (intro full_occupied free_idx_loop_None) (simp add: evdi_platform_drv_get_free_idx_def)
  then show ?thesis using assms None
    by (auto simp: evdi_platform_drv_create_new_device_def registry_ok_def)
next
  case (Some i)
  have i: "i < length (devices ctx)" "devices ctx ! i = None"
    using free_idx_loop_Some [of 0 "devices ctx" i] Some by (simp_all add: evdi_platform_drv_get_free_idx_def)
  have n: "unat (dev_count ctx) = occupied (devices ctx)" "length (devices ctx) = EVDI_DEVICE_COUNT_MAX"
    using assms(1) by (simp_all add: registry_ok_def)
  have le: "of_nat EVDI_DEVICE_COUNT_MAX \<le> dev_count ctx \<longleftrightarrow> occupied (devices ctx) = EVDI_DEVICE_COUNT_MAX"
    using n occupied_le [of "devices ctx"] by (auto simp: word_le_nat_alt EVDI_DEVICE_COUNT_MAX_def)
  show ?thesis
  proof (cases "of_nat EVDI_DEVICE_COUNT_MAX \<le> dev_count ctx")
    case True
    then show ?thesis using assms Some le by (auto simp: evdi_platform_drv_create_new_device_def)
  next
    case False
    let ?new = "\<lparr>drvdata = snd (evdi_platform_device_probe env), pd_parent = None\<rparr>"
    have c: "r = Inr i" "ctx' = ctx\<lparr>devices := (devices ctx)[i := Some ?new], dev_count := dev_count ctx + 1\<rparr>"
      using assms(2) Some False
      by (auto simp: evdi_platform_drv_create_new_device_def evdi_platform_dev_create_def split: if_splits)
    have "occupied (devices ctx) < 16" using False le n occupied_le [of "devices ctx"]
      by (simp add: EVDI_DEVICE_COUNT_MAX_def)
    then have "unat (dev_count ctx + 1) = occupied (devices ctx) + 1"
      using n by (subst unat_add_exact) simp_all
    moreover have "slot_ok ?new"
      by (auto simp: slot_ok_def evdi_platform_device_probe_def split: if_splits sum.splits)
    ultimately have "registry_ok ctx'"
      using assms(1) i set_update_subset_insert [of "devices ctx" i "Some ?new"]
      unfolding c(2) by (auto simp: registry_ok_def occupied_update)
    then show ?thesis using c i n by simp
  qed
qed

lemma free_device_loop_Some:
  "free_device_loop i ds = Ret (Some j) \<Longrightarrow>
     i \<le> j \<and> j - i < length ds \<and>
     (\<exists>pdev. ds ! (j - i) = Some pdev \<and> evdi_platform_device_is_free pdev = Ret True)"
proof (induction ds arbitrary: i)
  case (Cons d ds)
  then show ?case by (force simp: nth_Cons' split: option.splits outcome.splits bool.splits)
qed simp

lemma free_device_loop_None:
  "free_device_loop i ds = Ret None \<Longrightarrow> Some pdev \<in> set ds \<Longrightarrow>
     evdi_platform_device_is_free pdev = Ret False"
  by (induction ds arbitrary: i) (auto split: option.splits outcome.splits bool.splits)

lemma device_add_ok:
  assumes "registry_ok ctx" and "evdi_platform_device_add env link_ok parent ctx = Ret (r, ctx')"
  shows "registry_ok ctx'"
proof -
  have slot: "registry_ok ctx2" if "link_slot link_ok parent i ctx1 = Ret (r', ctx2)" "registry_ok ctx1"
      "i < length (devices ctx1)" for i ctx1 r' ctx2
    using that link.at_slot_ok [of ctx1 link_ok parent i]
    by (auto simp: link_slot_at_slot map_outcome_Ret)
  have new: "registry_ok ctx2" if "evdi_platform_drv_create_new_device env ctx = Ret (Inr i, ctx1)"
      "link_slot link_ok parent i ctx1 = Ret (r', ctx2)" for i ctx1 r' ctx2
  proof (rule slot [OF that(2)])
    show "registry_ok ctx1" "i < length (devices ctx1)"
      using create_new_device_ok [OF assms(1) that(1)] by (auto simp: registry_ok_def)
  qed
  have create: ?thesis if "(case evdi_platform_drv_create_new_device env ctx of
        Oops \<Rightarrow> Oops | Ret (Inl _, ctx1) \<Rightarrow> Ret (Inl EINVAL, ctx1)
      | Ret (Inr i, ctx1) \<Rightarrow> link_slot link_ok parent i ctx1) = Ret (r, ctx')"
  proof (cases "evdi_platform_drv_create_new_device env ctx")
    case (Ret x)
    obtain q ctx1 where x: "x = (q, ctx1)" by (cases x)
    then show ?thesis
      using that Ret new [of _ ctx1 r ctx'] create_new_device_ok [OF assms(1) Ret [unfolded x]]
      by (cases q) auto
  qed (use that in simp)
  consider "(if parent = None then Ret None else evdi_platform_drv_get_free_device ctx) = Oops"
    | "(if parent = None then Ret None else evdi_platform_drv_get_free_device ctx) = Ret None"
    | i where "(if parent = None then Ret None else evdi_platform_drv_get_free_device ctx) = Ret (Some i)"
    by (metis not_None_eq outcome.exhaust)
  then show ?thesis
  proof cases
    case 1
    then show ?thesis using assms(2) by (simp only: evdi_platform_device_add_def outcome.case outcome.distinct)
  next
    case 2
    then show ?thesis using assms(2) create by (simp only: evdi_platform_device_add_def outcome.case option.case)
  next
    case (3 i)
    have l: "link_slot link_ok parent i ctx = Ret (r, ctx')"
      using assms(2) 3 by (simp only: evdi_platform_device_add_def outcome.case option.case)
    have "free_device_loop 0 (devices ctx) = Ret (Some i)"
      using 3 by (auto simp: evdi_platform_drv_get_free_device_def split: if_splits)
    then have "i < length (devices ctx)" using free_device_loop_Some by fastforce
    then show ?thesis by (rule slot [OF l assms(1)])
  qed
qed

lemma add_devices_loop_ok:
  "registry_ok ctx \<Longrightarrow> add_devices_loop envs n ctx = Ret ctx' \<Longrightarrow> registry_ok ctx'"
proof (induction n arbitrary: ctx)
  case (Suc n)
  then show ?case using device_add_ok [of ctx "envs n" True None]
    by (auto split: outcome.splits sum.splits prod.splits)
qed simp

definition unlinked :: "nat \<Rightarrow> platform_device option \<Rightarrow> platform_device option \<Rightarrow> bool" where
  "unlinked usb d d' \<longleftrightarrow>
     (case d of None \<Rightarrow> d' = None
      | Some pdev \<Rightarrow> \<exists>pdev'. d' = Some pdev' \<and> evdi_platform_device_unlink_if_linked_with usb pdev = Ret pdev')"

lemma usb_loop_slots:
  assumes "\<forall>pdev. Some pdev \<in> set ds \<longrightarrow> slot_ok pdev" and "usb_loop usb ds = Ret (ds', n)"
  shows "n = 0 \<and> occupied ds' = occupied ds \<and> length ds' = length ds \<and>
    (\<forall>pdev. Some pdev \<in> set ds' \<longrightarrow> slot_ok pdev) \<and>
    list_all2 (unlinked usb) ds ds'"
  using assms
proof (induction ds arbitrary: ds' n)
  case (Cons d ds)
  show ?case
  proof (cases d)
    case None
    obtain ds1 m where u: "usb_loop usb ds = Ret (ds1, m)"
      using Cons.prems(2) None by (auto split: outcome.splits)
    then have c: "ds' = None # ds1" "n = m" using Cons.prems(2) None by auto
    show ?thesis using Cons.IH [OF _ u] Cons.prems(1) None unfolding c by (auto simp: unlinked_def)
  next
    case (Some pdev)
    obtain pdev' ds1 m where u: "evdi_platform_device_unlink_if_linked_with usb pdev = Ret pdev'"
        "usb_loop usb ds = Ret (ds1, m)"
      using Cons.prems(2) Some by (auto split: outcome.splits)
    have s: "slot_ok pdev'" using unlink.keeps_slot [OF u(1)] Cons.prems(1) Some by simp
    then have c: "ds' = Some pdev' # ds1" "n = m"
      using Cons.prems(2) Some u by (auto simp: slot_ok_def)
    show ?thesis using Cons.IH [OF _ u(2)] Cons.prems(1) s u(1) Some unfolding c
      by (auto simp: unlinked_def)
  qed
qed simp

lemma registry_step_ok:
  assumes "registry_ok ctx" and "registry_step opn ctx = Ret ctx'"
  shows "registry_ok ctx'"
proof (cases opn)
  case (AddDevices envs val)
  then show ?thesis
    using assms add_devices_loop_ok [OF assms(1), of envs "unat val"]
    by (auto simp: registry_step_def evdi_platform_add_devices_def map_outcome_Ret
        split: if_splits outcome.splits)
next
  case (AddUsb env link_ok usb)
  then show ?thesis using assms device_add_ok [OF assms(1), of env link_ok "Some usb"]
    by (auto simp: registry_step_def map_outcome_Ret)
next
  case (UsbNotify deleted usb)
  then show ?thesis
    using assms usb_loop_slots [of "devices ctx" "the usb"]
    by (auto simp: registry_step_def evdi_platform_drv_usb_def registry_ok_def
        split: option.splits if_splits outcome.splits)
next
  case RemoveAll
  have "occupied (map (\<lambda>_. None) ds) = 0" for ds by (induction ds) simp_all
  then show ?thesis using assms RemoveAll
    by (auto simp: registry_step_def evdi_platform_remove_all_devices_def registry_ok_def)
next
  case (CardChanges i evdi)
  then show ?thesis using assms change.at_slot_ok [OF assms(1)] by (simp add: registry_step_def)
qed

section \<open>Lending a card\<close>

definition all_bound :: "evdi_platform_drv_context \<Rightarrow> bool" where
  "all_bound ctx \<longleftrightarrow> (\<forall>pdev. Some pdev \<in> set (devices ctx) \<longrightarrow> drvdata pdev \<noteq> None)"

definition lent_to :: "nat \<Rightarrow> platform_device \<Rightarrow> platform_device" where
  "lent_to usb pdev =
     pdev\<lparr>drvdata := map_option (\<lambda>d. d\<lparr>symlinked := True, pdd_parent := Some usb\<rparr>) (drvdata pdev)\<rparr>"

lemma link_free:
  "evdi_platform_device_is_free pdev = Ret True \<Longrightarrow>
     evdi_platform_device_link True (Some usb) pdev = Ret (lent_to usb pdev)"
  by (simp add: evdi_platform_device_link_def lent_to_def)

lemma free_device_loop_bound:
  "\<forall>pdev. Some pdev \<in> set ds \<longrightarrow> drvdata pdev \<noteq> None \<Longrightarrow> free_device_loop i ds \<noteq> Oops"
proof (induction ds arbitrary: i)
  case (Cons d ds)
  show ?case
  proof (cases d)
    case (Some pdev)
    then obtain b where "evdi_platform_device_is_free pdev = Ret b"
      using Cons.prems by (auto simp: evdi_platform_device_is_free_def)
    then show ?thesis using Cons Some by (cases b) auto
  qed (use Cons in auto)
qed simp

text \<open>A new card, with which everything went well.\<close>

definition good_card :: "new_device \<Rightarrow> bool" where
  "good_card env \<longleftrightarrow> nd_registered env \<and> nd_kzalloc env \<and>
     (\<exists>evdi. nd_drm env = Inr evdi \<and> \<not> evdi_painter_is_connected (painter evdi))"

definition fresh_device :: "new_device \<Rightarrow> platform_device" where
  "fresh_device env = \<lparr>drvdata = snd (evdi_platform_device_probe env), pd_parent = None\<rparr>"

lemma fresh_device_free: "good_card env \<Longrightarrow> evdi_platform_device_is_free (fresh_device env) = Ret True"
  by (auto simp: good_card_def fresh_device_def evdi_platform_device_probe_def evdi_platform_device_is_free_def)

lemma create_new_slot_ok: "slot_ok (fresh_device env)"
  by (auto simp: slot_ok_def fresh_device_def evdi_platform_device_probe_def split: if_splits sum.splits)

text \<open>The card lent is the first free one, or a new one in the first empty slot when none is free.\<close>

definition lend_from :: "new_device \<Rightarrow> nat \<Rightarrow> evdi_platform_drv_context \<Rightarrow> platform_device \<Rightarrow> bool" where
  "lend_from env i ctx pdev \<longleftrightarrow>
     (case devices ctx ! i of
        Some pdev' \<Rightarrow> pdev = pdev' \<and> evdi_platform_device_is_free pdev = Ret True
      | None \<Rightarrow> pdev = fresh_device env \<and>
          (\<forall>q. Some q \<in> set (devices ctx) \<longrightarrow> evdi_platform_device_is_free q = Ret False))"

lemma device_add_lends:
  assumes "registry_ok ctx" and "all_bound ctx" and "good_card env"
  shows "\<exists>r ctx'. evdi_platform_device_add env True (Some usb) ctx = Ret (r, ctx') \<and>
    (case r of
       Inl e \<Rightarrow> e = EINVAL \<and> ctx' = ctx \<and> occupied (devices ctx) = EVDI_DEVICE_COUNT_MAX \<and>
         (\<forall>q. Some q \<in> set (devices ctx) \<longrightarrow> evdi_platform_device_is_free q = Ret False)
     | Inr _ \<Rightarrow> \<exists>i pdev. i < EVDI_DEVICE_COUNT_MAX \<and> lend_from env i ctx pdev \<and>
         devices ctx' = (devices ctx)[i := Some (lent_to usb pdev)])"
proof -
  have len: "length (devices ctx) = EVDI_DEVICE_COUNT_MAX" using assms(1) by (simp add: registry_ok_def)
  have "free_device_loop 0 (devices ctx) \<noteq> Oops"
    by (rule free_device_loop_bound) (use assms(2) in \<open>simp add: all_bound_def\<close>)
  then obtain f where f: "evdi_platform_drv_get_free_device ctx = Ret f"
    by (cases "free_device_loop 0 (devices ctx)") (simp_all add: evdi_platform_drv_get_free_device_def)
  show ?thesis
  proof (cases f)
    case (Some i)
    then obtain pdev where p: "i < length (devices ctx)" "devices ctx ! i = Some pdev"
        "evdi_platform_device_is_free pdev = Ret True"
      using free_device_loop_Some [of 0 "devices ctx" i] f by (auto simp: evdi_platform_drv_get_free_device_def)
    then have "evdi_platform_device_add env True (Some usb) ctx
        = Ret (Inr (), ctx\<lparr>devices := (devices ctx)[i := Some (lent_to usb pdev)]\<rparr>)"
      using f Some link_free [OF p(3)] by (simp add: evdi_platform_device_add_def link_slot_def)
    then show ?thesis using p len by (auto simp: lend_from_def)
  next
    case None
    have nf: "evdi_platform_device_is_free q = Ret False" if "Some q \<in> set (devices ctx)" for q
      using free_device_loop_None that f None by (auto simp: evdi_platform_drv_get_free_device_def)
    have "evdi_platform_drv_create_new_device env ctx \<noteq> Oops"
      using assms(3) by (simp add: evdi_platform_drv_create_new_device_def evdi_platform_dev_create_def
          good_card_def split: option.splits)
    then obtain q ctx1 where c: "evdi_platform_drv_create_new_device env ctx = Ret (q, ctx1)"
      by (metis outcome.exhaust surj_pair)
    note k = create_new_device_ok [OF assms(1) c]
    show ?thesis
    proof (cases q)
      case (Inl e)
      then have "evdi_platform_device_add env True (Some usb) ctx = Ret (Inl EINVAL, ctx)"
        using f None c k by (simp add: evdi_platform_device_add_def)
      then show ?thesis using Inl k nf by auto
    next
      case (Inr i)
      then have i: "i < length (devices ctx)" "devices ctx ! i = None" "i < EVDI_DEVICE_COUNT_MAX"
          "devices ctx1 = (devices ctx)[i := Some (fresh_device env)]"
        using k len by (simp_all add: fresh_device_def)
      then have "evdi_platform_device_add env True (Some usb) ctx
          = Ret (Inr (), ctx1\<lparr>devices := (devices ctx)[i := Some (lent_to usb (fresh_device env))]\<rparr>)"
        using f None c Inr link_free [OF fresh_device_free [OF assms(3)]]
        by (simp add: evdi_platform_device_add_def link_slot_def)
      then show ?thesis using i nf by (auto simp: lend_from_def)
    qed
  qed
qed

section \<open>Properties\<close>

text \<open>
  C5: whatever is written to the registry and however USB devices come and go, the count of devices is
  the number of occupied slots, never more than sixteen, and a card is marked as linked exactly when it
  has a USB device.
\<close>

theorem registry_invariant:
  assumes "registry_reachable ctx"
  shows "registry_ok ctx \<and> unat (dev_count ctx) \<le> EVDI_DEVICE_COUNT_MAX"
  using assms
proof induction
  case start
  have "occupied (replicate n None) = 0" for n by (induction n) simp_all
  then show ?case by (simp add: registry_ok_def empty_registry_def)
next
  case (step ctx opn ctx')
  then have "registry_ok ctx'" using registry_step_ok by blast
  then show ?case using occupied_le [of "devices ctx'"] by (simp add: registry_ok_def)
qed


lemma unlink_other:
  "drvdata pdev = Some d \<Longrightarrow> pdd_parent d \<noteq> Some usb \<Longrightarrow>
     evdi_platform_device_unlink_if_linked_with usb pdev = Ret pdev"
  by (simp add: evdi_platform_device_unlink_if_linked_with_def)

lemma unlink_lent:
  assumes "slot_ok pdev" and "evdi_platform_device_is_free pdev = Ret True"
  shows "evdi_platform_device_unlink_if_linked_with usb (lent_to usb pdev) = Ret pdev"
proof -
  obtain d where d: "drvdata pdev = Some d" "\<not> symlinked d"
    using assms(2) by (auto simp: evdi_platform_device_is_free_def split: option.splits)
  then have "pdd_parent d = None" using assms(1) by (simp add: slot_ok_def)
  then show ?thesis
    using d by (simp add: evdi_platform_device_unlink_if_linked_with_def lent_to_def)
qed

lemma usb_loop_bound:
  "\<forall>pdev. Some pdev \<in> set ds \<longrightarrow> drvdata pdev \<noteq> None \<Longrightarrow> usb_loop usb ds \<noteq> Oops"
proof (induction ds)
  case (Cons d ds)
  then obtain r where r: "usb_loop usb ds = Ret r" by (cases "usb_loop usb ds") auto
  show ?case
  proof (cases d)
    case (Some pdev)
    then obtain x where "drvdata pdev = Some x" using Cons.prems by auto
    then obtain pdev' where "evdi_platform_device_unlink_if_linked_with usb pdev = Ret pdev'"
      by (cases "pdd_parent x = Some usb") (simp_all add: evdi_platform_device_unlink_if_linked_with_def)
    then show ?thesis using r Some by (cases r) simp
  qed (use r in \<open>cases r; simp\<close>)
qed simp

lemma unlinked_same:
  "list_all2 (unlinked usb) ds ds' \<Longrightarrow> i < length ds \<Longrightarrow> ds ! i = Some pdev \<Longrightarrow>
     evdi_platform_device_unlink_if_linked_with usb pdev = Ret pdev' \<Longrightarrow> ds' ! i = Some pdev'"
  by (drule list_all2_nthD) (auto simp: unlinked_def)

definition not_linked :: "nat \<Rightarrow> evdi_platform_drv_context \<Rightarrow> bool" where
  "not_linked usb ctx \<longleftrightarrow> (\<forall>pdev d. Some pdev \<in> set (devices ctx) \<longrightarrow> drvdata pdev = Some d \<longrightarrow>
     pdd_parent d \<noteq> Some usb)"



text \<open>
  A card whose probe fails keeps its slot without data: from then on a USB device that asks for a
  card, and one that is unplugged, makes the driver read through a NULL pointer.
\<close>

theorem failed_probe_oops:
  assumes "nd_registered env" and "fst (evdi_platform_device_probe env) \<noteq> Inr ()"
  shows "\<exists>ctx. evdi_platform_device_add env link_ok None empty_registry = Ret (Inr (), ctx) \<and>
    evdi_platform_device_add env' link_ok' (Some usb) ctx = Oops \<and>
    evdi_platform_drv_usb True (Some usb) ctx = Oops"
proof -
  have r: "replicate EVDI_DEVICE_COUNT_MAX None = None # replicate 15 (None :: platform_device option)"
    by (simp add: EVDI_DEVICE_COUNT_MAX_def flip: replicate_Suc)
  have d: "snd (evdi_platform_device_probe env) = None"
    using assms(2) by (auto simp: evdi_platform_device_probe_def split: if_splits sum.splits)
  let ?ctx = "\<lparr>dev_count = 1, devices = Some \<lparr>drvdata = None, pd_parent = None\<rparr> # replicate 15 None\<rparr>"
  have "evdi_platform_device_add env link_ok None empty_registry = Ret (Inr (), ?ctx)"
    using assms(1) d
    by (simp add: evdi_platform_device_add_def evdi_platform_drv_create_new_device_def empty_registry_def r
        evdi_platform_drv_get_free_idx_def evdi_platform_dev_create_def link_slot_def
        evdi_platform_device_link_def)
      (simp add: EVDI_DEVICE_COUNT_MAX_def)
  moreover have "evdi_platform_device_add env' link_ok' (Some usb) ?ctx = Oops"
    by (simp add: evdi_platform_device_add_def evdi_platform_drv_get_free_device_def
        evdi_platform_device_is_free_def)
  moreover have "evdi_platform_drv_usb True (Some usb) ?ctx = Oops"
    by (simp add: evdi_platform_drv_usb_def evdi_platform_device_unlink_if_linked_with_def)
  ultimately show ?thesis by blast
qed

section \<open>Witnesses\<close>

definition blank_card :: evdi_device where
  "blank_card = \<lparr>painter = Some fresh_painter, cursor = zero_cursor, cursor_events_enabled = False,
     pixel_area_limit = 0, pixel_per_second_limit = 0, i2c_adapter = False,
     gems = (\<lambda>_. sample_object), calls = []\<rparr>"

definition sample_new :: new_device where
  "sample_new = \<lparr>nd_registered = True, nd_kzalloc = True, nd_drm = Inr blank_card\<rparr>"

lemma sample_new_good: "good_card sample_new"
  by (simp add: good_card_def sample_new_def blank_card_def evdi_painter_is_connected_def fresh_painter_def)

lemma empty_registry_ok: "registry_ok empty_registry" "all_bound empty_registry" "not_linked u empty_registry"
  using registry_invariant [OF start]
  by (auto simp: all_bound_def not_linked_def empty_registry_def)

lemma empty_registry_occupied: "occupied (devices empty_registry) = 0"
proof -
  have "occupied (replicate n None) = 0" for n by (induction n) simp_all
  then show ?thesis by (simp add: empty_registry_def)
qed

theorem registry_invariant_witness:
  "\<exists>ctx. registry_step (AddUsb sample_new True 5) empty_registry = Ret ctx \<and> registry_ok ctx"
proof -
  obtain ctx where s: "registry_step (AddUsb sample_new True 5) empty_registry = Ret ctx"
    using device_add_lends [OF empty_registry_ok(1,2) sample_new_good, of 5]
    by (auto simp: registry_step_def map_outcome_Ret)
  show ?thesis using s registry_invariant [OF step [OF start s]] by blast
qed


lemma sample_card_is_lent:
  "\<exists>ctx'. evdi_platform_device_add sample_new True (Some 5) empty_registry = Ret (Inr (), ctx')"
proof -
  obtain r ctx' where a: "evdi_platform_device_add sample_new True (Some 5) empty_registry = Ret (r, ctx')"
      and full: "\<And>e. r = Inl e \<Longrightarrow> occupied (devices empty_registry) = EVDI_DEVICE_COUNT_MAX"
  proof -
    from device_add_lends [OF empty_registry_ok(1,2) sample_new_good, of 5] show ?thesis
      by (elim exE conjE) (rule that, assumption, simp)
  qed
  have "r = Inr ()"
    using full by (cases r) (simp_all add: empty_registry_occupied EVDI_DEVICE_COUNT_MAX_def)
  with a have b: "evdi_platform_device_add sample_new True (Some 5) empty_registry = Ret (Inr (), ctx')" by simp
  then show ?thesis by blast
qed


theorem failed_probe_oops_witness:
  "\<exists>ctx. evdi_platform_device_add (sample_new\<lparr>nd_drm := Inl ENOMEM\<rparr>) True None empty_registry = Ret (Inr (), ctx) \<and>
    evdi_platform_drv_usb True (Some 5) ctx = Oops"
proof -
  let ?env = "sample_new\<lparr>nd_drm := Inl ENOMEM\<rparr>"
  have "nd_registered ?env" "fst (evdi_platform_device_probe ?env) \<noteq> Inr ()"
    by (simp_all add: sample_new_def evdi_platform_device_probe_def)
  from failed_probe_oops [OF this, of True ?env True 5] show ?thesis by blast
qed

end
