(* ===== verification/Evdi_Sysfs.thy ===== *)
theory Evdi_Sysfs
  imports Evdi_Platform
begin

text \<open>
  The files of the driver in sysfs, \<open>module/evdi_sysfs.c\<close>: cards are added by number or for a USB device,
  whose path is parsed and looked up among the devices of the USB core.
\<close>

section \<open>Strings\<close>

text \<open>
  What is written is the bytes of one write, which may contain NULs; a C string ends before the first.
  \<open>mem\<close> is allocated memory from a pointer on, and a read past its end is an \<open>Oops\<close>.
\<close>

definition NUL :: char where
  "NUL = CHR 0x00"

definition c_string :: "string \<Rightarrow> string" where
  "c_string mem = takeWhile (\<lambda>c. c \<noteq> NUL) mem"

text \<open>The string found, from its first character on; \<open>len\<close> is the length to search.\<close>

function strnstr :: "string \<Rightarrow> string \<Rightarrow> nat \<Rightarrow> string option outcome" where
  "strnstr mem pat len =
     (if pat = [] then Ret (Some mem)
      else if len < length pat then Ret None
      else if length mem < length pat then Oops
      else if take (length pat) mem = pat then Ret (Some mem)
      else strnstr (tl mem) pat (len - 1))"
  by pat_completeness auto
termination
proof (relation "measure (\<lambda>(_, _, len). len)", goal_cases)
  case (2 mem pat len)
  then show ?case by (cases pat) simp_all
qed simp

declare strnstr.simps [simp del]

definition is_white :: "char \<Rightarrow> bool" where
  "is_white c \<longleftrightarrow> c \<in> {CHR '' '', CHR 0x09, CHR 0x0A, CHR 0x0B, CHR 0x0C, CHR 0x0D, CHR 0xA0}"

definition strim :: "string \<Rightarrow> string" where
  "strim s = dropWhile is_white (rev (dropWhile is_white (rev s)))"

text \<open>The token up to the separator, and the rest after it, if there is one.\<close>

definition strsep :: "char \<Rightarrow> string option \<Rightarrow> string option \<times> string option" where
  "strsep sep s =
     (case s of
        None \<Rightarrow> (None, None)
      | Some t \<Rightarrow>
          (Some (takeWhile (\<lambda>c. c \<noteq> sep) t),
           if sep \<in> set t then Some (tl (dropWhile (\<lambda>c. c \<noteq> sep) t)) else None))"

text \<open>A sign \<open>+\<close> and a final line feed are allowed; any other character, or too large a value, is an error.\<close>

definition kstrtouint :: "string \<Rightarrow> u32 option" where
  "kstrtouint s =
     (let t = (case s of [] \<Rightarrow> [] | c # cs \<Rightarrow> if c = CHR ''+'' then cs else s);
          ds = takeWhile is_digit t; rest = dropWhile is_digit t
      in if ds = [] \<or> (rest \<noteq> [] \<and> rest \<noteq> [CHR 0x0A]) \<or> 2 ^ 32 \<le> digits_value 0 ds then None
         else Some (of_nat (digits_value 0 ds)))"

section \<open>USB paths\<close>

definition MAX_EVDI_USB_ADDR :: nat where
  "MAX_EVDI_USB_ADDR = 10"

text \<open>The loop over the ports; \<open>addr\<close> is what \<open>usb_addr\<close> holds so far.\<close>

function port_loop :: "string option \<Rightarrow> u32 list \<Rightarrow> u32 list option" where
  "port_loop token addr =
     (case strsep (CHR ''.'') token of
        (None, _) \<Rightarrow> None
      | (Some port, token') \<Rightarrow>
          (case kstrtouint port of
             None \<Rightarrow> None
           | Some n \<Rightarrow>
               if token' \<noteq> None \<and> length (addr @ [n]) < MAX_EVDI_USB_ADDR
               then port_loop token' (addr @ [n]) else Some (addr @ [n])))"
  by pat_completeness auto
termination
  by (relation "measure (\<lambda>(_, addr). MAX_EVDI_USB_ADDR - length addr)") auto

declare port_loop.simps [simp del]

text \<open>\<open>dup\<close> and \<open>dup2\<close> are the two copies made with \<open>kstrdup\<close>; \<open>buf\<close> are the bytes written.\<close>

definition parse_usb_path :: "bool \<Rightarrow> bool \<Rightarrow> string \<Rightarrow> u32 list result outcome" where
  "parse_usb_path dup dup2 buf =
     (if \<not> dup then Ret (Inl ENOMEM)
      else case strnstr (c_string buf @ [NUL]) ''usb:'' (length buf) of
          Oops \<Rightarrow> Oops
        | Ret None \<Rightarrow> Ret (Inl EINVAL)
        | Ret (Some found) \<Rightarrow>
            let (bus_token, temp1) = strsep (CHR '':'') (Some (strim (c_string found)));
                (usb_token, temp2) = strsep (CHR '':'') temp1
            in case usb_token of
                None \<Rightarrow> Ret (Inl EINVAL)
              | Some path \<Rightarrow>
                  (case strsep (CHR ''-'') (if dup2 then Some path else None) of
                     (None, _) \<Rightarrow> Ret (Inl EINVAL)
                   | (Some bus, token) \<Rightarrow>
                       (case kstrtouint bus of
                          None \<Rightarrow> Ret (Inl EINVAL)
                        | Some b \<Rightarrow>
                            (case port_loop token [b] of
                               None \<Rightarrow> Ret (Inl EINVAL)
                             | Some addr \<Rightarrow> Ret (Inr addr)))))"

text \<open>A device of the USB core: its number here, its port, its bus, and the hub it is plugged into.\<close>

datatype usb_device =
  Usb (usb_id: nat) (portnum: u32) (busnum: u32) (usb_parent: "usb_device option")

text \<open>The climb from a device to its root hub; \<open>k\<close> is \<open>i + 1\<close>.\<close>

fun path_loop :: "u32 list \<Rightarrow> usb_device option \<Rightarrow> nat \<Rightarrow> bool" where
  "path_loop addr pdev 0 = False"
| "path_loop addr pdev (Suc i) =
     (case pdev of
        None \<Rightarrow> False
      | Some d \<Rightarrow>
          if \<not> i < MAX_EVDI_USB_ADDR then False
          else let port = (if portnum d = 0 then busnum d else portnum d)
            in if port \<noteq> addr ! i then False
               else if usb_parent d = None \<and> i = 0 then True
               else path_loop addr (usb_parent d) i)"

definition find_usb_device_at_path :: "u32 list \<Rightarrow> usb_device \<Rightarrow> bool" where
  "find_usb_device_at_path addr usb = path_loop addr (Some usb) (length addr)"

text \<open>\<open>usbs\<close> are the devices in the order \<open>usb_for_each_dev\<close> visits them.\<close>

definition evdi_platform_device_attach ::
  "usb_device list \<Rightarrow> new_device \<Rightarrow> bool \<Rightarrow> u32 list \<Rightarrow> evdi_platform_drv_context \<Rightarrow>
     (unit result \<times> evdi_platform_drv_context) outcome" where
  "evdi_platform_device_attach usbs env link_ok addr ctx =
     (case List.find (find_usb_device_at_path addr) usbs of
        None \<Rightarrow> Ret (Inl EINVAL, ctx)
      | Some usb \<Rightarrow> evdi_platform_device_add env link_ok (Some (usb_id usb)) ctx)"

definition add_device_with_usb_path ::
  "bool \<Rightarrow> bool \<Rightarrow> usb_device list \<Rightarrow> new_device \<Rightarrow> bool \<Rightarrow> string \<Rightarrow> evdi_platform_drv_context \<Rightarrow>
     (nat result \<times> evdi_platform_drv_context) outcome" where
  "add_device_with_usb_path dup dup2 usbs env link_ok buf ctx =
     (case parse_usb_path dup dup2 buf of
        Oops \<Rightarrow> Oops
      | Ret (Inl e) \<Rightarrow> Ret (Inl e, ctx)
      | Ret (Inr addr) \<Rightarrow>
          (case evdi_platform_device_attach usbs env link_ok addr ctx of
             Oops \<Rightarrow> Oops
           | Ret (Inl _, ctx1) \<Rightarrow> Ret (Inl EINVAL, ctx1)
           | Ret (Inr _, ctx1) \<Rightarrow> Ret (Inr (length buf), ctx1)))"

section \<open>The files\<close>

text \<open>The buffer sysfs passes ends with a NUL after the bytes written.\<close>

definition add_store ::
  "bool \<Rightarrow> bool \<Rightarrow> usb_device list \<Rightarrow> (nat \<Rightarrow> new_device) \<Rightarrow> bool \<Rightarrow> string \<Rightarrow> evdi_platform_drv_context \<Rightarrow>
     (nat result \<times> evdi_platform_drv_context) outcome" where
  "add_store dup dup2 usbs envs link_ok buf ctx =
     (case strnstr (buf @ [NUL]) ''usb:'' (length buf) of
        Oops \<Rightarrow> Oops
      | Ret (Some _) \<Rightarrow> add_device_with_usb_path dup dup2 usbs (envs 0) link_ok buf ctx
      | Ret None \<Rightarrow>
          (case kstrtouint (c_string buf) of
             None \<Rightarrow> Ret (Inl EINVAL, ctx)
           | Some val \<Rightarrow>
               (case evdi_platform_add_devices envs val ctx of
                  Oops \<Rightarrow> Oops
                | Ret (Inl e, ctx1) \<Rightarrow> Ret (Inl e, ctx1)
                | Ret (Inr _, ctx1) \<Rightarrow> Ret (Inr (length buf), ctx1))))"

definition remove_all_store ::
  "string \<Rightarrow> evdi_platform_drv_context \<Rightarrow> nat \<times> evdi_platform_drv_context" where
  "remove_all_store buf ctx = (length buf, evdi_platform_remove_all_devices ctx)"

definition count_show :: "evdi_platform_drv_context \<Rightarrow> string" where
  "count_show ctx = decimal (unat (dev_count ctx)) @ [CHR 0x0A]"

definition version_show :: string where
  "version_show = decimal 1 @ CHR ''.'' # decimal 14 @ CHR ''.'' # decimal 14 @ [CHR 0x0A]"

definition EVDI_LOGLEVEL_VERBOSE :: u32 where
  "EVDI_LOGLEVEL_VERBOSE = 6"

definition loglevel_show :: "u32 \<Rightarrow> string" where
  "loglevel_show loglevel = decimal (unat loglevel) @ [CHR 0x0A]"

text \<open>The result and the new log level.\<close>

definition loglevel_store :: "string \<Rightarrow> u32 \<Rightarrow> nat result \<times> u32" where
  "loglevel_store buf loglevel =
     (case kstrtouint (c_string buf) of
        None \<Rightarrow> (Inl EINVAL, loglevel)
      | Some val \<Rightarrow>
          if EVDI_LOGLEVEL_VERBOSE < val then (Inl EINVAL, loglevel) else (Inr (length buf), val))"

section \<open>Parsing what is printed\<close>

lemma kstrtouint_digits:
  assumes "ds \<noteq> []" and "\<forall>c\<in>set ds. is_digit c" and "digits_value 0 ds < 2 ^ 32"
    and "rest = [] \<or> rest = [CHR 0x0A]"
  shows "kstrtouint (ds @ rest) = Some (of_nat (digits_value 0 ds))"
proof -
  have p: "(case ds @ rest of [] \<Rightarrow> [] | c # cs \<Rightarrow> if c = CHR ''+'' then cs else ds @ rest) = ds @ rest"
    using assms(1,2) by (cases ds) (auto simp: is_digit_def digit_def)
  have "\<not> is_digit (CHR 0x0A)" by (simp add: is_digit_def digit_def)
  then have "takeWhile is_digit (ds @ rest) = ds" "dropWhile is_digit (ds @ rest) = rest"
    using assms(2,4) by (auto simp: takeWhile_append2 dropWhile_append2 takeWhile_eq_all_conv)
  then show ?thesis using assms(1,3,4) by (simp only: kstrtouint_def Let_def p) auto
qed

lemma kstrtouint_decimal:
  "n < 2 ^ 32 \<Longrightarrow> rest = [] \<or> rest = [CHR 0x0A] \<Longrightarrow> kstrtouint (decimal n @ rest) = Some (of_nat n)"
  using kstrtouint_digits [of "decimal n" rest] decimal_digits [of _ n]
  by (simp add: decimal_nonempty digits_value_decimal)

text \<open>The path of a device from its bus on, and the text that names it.\<close>

fun usb_path :: "usb_device \<Rightarrow> u32 list" where
  "usb_path (Usb n port bus par) =
     (case par of None \<Rightarrow> [] | Some hub \<Rightarrow> usb_path hub) @ [if port = 0 then bus else port]"

fun ports_text :: "u32 list \<Rightarrow> string" where
  "ports_text [] = []"
| "ports_text [p] = decimal (unat p)"
| "ports_text (p # q # ps) = decimal (unat p) @ CHR ''.'' # ports_text (q # ps)"

definition usb_text :: "u32 list \<Rightarrow> string" where
  "usb_text path = ''usb:'' @ decimal (unat (hd path)) @ CHR ''-'' # ports_text (tl path)"

lemma usb_path_nonempty: "usb_path d \<noteq> []"
  by (cases d) simp

lemma path_loop_path:
  "k \<le> MAX_EVDI_USB_ADDR \<Longrightarrow> k \<le> length addr \<Longrightarrow> path_loop addr (Some d) k \<longleftrightarrow> take k addr = usb_path d"
proof (induction k arbitrary: d)
  case 0
  then show ?case using usb_path_nonempty [of d] by simp
next
  case (Suc i)
  obtain n port bus par where d: "d = Usb n port bus par" by (cases d)
  have t: "take (Suc i) addr = take i addr @ [addr ! i]"
    using Suc.prems by (simp add: take_Suc_conv_app_nth)
  show ?case
  proof (cases par)
    case None
    have "path_loop addr None i = False" by (cases i) simp_all
    then show ?thesis using Suc.prems None unfolding d by (auto simp: t Let_def)
  next
    case (Some hub)
    have "path_loop addr (Some hub) i \<longleftrightarrow> take i addr = usb_path hub"
      using Suc by simp
    then show ?thesis using Suc.prems Some unfolding d by (auto simp: t Let_def)
  qed
qed

lemma find_usb_device_path:
  "length addr \<le> MAX_EVDI_USB_ADDR \<Longrightarrow> find_usb_device_at_path addr d \<longleftrightarrow> addr = usb_path d"
  by (simp add: find_usb_device_at_path_def path_loop_path)

lemma strsep_found:
  assumes "sep \<notin> set xs"
  shows "strsep sep (Some (xs @ sep # ys)) = (Some xs, Some ys)"
proof -
  have "takeWhile (\<lambda>c. c \<noteq> sep) (xs @ sep # ys) = xs" "dropWhile (\<lambda>c. c \<noteq> sep) (xs @ sep # ys) = sep # ys"
    using assms by (induction xs) auto
  then show ?thesis by (simp add: strsep_def)
qed

lemma strsep_missing: "sep \<notin> set xs \<Longrightarrow> strsep sep (Some xs) = (Some xs, None)"
  by (auto simp: strsep_def takeWhile_eq_all_conv)

lemma decimal_without: "\<not> is_digit c \<Longrightarrow> c \<notin> set (decimal n)"
  using decimal_digits by blast

lemma ports_text_chars: "c \<in> set (ports_text ps) \<Longrightarrow> is_digit c \<or> c = CHR ''.''"
  by (induction ps rule: ports_text.induct) (auto dest: decimal_digits)

lemma no_digits: "\<not> is_digit (CHR ''.'')" "\<not> is_digit (CHR ''-'')" "\<not> is_digit (CHR '':'')"
  "\<not> is_digit NUL"
  by (simp_all add: is_digit_def digit_def NUL_def)

lemma port_loop_text:
  "ps \<noteq> [] \<Longrightarrow> length acc + length ps \<le> MAX_EVDI_USB_ADDR \<Longrightarrow>
     port_loop (Some (ports_text ps)) acc = Some (acc @ ps)"
proof (induction ps arbitrary: acc rule: ports_text.induct)
  case (2 p)
  then show ?case
    using kstrtouint_decimal [of "unat p" "[]"] unat_32_less [of p]
    by (subst port_loop.simps) (simp add: strsep_missing decimal_without no_digits)
next
  case (3 p q ps)
  have "port_loop (Some (ports_text (q # ps))) (acc @ [p]) = Some ((acc @ [p]) @ q # ps)"
    using 3 by simp
  then show ?case
    using kstrtouint_decimal [of "unat p" "[]"] unat_32_less [of p] "3.prems"
    by (subst port_loop.simps) (simp add: strsep_found decimal_without no_digits)
qed simp

lemma usb_text_chars:
  assumes "c \<in> set (usb_text path)" and "path \<noteq> []"
  shows "is_digit c \<or> c \<in> {CHR ''u'', CHR ''s'', CHR ''b'', CHR '':'', CHR ''-'', CHR ''.''}"
  using assms by (auto simp: usb_text_def dest: decimal_digits ports_text_chars)

lemma ports_text_last: "ps \<noteq> [] \<Longrightarrow> ports_text ps \<noteq> [] \<and> is_digit (last (ports_text ps))"
proof (induction ps rule: ports_text.induct)
  case (2 p)
  then show ?case using decimal_nonempty [of "unat p"] decimal_digits last_in_set by auto
qed auto

lemma digit_not_white: "is_digit c \<Longrightarrow> \<not> is_white c \<and> c \<noteq> NUL"
  by (auto simp: is_digit_def digit_def is_white_def NUL_def)

lemma strim_usb_text:
  assumes "2 \<le> length path" and "\<forall>c\<in>set ws. is_white c"
  shows "strim (usb_text path @ ws) = usb_text path"
proof -
  obtain pre c where t: "usb_text path = pre @ [c]" "is_digit c"
  proof -
    have "tl path \<noteq> []" using assms(1) by (cases path) auto
    then have "ports_text (tl path) \<noteq> []" "is_digit (last (ports_text (tl path)))"
      using ports_text_last by auto
    then show thesis
      by (intro that [of "''usb:'' @ decimal (unat (hd path)) @ CHR ''-'' # butlast (ports_text (tl path))"
            "last (ports_text (tl path))"]) (simp_all add: usb_text_def)
  qed
  have "dropWhile is_white (rev ws @ rev (usb_text path)) = rev (usb_text path)"
    using assms(2) digit_not_white [OF t(2)] by (subst dropWhile_append2) (auto simp: t(1))
  then have "strim (usb_text path @ ws) = dropWhile is_white (usb_text path)" by (simp add: strim_def)
  also have "\<dots> = usb_text path" by (simp add: usb_text_def is_white_def)
  finally show ?thesis .
qed

lemma c_string_usb_text:
  assumes "path \<noteq> []" and "\<forall>c\<in>set ws. is_white c"
  shows "c_string (usb_text path @ ws) = usb_text path @ ws"
    "c_string ((usb_text path @ ws) @ [NUL]) = usb_text path @ ws"
proof -
  have n: "\<forall>c\<in>set (usb_text path @ ws). c \<noteq> NUL"
  proof
    fix c
    assume "c \<in> set (usb_text path @ ws)"
    then consider "c \<in> set (usb_text path)" | "is_white c" using assms(2) by auto
    then show "c \<noteq> NUL"
    proof cases
      case 1
      then show ?thesis using usb_text_chars [OF 1 assms(1)] no_digits(4) by (auto simp: NUL_def)
    qed (auto simp: is_white_def NUL_def)
  qed
  show "c_string (usb_text path @ ws) = usb_text path @ ws"
    using n by (simp add: c_string_def takeWhile_eq_all_conv)
  show "c_string ((usb_text path @ ws) @ [NUL]) = usb_text path @ ws"
    unfolding c_string_def by (subst takeWhile_append2) (use n in simp_all)
qed

lemma strnstr_usb_text:
  "strnstr ((usb_text path @ ws) @ [NUL]) ''usb:'' (length (usb_text path @ ws))
     = Ret (Some ((usb_text path @ ws) @ [NUL]))"
  by (subst strnstr.simps) (simp add: usb_text_def)

lemma parse_usb_text:
  assumes "2 \<le> length path" and "length path \<le> MAX_EVDI_USB_ADDR" and "\<forall>c\<in>set ws. is_white c"
  shows "parse_usb_path True True (usb_text path @ ws) = Ret (Inr path)"
proof -
  obtain b ps where path: "path = b # ps" "ps \<noteq> []" using assms(1) by (cases path; cases "tl path") auto
  let ?rest = "decimal (unat b) @ CHR ''-'' # ports_text ps"
  have "usb_text path = ''usb'' @ CHR '':'' # ?rest" by (simp add: usb_text_def path)
  then have s1: "strsep (CHR '':'') (Some (usb_text path)) = (Some ''usb'', Some ?rest)"
    by (simp only: strsep_found) (simp add: strsep_found [of "CHR '':''" "''usb''", simplified])
  have "CHR '':'' \<notin> set ?rest"
    using ports_text_chars [of "CHR '':''" ps] no_digits by (auto simp: decimal_without)
  then have s2: "strsep (CHR '':'') (Some ?rest) = (Some ?rest, None)" by (rule strsep_missing)
  have s3: "strsep (CHR ''-'') (Some ?rest) = (Some (decimal (unat b)), Some (ports_text ps))"
    by (rule strsep_found) (simp add: decimal_without no_digits)
  have k: "kstrtouint (decimal (unat b)) = Some b"
    using kstrtouint_decimal [of "unat b" "[]"] unat_32_less [of b] by simp
  have l: "port_loop (Some (ports_text ps)) [b] = Some path"
    using port_loop_text [OF path(2), of "[b]"] assms(2) by (simp add: path(1))
  have c: "path \<noteq> []" by (simp add: path)
  show ?thesis
    by (simp only: parse_usb_path_def c_string_usb_text [OF c assms(3)] strnstr_usb_text outcome.case
        option.case if_True not_True_eq_False if_False Let_def strim_usb_text [OF assms(1,3)] s1 s2 s3 prod.case k l)
qed

lemma add_store_usb_text:
  assumes "List.find (\<lambda>u. usb_path u = usb_path usb) usbs = Some usb"
    and "2 \<le> length (usb_path usb)" and "length (usb_path usb) \<le> MAX_EVDI_USB_ADDR"
    and "\<forall>c\<in>set ws. is_white c"
  shows "add_store True True usbs envs link_ok (usb_text (usb_path usb) @ ws) ctx =
    map_outcome (\<lambda>(r, ctx'). (case r of Inl _ \<Rightarrow> Inl EINVAL | Inr _ \<Rightarrow> Inr (length (usb_text (usb_path usb) @ ws)), ctx'))
      (evdi_platform_device_add (envs 0) link_ok (Some (usb_id usb)) ctx)"
proof -
  have "find_usb_device_at_path (usb_path usb) = (\<lambda>u. usb_path u = usb_path usb)"
    by (rule ext) (simp only: find_usb_device_path [OF assms(3)] eq_commute [of "usb_path usb"])
  then have f: "List.find (find_usb_device_at_path (usb_path usb)) usbs = Some usb"
    using assms(1) by (simp only:)
  show ?thesis
    unfolding add_store_def strnstr_usb_text add_device_with_usb_path_def parse_usb_text [OF assms(2-4)]
      evdi_platform_device_attach_def
    by (cases "evdi_platform_device_add (envs 0) link_ok (Some (usb_id usb)) ctx")
      (auto simp: f split: sum.splits)
qed

section \<open>Properties\<close>

text \<open>
  C31: the path of a USB device, written with its bus and its ports, up to ten numbers, and any white
  space after it, is read back as that path and lends a card to exactly that device.
\<close>

theorem usb_path_finds_device:
  assumes "List.find (\<lambda>u. usb_path u = usb_path usb) usbs = Some usb"
    and "2 \<le> length (usb_path usb)" and "length (usb_path usb) \<le> MAX_EVDI_USB_ADDR"
    and "\<forall>c\<in>set ws. is_white c"
  shows "add_store True True usbs envs link_ok (usb_text (usb_path usb) @ ws) ctx =
    map_outcome (\<lambda>(r, ctx'). (case r of Inl _ \<Rightarrow> Inl EINVAL | Inr _ \<Rightarrow> Inr (length (usb_text (usb_path usb) @ ws)), ctx'))
      (evdi_platform_device_add (envs 0) link_ok (Some (usb_id usb)) ctx)"
  by (rule add_store_usb_text [OF assms])

definition sample_hub :: usb_device where
  "sample_hub = Usb 0 0 1 None"

definition sample_usb :: usb_device where
  "sample_usb = Usb 5 2 1 (Some (Usb 3 4 1 (Some sample_hub)))"

lemma sample_usb_path: "usb_path sample_usb = [1, 4, 2]"
  by (simp add: sample_usb_def sample_hub_def)

theorem usb_path_finds_device_witness:
  "\<exists>ctx'. add_store True True [sample_hub, sample_usb] (\<lambda>_. sample_new) True ''usb:1-4.2'' empty_registry
     = Ret (Inr 9, ctx')"
proof -
  have t: "usb_text [1, 4, 2] = ''usb:1-4.2''" by (simp add: usb_text_def decimal.simps char_of_def bit_0)
  have n: "length ''usb:1-4.2'' = 9" by simp
  obtain ctx' where a: "evdi_platform_device_add sample_new True (Some 5) empty_registry = Ret (Inr (), ctx')"
    using sample_card_is_lent by blast
  have "List.find (\<lambda>u. usb_path u = usb_path sample_usb) [sample_hub, sample_usb] = Some sample_usb"
    by (simp add: sample_usb_path) (simp add: sample_hub_def)
  from usb_path_finds_device [OF this, of "[]" "\<lambda>_. sample_new" True empty_registry]
  have "add_store True True [sample_hub, sample_usb] (\<lambda>_. sample_new) True ''usb:1-4.2'' empty_registry
      = map_outcome (\<lambda>(r, ctx'). (case r of Inl _ \<Rightarrow> Inl EINVAL | Inr _ \<Rightarrow> Inr 9, ctx'))
          (evdi_platform_device_add sample_new True (Some (usb_id sample_usb)) empty_registry)"
    unfolding sample_usb_path t append_Nil2 n
    by (simp add: MAX_EVDI_USB_ADDR_def)
  moreover have "usb_id sample_usb = 5" by (simp add: sample_usb_def)
  ultimately show ?thesis using a by simp
qed

text \<open>
  What is shown as the number of cards is read back as that number, and a log level is accepted
  exactly when it is at most the most verbose one.
\<close>

theorem shown_numbers_read_back:
  "kstrtouint (count_show ctx) = Some (dev_count ctx) \<and>
   loglevel_store (loglevel_show l) l0 =
     (if l \<le> EVDI_LOGLEVEL_VERBOSE then (Inr (length (loglevel_show l)), l) else (Inl EINVAL, l0))"
proof -
  have k: "kstrtouint (decimal (unat w) @ [CHR 0x0A]) = Some w" for w
    using kstrtouint_decimal [of "unat w" "[CHR 0x0A]"] unat_32_less [of w] by simp
  have "\<forall>c\<in>set (loglevel_show l). c \<noteq> NUL"
    using digit_not_white decimal_digits by (auto simp: loglevel_show_def NUL_def)
  then have "c_string (loglevel_show l) = loglevel_show l"
    by (simp add: c_string_def takeWhile_eq_all_conv)
  then show ?thesis
    by (auto simp: count_show_def loglevel_store_def loglevel_show_def k not_less)
qed

lemma strnstr_found:
  "pat \<noteq> [] \<Longrightarrow> \<exists>x. strnstr (pre @ pat @ post) pat (length pre + length pat + n) = Ret (Some x)"
proof (induction pre)
  case Nil
  then show ?case by (subst strnstr.simps) simp
next
  case (Cons c pre)
  then obtain x where "strnstr (pre @ pat @ post) pat (length pre + length pat + n) = Ret (Some x)" by blast
  then show ?case by (subst strnstr.simps) (simp add: Cons.prems)
qed

lemma strnstr_overread:
  "length mem < len \<Longrightarrow> length pat \<le> len \<Longrightarrow> pat \<noteq> [] \<Longrightarrow> \<nexists>p q. mem = p @ pat @ q \<Longrightarrow>
     strnstr mem pat len = Oops"
proof (induction mem arbitrary: len)
  case Nil
  then show ?case by (subst strnstr.simps) simp
next
  case (Cons c mem)
  show ?case
  proof (cases "length (c # mem) < length pat")
    case True
    then show ?thesis using Cons.prems by (subst strnstr.simps) simp
  next
    case False
    have "take (length pat) (c # mem) \<noteq> pat"
      using Cons.prems(4) append_take_drop_id [of "length pat" "c # mem"] by (metis append_Nil)
    moreover have "\<nexists>p q. mem = p @ pat @ q" using Cons.prems(4) by (metis append_Cons)
    then have "strnstr mem pat (len - 1) = Oops"
      using Cons.IH [of "len - 1"] Cons.prems(1,3) False by simp
    ultimately show ?thesis using False Cons.prems by (subst strnstr.simps) simp
  qed
qed

lemma usb_not_at_NUL: "s @ [NUL] = p @ ''usb:'' @ q \<Longrightarrow> \<exists>q'. s = p @ ''usb:'' @ q'"
  by (cases q rule: rev_cases) (auto simp: NUL_def append_eq_append_conv2)

text \<open>
  Bytes with a NUL before \<open>usb:\<close> make the driver search past the end of the copy it made of them,
  which ends at the NUL.
\<close>

theorem embedded_NUL_overread:
  assumes "NUL \<notin> set s" and "\<nexists>p q. s = p @ ''usb:'' @ q"
  shows "add_store True dup2 usbs envs link_ok (s @ NUL # ''usb:'' @ r) ctx = Oops"
proof -
  let ?buf = "s @ NUL # ''usb:'' @ r"
  have c: "c_string (s @ NUL # ''usb:'' @ r) = s"
    unfolding c_string_def using assms(1) by (subst takeWhile_append2) auto
  have "\<nexists>p q. s @ [NUL] = p @ ''usb:'' @ q" using usb_not_at_NUL assms(2) by blast
  then have "strnstr (s @ [NUL]) ''usb:'' (length ?buf) = Oops" by (intro strnstr_overread) simp_all
  then have p: "parse_usb_path True dup2 ?buf = Oops"
    by (simp only: parse_usb_path_def c not_True_eq_False if_False outcome.case)
  obtain x where "strnstr (?buf @ [NUL]) ''usb:'' (length ?buf) = Ret (Some x)"
    using strnstr_found [of "''usb:''" "s @ [NUL]" "r @ [NUL]" "length r"] by (auto simp: algebra_simps)
  then show ?thesis using p by (simp add: add_store_def add_device_with_usb_path_def)
qed

theorem embedded_NUL_overread_witness:
  "add_store True True [] (\<lambda>_. sample_new) True [NUL, CHR ''u'', CHR ''s'', CHR ''b'', CHR '':''] empty_registry
     = Oops"
  using embedded_NUL_overread [of "[]" True "[]" "\<lambda>_. sample_new" True "[]" empty_registry] by simp

end
