(* ===== verification/Evdi_Attach.thy ===== *)
theory Evdi_Attach
  imports Evdi_LibEvents Evdi_LibOpen Evdi_Sysfs
begin

text \<open>
  Asking for a card, from the library to the driver and back: \<open>evdi_open_attached_to\<close> of
  \<open>library/evdi_lib.c\<close> looks through the platform devices, has a card added or lent by a write to the
  file \<open>add\<close> of \<open>module/evdi_sysfs.c\<close>, and looks again. Here the two models are run against each other;
  what lies between them, the names the driver core gives, is \<open>driver_core\<close>.
\<close>

section \<open>Adding a card\<close>

text \<open>
  \<open>opened\<close> says whether the file \<open>add\<close> could be opened. The bytes fit into the buffer of the stream, so
  \<open>fwrite\<close> takes all of them and the driver sees them at \<open>fclose\<close>, whose result is not looked at.
\<close>

definition write_add_device ::
  "bool \<Rightarrow> usb_device list \<Rightarrow> (nat \<Rightarrow> new_device) \<Rightarrow> string \<Rightarrow> evdi_platform_drv_context \<Rightarrow>
     (nat \<times> evdi_platform_drv_context) outcome" where
  "write_add_device opened usbs envs bytes ctx =
     (if \<not> opened then Ret (0, ctx)
      else map_outcome (\<lambda>(_, ctx'). (length bytes, ctx')) (add_store True True usbs envs True bytes ctx))"

definition evdi_add_device ::
  "bool \<Rightarrow> usb_device list \<Rightarrow> (nat \<Rightarrow> new_device) \<Rightarrow> evdi_platform_drv_context \<Rightarrow>
     (nat \<times> evdi_platform_drv_context) outcome" where
  "evdi_add_device opened usbs envs ctx = write_add_device opened usbs envs ''1'' ctx"

section \<open>The directory of the platform devices\<close>

text \<open>
  The driver core names the device of a slot, gives its card a minor number, and writes a link to a USB
  device as a path; \<open>dir_entries\<close> is what reading the directory returns, in its order.
\<close>

record driver_core =
  dev_name :: "nat \<Rightarrow> string"
  minor_of :: "nat \<Rightarrow> nat"
  usb_link :: "nat \<Rightarrow> string"
  dir_entries :: "evdi_platform_drv_context \<Rightarrow> platform_entry list"

text \<open>The USB device the \<open>device\<close> link of a card leads to.\<close>

definition link_of :: "platform_device \<Rightarrow> nat option" where
  "link_of pdev =
     (case drvdata pdev of None \<Rightarrow> None | Some d \<Rightarrow> if symlinked d then pdd_parent d else None)"

text \<open>The directory of a device that is bound has the directory of its card.\<close>

definition card_entry :: "driver_core \<Rightarrow> nat \<Rightarrow> platform_device \<Rightarrow> platform_entry" where
  "card_entry core i pdev =
     \<lparr>pe_name = dev_name core i,
      pe_device = map_option (usb_link core) (link_of pdev),
      pe_drm = map_option (\<lambda>_. [''.'', ''..'', ''card'' @ decimal (minor_of core i)]) (drvdata pdev)\<rparr>"

text \<open>The name of a USB device with its bus and ports, as the command spells it after \<open>usb:\<close>.\<close>

definition usb_name :: "usb_device \<Rightarrow> string" where
  "usb_name usb = drop 4 (usb_text (usb_path usb))"

section \<open>A request for a card\<close>

text \<open>
  The first reading of the directory decides whether a command is written; if so, the directory is read
  again after the driver has served it.
\<close>

definition request_card ::
  "nat \<Rightarrow> driver_core \<Rightarrow> bool \<Rightarrow> usb_device list \<Rightarrow> (nat \<Rightarrow> new_device) \<Rightarrow> nat option list \<Rightarrow>
     string option \<Rightarrow> evdi_platform_drv_context \<Rightarrow> (s32 \<times> evdi_platform_drv_context) outcome" where
  "request_card slack core opened usbs envs usage path ctx =
     (case wanted_card slack usage path (dir_entries core ctx) [] of
        Oops \<Rightarrow> Oops
      | Ret (idx, None) \<Rightarrow> Ret (idx, ctx)
      | Ret (_, Some cmd) \<Rightarrow>
          (case write_add_device opened usbs envs cmd ctx of
             Oops \<Rightarrow> Oops
           | Ret (_, ctx') \<Rightarrow>
               map_outcome (\<lambda>(idx, _). (idx, ctx'))
                 (wanted_card slack usage path (dir_entries core ctx) (dir_entries core ctx'))))"

text \<open>The library's state and the registry after a request; the deprecated form takes a string's length.\<close>

definition open_card ::
  "nat \<Rightarrow> driver_core \<Rightarrow> bool \<Rightarrow> usb_device list \<Rightarrow> (nat \<Rightarrow> new_device) \<Rightarrow> (nat \<Rightarrow> attempt) \<Rightarrow>
     drm_version result \<Rightarrow> drm_version result \<Rightarrow> nat option \<Rightarrow> string option \<Rightarrow>
     library \<times> evdi_platform_drv_context \<Rightarrow>
     (nat option \<times> library \<times> evdi_platform_drv_context) outcome" where
  "open_card slack core opened usbs envs attempts v1 v2 fresh path st =
     (case st of
        (lib, ctx) \<Rightarrow>
          (case request_card slack core opened usbs envs (card_usage lib) path ctx of
             Oops \<Rightarrow> Oops
           | Ret (idx, ctx') \<Rightarrow>
               if 0 \<le> sint idx \<and> sint idx < int EVDI_USAGE_LEN
               then map_outcome (\<lambda>(h, lib'). (h, lib', ctx')) (evdi_open attempts v1 v2 fresh idx lib)
               else Ret (None, lib, ctx')))"

definition evdi_open_attached_to ::
  "nat \<Rightarrow> driver_core \<Rightarrow> bool \<Rightarrow> usb_device list \<Rightarrow> (nat \<Rightarrow> new_device) \<Rightarrow> (nat \<Rightarrow> attempt) \<Rightarrow>
     drm_version result \<Rightarrow> drm_version result \<Rightarrow> nat option \<Rightarrow> string option \<Rightarrow>
     library \<times> evdi_platform_drv_context \<Rightarrow>
     (nat option \<times> library \<times> evdi_platform_drv_context) outcome" where
  "evdi_open_attached_to slack core opened usbs envs attempts v1 v2 fresh path st =
     (if path = None then Oops
      else open_card slack core opened usbs envs attempts v1 v2 fresh path st)"

section \<open>What the driver core promises\<close>

text \<open>
  The names start with \<open>evdi\<close>, the minors are below 64 and the directory lists the occupied slots. The
  link to a USB device ends with the name the USB core gives it, one name to a device; \<open>slack\<close> is at
  least as long.
\<close>

definition core_names :: "driver_core \<Rightarrow> bool" where
  "core_names core \<longleftrightarrow>
     (\<forall>i. take 4 (dev_name core i) = ''evdi'' \<and> minor_of core i < EVDI_USAGE_LEN) \<and>
     (\<forall>ctx e. e \<in> set (dir_entries core ctx) \<and> take 4 (pe_name e) = ''evdi'' \<longleftrightarrow>
        (\<exists>i<length (devices ctx). \<exists>pdev. devices ctx ! i = Some pdev \<and> e = card_entry core i pdev))"

definition usb_names :: "driver_core \<Rightarrow> nat \<Rightarrow> usb_device list \<Rightarrow> usb_device \<Rightarrow> bool" where
  "usb_names core slack usbs usb \<longleftrightarrow>
     (\<forall>u\<in>set usbs. \<exists>token. after_slash (usb_link core (usb_id u)) = Some token \<and> length token \<le> slack \<and>
        (token = usb_name usb \<longleftrightarrow> usb_id u = usb_id usb))"

text \<open>Cards are linked with devices that are plugged in, and every device is bound.\<close>

definition links_present :: "usb_device list \<Rightarrow> evdi_platform_drv_context \<Rightarrow> bool" where
  "links_present usbs ctx \<longleftrightarrow>
     (\<forall>pdev u. Some pdev \<in> set (devices ctx) \<longrightarrow> link_of pdev = Some u \<longrightarrow> u \<in> usb_id ` set usbs)"

section \<open>Reading the directory\<close>

lemma card_index:
  assumes "core_names core" and "drvdata pdev \<noteq> None"
  shows "get_drm_device_index (pe_drm (card_entry core i pdev)) = of_nat (minor_of core i)"
    and "sint (of_nat (minor_of core i) :: s32) = int (minor_of core i)"
proof -
  let ?m = "minor_of core i"
  have m: "?m < 64" using assms(1) by (simp add: core_names_def EVDI_USAGE_LEN_def)
  obtain c cs where c: "decimal ?m = c # cs" using decimal_nonempty by (cases "decimal ?m") auto
  have "is_digit c" using decimal_digits [of c ?m] c by simp
  then have "\<not> is_space c" "c \<noteq> CHR ''-''" "c \<noteq> CHR ''+''"
    by (auto simp: is_digit_def digit_def is_space_def)
  then have "strtol (decimal ?m) = int ?m"
    using m digits_value_decimal [of ?m] by (simp add: strtol_def c)
  then show "get_drm_device_index (pe_drm (card_entry core i pdev)) = of_nat ?m"
    using assms(2) by (auto simp: get_drm_device_index_def card_entry_def)
  show "sint (of_nat ?m :: s32) = int ?m"
    by (rule sint_of_small) (use m in simp)
qed

text \<open>A link is compared with the last component of the path it leads to.\<close>

lemma parent_compared:
  assumes "pe_device e = Some target" and "after_slash target = Some token" and "length token \<le> slack"
    and "2 \<le> length par"
  shows "is_correct_parent_device slack e (Some par) = Ret (token = par)"
proof -
  have m: "min (length token) slack = length token" using assms(3) by (rule min_absorb1)
  have "(length par = length token \<and> take (length token) token = take (length token) par) = (token = par)"
    by (cases "length par = length token") (use take_all [of par "length token"] in force)+
  then show ?thesis
    using assms(4) by (simp add: is_correct_parent_device_def Let_def m assms(1,2) del: take_all)
qed

lemma usb_name_long: "2 \<le> length (usb_path usb) \<Longrightarrow> 2 \<le> length (usb_name usb)"
  using decimal_nonempty by (cases "decimal (unat (hd (usb_path usb)))") (simp_all add: usb_name_def usb_text_def)

lemma parent_of_card:
  assumes "usb_names core slack usbs usb" and "2 \<le> length (usb_path usb)"
    and "\<And>u. link_of pdev = Some u \<Longrightarrow> u \<in> usb_id ` set usbs"
  shows "is_correct_parent_device slack (card_entry core i pdev) (Some (usb_name usb))
     = Ret (link_of pdev = Some (usb_id usb))"
proof (cases "link_of pdev")
  case None
  then show ?thesis by (simp add: is_correct_parent_device_def card_entry_def)
next
  case (Some n)
  then obtain u where u: "u \<in> set usbs" "n = usb_id u" using assms(3) by auto
  then obtain token where t: "after_slash (usb_link core n) = Some token" "length token \<le> slack"
      "token = usb_name usb \<longleftrightarrow> n = usb_id usb"
    using assms(1) unfolding usb_names_def by auto
  have "pe_device (card_entry core i pdev) = Some (usb_link core n)" using Some by (simp add: card_entry_def)
  from parent_compared [OF this t(1,2) usb_name_long [OF assms(2)]] show ?thesis using t(3) Some by simp
qed

lemma no_parent_of_card:
  "is_correct_parent_device slack (card_entry core i pdev) None = Ret (link_of pdev = None)"
  by (simp add: is_correct_parent_device_def card_entry_def)

text \<open>
  The search ends with an entry that fits and is unused, or finds that every entry that fits is in use.
\<close>

lemma find_unused_card_total:
  assumes "\<forall>e\<in>set es. take 4 (pe_name e) = ''evdi'' \<longrightarrow>
      (\<exists>b. is_correct_parent_device slack e parent = Ret b \<and>
        (b \<longrightarrow> 0 \<le> sint (get_drm_device_index (pe_drm e)) \<and>
             sint (get_drm_device_index (pe_drm e)) < int EVDI_USAGE_LEN))"
  shows "\<exists>idx. find_unused_card_for slack usage parent es = Ret idx \<and>
    (idx = - 1 \<longrightarrow> (\<forall>e\<in>set es. take 4 (pe_name e) = ''evdi'' \<longrightarrow>
        is_correct_parent_device slack e parent = Ret True \<longrightarrow>
        usage ! nat (sint (get_drm_device_index (pe_drm e))) \<noteq> None))"
  using assms
proof (induction es)
  case (Cons e es)
  let ?idx = "get_drm_device_index (pe_drm e)"
  obtain idx where ih: "find_unused_card_for slack usage parent es = Ret idx"
      "idx = - 1 \<longrightarrow> (\<forall>e\<in>set es. take 4 (pe_name e) = ''evdi'' \<longrightarrow>
        is_correct_parent_device slack e parent = Ret True \<longrightarrow>
        usage ! nat (sint (get_drm_device_index (pe_drm e))) \<noteq> None)"
    using Cons by auto
  show ?case
  proof (cases "take 4 (pe_name e) = ''evdi''")
    case True
    then obtain b where b: "is_correct_parent_device slack e parent = Ret b"
        "b \<longrightarrow> 0 \<le> sint ?idx \<and> sint ?idx < int EVDI_USAGE_LEN"
      using Cons.prems by auto
    have "?idx \<noteq> - 1" if b using b(2) that by auto
    then show ?thesis using True b ih by (cases b) (auto simp: Let_def)
  next
    case False
    then show ?thesis using ih by auto
  qed
qed simp

lemma parent_fits:
  assumes "\<forall>usb. parent = Some usb \<longrightarrow> usb_names core slack usbs usb \<and> 2 \<le> length (usb_path usb)"
    and "\<And>u. link_of pdev = Some u \<Longrightarrow> u \<in> usb_id ` set usbs"
  shows "is_correct_parent_device slack (card_entry core i pdev) (map_option usb_name parent)
     = Ret (link_of pdev = map_option usb_id parent)"
proof (cases parent)
  case None
  then show ?thesis by (simp add: no_parent_of_card)
next
  case (Some usb)
  then show ?thesis using parent_of_card [of core slack usbs usb pdev i] assms by simp
qed

text \<open>
  Reading the directory finds an unused card with the wanted parent, or there is none. The cards that
  fit are \<open>wanted\<close>.
\<close>

definition wanted :: "usb_device option \<Rightarrow> evdi_platform_drv_context \<Rightarrow> nat \<Rightarrow> bool" where
  "wanted parent ctx i \<longleftrightarrow> i < length (devices ctx) \<and>
     (\<exists>pdev. devices ctx ! i = Some pdev \<and> link_of pdev = map_option usb_id parent)"

lemma slot_read:
  assumes "core_names core" and "all_bound ctx" and "links_present usbs ctx"
    and par: "\<forall>usb. parent = Some usb \<longrightarrow> usb_names core slack usbs usb \<and> 2 \<le> length (usb_path usb)"
    and i: "i < length (devices ctx)" "devices ctx ! i = Some pdev"
  shows "is_correct_parent_device slack (card_entry core i pdev) (map_option usb_name parent)
      = Ret (wanted parent ctx i)"
    and "get_drm_device_index (pe_drm (card_entry core i pdev)) = of_nat (minor_of core i)"
    and "sint (of_nat (minor_of core i) :: s32) = int (minor_of core i)"
    and "minor_of core i < EVDI_USAGE_LEN"
proof -
  have s: "Some pdev \<in> set (devices ctx)" using i nth_mem [of i "devices ctx"] by simp
  then have b: "drvdata pdev \<noteq> None" using assms(2) by (simp add: all_bound_def)
  have "is_correct_parent_device slack (card_entry core i pdev) (map_option usb_name parent)
      = Ret (link_of pdev = map_option usb_id parent)"
    by (rule parent_fits) (use s par assms(3) in \<open>auto simp: links_present_def\<close>)
  then show "is_correct_parent_device slack (card_entry core i pdev) (map_option usb_name parent)
      = Ret (wanted parent ctx i)"
    using i by (simp add: wanted_def)
  show "get_drm_device_index (pe_drm (card_entry core i pdev)) = of_nat (minor_of core i)"
    "sint (of_nat (minor_of core i) :: s32) = int (minor_of core i)"
    by (rule card_index [OF assms(1) b])+
  show "minor_of core i < EVDI_USAGE_LEN" using assms(1) by (simp add: core_names_def)
qed

lemma search_finds_card:
  assumes "core_names core" and "all_bound ctx" and "links_present usbs ctx"
    and par: "\<forall>usb. parent = Some usb \<longrightarrow> usb_names core slack usbs usb \<and> 2 \<le> length (usb_path usb)"
  shows "\<exists>idx. find_unused_card_for slack usage (map_option usb_name parent) (dir_entries core ctx) = Ret idx \<and>
    (if idx = - 1 then \<forall>i. wanted parent ctx i \<longrightarrow> usage ! minor_of core i \<noteq> None
     else \<exists>i. wanted parent ctx i \<and> idx = of_nat (minor_of core i) \<and> usage ! minor_of core i = None)"
proof -
  let ?p = "map_option usb_name parent"
  have entry: "e \<in> set (dir_entries core ctx) \<and> take 4 (pe_name e) = ''evdi'' \<longleftrightarrow>
      (\<exists>i<length (devices ctx). \<exists>pdev. devices ctx ! i = Some pdev \<and> e = card_entry core i pdev)" for e
    using assms(1) by (simp add: core_names_def)
  note slot = slot_read [OF assms]
  have "\<forall>e\<in>set (dir_entries core ctx). take 4 (pe_name e) = ''evdi'' \<longrightarrow>
      (\<exists>b. is_correct_parent_device slack e ?p = Ret b \<and>
        (b \<longrightarrow> 0 \<le> sint (get_drm_device_index (pe_drm e)) \<and>
             sint (get_drm_device_index (pe_drm e)) < int EVDI_USAGE_LEN))"
  proof (intro ballI impI)
    fix e
    assume "e \<in> set (dir_entries core ctx)" "take 4 (pe_name e) = ''evdi''"
    then obtain i pdev where e: "i < length (devices ctx)" "devices ctx ! i = Some pdev" "e = card_entry core i pdev"
      using entry by blast
    show "\<exists>b. is_correct_parent_device slack e ?p = Ret b \<and>
        (b \<longrightarrow> 0 \<le> sint (get_drm_device_index (pe_drm e)) \<and>
             sint (get_drm_device_index (pe_drm e)) < int EVDI_USAGE_LEN)"
      unfolding e(3) using slot [OF e(1,2)] by simp
  qed
  from find_unused_card_total [OF this, of usage] obtain idx where
    r: "find_unused_card_for slack usage ?p (dir_entries core ctx) = Ret idx" and
    none: "idx = - 1 \<Longrightarrow> \<forall>e\<in>set (dir_entries core ctx). take 4 (pe_name e) = ''evdi'' \<longrightarrow>
        is_correct_parent_device slack e ?p = Ret True \<longrightarrow>
        usage ! nat (sint (get_drm_device_index (pe_drm e))) \<noteq> None"
    by blast
  show ?thesis
  proof (cases "idx = - 1")
    case True
    have "usage ! minor_of core i \<noteq> None" if w: "wanted parent ctx i" for i
    proof -
      obtain pdev where p: "i < length (devices ctx)" "devices ctx ! i = Some pdev"
        using w by (auto simp: wanted_def)
      then have "card_entry core i pdev \<in> set (dir_entries core ctx)"
          "take 4 (pe_name (card_entry core i pdev)) = ''evdi''"
        using entry by blast+
      then have "usage ! nat (sint (get_drm_device_index (pe_drm (card_entry core i pdev)))) \<noteq> None"
        using none [OF True] slot(1) [OF p] w by simp
      then show ?thesis by (simp only: slot(2,3) [OF p] nat_int not_False_eq_True)
    qed
    then show ?thesis using r True by auto
  next
    case False
    from find_unused_card_sound [OF r False] obtain e where
      e: "e \<in> set (dir_entries core ctx)" "take 4 (pe_name e) = ''evdi''"
        "is_correct_parent_device slack e ?p = Ret True" "get_drm_device_index (pe_drm e) = idx"
        "usage ! nat (sint idx) = None"
      by blast
    obtain i pdev where p: "i < length (devices ctx)" "devices ctx ! i = Some pdev" "e = card_entry core i pdev"
      using entry e(1,2) by blast
    have "wanted parent ctx i" using slot(1) [OF p(1,2)] e(3) p(3) by simp
    moreover have x: "idx = of_nat (minor_of core i)" using slot(2) [OF p(1,2)] e(4) p(3) by simp
    moreover have "usage ! minor_of core i = None"
      using e(5) by (simp only: x slot(3) [OF p(1,2)] nat_int)
    ultimately show ?thesis using r False by auto
  qed
qed

section \<open>What a command does\<close>

text \<open>The card a command makes or lends, in slot \<open>i\<close>.\<close>

definition supplied ::
  "usb_device option \<Rightarrow> new_device \<Rightarrow> nat \<Rightarrow> evdi_platform_drv_context \<Rightarrow> evdi_platform_drv_context \<Rightarrow> bool" where
  "supplied parent env i ctx ctx' \<longleftrightarrow> i < EVDI_DEVICE_COUNT_MAX \<and>
     (case parent of
        None \<Rightarrow> devices ctx ! i = None \<and> devices ctx' = (devices ctx)[i := Some (fresh_device env)]
      | Some usb \<Rightarrow> \<exists>pdev. lend_from env i ctx pdev \<and>
          devices ctx' = (devices ctx)[i := Some (lent_to (usb_id usb) pdev)])"

definition exhausted :: "usb_device option \<Rightarrow> evdi_platform_drv_context \<Rightarrow> bool" where
  "exhausted parent ctx \<longleftrightarrow> occupied (devices ctx) = EVDI_DEVICE_COUNT_MAX \<and>
     (parent \<noteq> None \<longrightarrow>
        (\<forall>q. Some q \<in> set (devices ctx) \<longrightarrow> evdi_platform_device_is_free q = Ret False))"

definition command :: "usb_device option \<Rightarrow> string" where
  "command parent = (case parent of None \<Rightarrow> ''1'' | Some usb \<Rightarrow> usb_text (usb_path usb))"

lemma add_one_card:
  assumes "registry_ok ctx" and "good_card (envs 0)"
  shows "\<exists>r ctx'. evdi_platform_add_devices envs 1 ctx = Ret (r, ctx') \<and> registry_ok ctx' \<and>
    (ctx' = ctx \<and> exhausted None ctx \<or> (\<exists>i. supplied None (envs 0) i ctx ctx'))"
proof -
  let ?c = "evdi_platform_drv_create_new_device (envs 0) ctx"
  have "?c \<noteq> Oops"
    using assms(2) by (simp add: evdi_platform_drv_create_new_device_def evdi_platform_dev_create_def
        good_card_def split: option.splits)
  then obtain q ctx1 where c: "?c = Ret (q, ctx1)" by (metis outcome.exhaust surj_pair)
  note k = create_new_device_ok [OF assms(1) c]
  have n: "unat (dev_count ctx) = occupied (devices ctx)" "length (devices ctx) = EVDI_DEVICE_COUNT_MAX"
    using assms(1) by (simp_all add: registry_ok_def)
  show ?thesis
  proof (cases q)
    case (Inl e)
    then have e: "occupied (devices ctx) = EVDI_DEVICE_COUNT_MAX" "ctx1 = ctx" using k by simp_all
    then have "dev_count ctx = of_nat EVDI_DEVICE_COUNT_MAX" using n(1) by (simp add: word_unat_eq_iff EVDI_DEVICE_COUNT_MAX_def)
    then have "evdi_platform_add_devices envs 1 ctx = Ret (Inl EINVAL, ctx)"
      by (simp add: evdi_platform_add_devices_def)
    then show ?thesis using e assms(1) by (simp add: exhausted_def)
  next
    case (Inr i)
    then have i: "i < EVDI_DEVICE_COUNT_MAX" "devices ctx ! i = None" "registry_ok ctx1"
        "devices ctx1 = (devices ctx)[i := Some (fresh_device (envs 0))]"
      using k by (simp_all add: fresh_device_def)
    have "link_slot True None i ctx1 = Ret (Inr (), ctx1)"
      using i n(2) by (simp add: link_slot_def evdi_platform_device_link_def list_update_same_conv)
    then have a: "evdi_platform_device_add (envs 0) True None ctx = Ret (Inr (), ctx1)"
      using c Inr by (simp add: evdi_platform_device_add_def)
    have "occupied (devices ctx) < EVDI_DEVICE_COUNT_MAX"
      using occupied_le [of "devices ctx1"] i n(2) occupied_update [of i "devices ctx" "fresh_device (envs 0)"]
      by simp
    then have "\<not> of_nat EVDI_DEVICE_COUNT_MAX - dev_count ctx < 1"
      using n(1) by (auto simp: EVDI_DEVICE_COUNT_MAX_def)
    moreover have "add_devices_loop envs (unat (1 :: u32)) ctx = Ret ctx1" using a by simp
    ultimately have "evdi_platform_add_devices envs 1 ctx = Ret (Inr (), ctx1)"
      unfolding evdi_platform_add_devices_def by (simp only: if_False one_neq_zero outcome.case)
    then show ?thesis using i by (auto simp: supplied_def)
  qed
qed

lemma command_served:
  assumes "registry_ok ctx" and "all_bound ctx" and "good_card (envs 0)"
    and usb: "\<forall>usb. parent = Some usb \<longrightarrow> List.find (\<lambda>u. usb_path u = usb_path usb) usbs = Some usb \<and>
        2 \<le> length (usb_path usb) \<and> length (usb_path usb) \<le> MAX_EVDI_USB_ADDR"
  shows "\<exists>n ctx'. write_add_device True usbs envs (command parent) ctx = Ret (n, ctx') \<and> registry_ok ctx' \<and>
    (ctx' = ctx \<and> exhausted parent ctx \<or> (\<exists>i. supplied parent (envs 0) i ctx ctx'))"
proof (cases parent)
  case None
  obtain r ctx' where a: "evdi_platform_add_devices envs 1 ctx = Ret (r, ctx')" "registry_ok ctx'"
      "ctx' = ctx \<and> exhausted None ctx \<or> (\<exists>i. supplied None (envs 0) i ctx ctx')"
    using add_one_card [OF assms(1), of envs] assms(3) by blast
  have s: "strnstr (''1'' @ [NUL]) ''usb:'' (length ''1'') = Ret None"
    by (subst strnstr.simps) simp
  have k: "kstrtouint (c_string ''1'') = Some 1"
    using kstrtouint_decimal [of 1 "[]"] by (simp add: decimal.simps char_of_def bit_0 c_string_def NUL_def)
  have "\<exists>q. add_store True True usbs envs True ''1'' ctx = Ret (q, ctx')"
    unfolding add_store_def s k using a(1) by (cases r) simp_all
  then show ?thesis using a(2,3) None by (auto simp: write_add_device_def command_def)
next
  case (Some usb)
  then have u: "List.find (\<lambda>u. usb_path u = usb_path usb) usbs = Some usb" "2 \<le> length (usb_path usb)"
      "length (usb_path usb) \<le> MAX_EVDI_USB_ADDR"
    using usb by simp_all
  have "\<forall>c\<in>set []. is_white c" by simp
  note store = add_store_usb_text [OF u this, of envs True ctx, unfolded append_Nil2]
  obtain r ctx' where a: "evdi_platform_device_add (envs 0) True (Some (usb_id usb)) ctx = Ret (r, ctx')"
      and c: "case r of
         Inl e \<Rightarrow> e = EINVAL \<and> ctx' = ctx \<and> occupied (devices ctx) = EVDI_DEVICE_COUNT_MAX \<and>
           (\<forall>q. Some q \<in> set (devices ctx) \<longrightarrow> evdi_platform_device_is_free q = Ret False)
       | Inr _ \<Rightarrow> \<exists>i pdev. i < EVDI_DEVICE_COUNT_MAX \<and> lend_from (envs 0) i ctx pdev \<and>
           devices ctx' = (devices ctx)[i := Some (lent_to (usb_id usb) pdev)]"
    using device_add_lends [OF assms(1-3), of "usb_id usb"] by blast
  have "\<exists>n. write_add_device True usbs envs (command parent) ctx = Ret (n, ctx')"
    using store a Some by (simp add: write_add_device_def command_def)
  moreover have "registry_ok ctx'" by (rule device_add_ok [OF assms(1) a])
  moreover have "ctx' = ctx \<and> exhausted parent ctx \<or> (\<exists>i. supplied parent (envs 0) i ctx ctx')"
    using c Some by (cases r) (auto simp: exhausted_def supplied_def)
  ultimately show ?thesis by blast
qed

text \<open>The card supplied hangs below the device that asked, and the registry stays as the search needs it.\<close>

lemma fresh_link: "good_card env \<Longrightarrow> drvdata (fresh_device env) \<noteq> None \<and> link_of (fresh_device env) = None"
  by (auto simp: good_card_def fresh_device_def evdi_platform_device_probe_def link_of_def)

lemma lent_link: "drvdata pdev \<noteq> None \<Longrightarrow> drvdata (lent_to u pdev) \<noteq> None \<and> link_of (lent_to u pdev) = Some u"
  by (auto simp: lent_to_def link_of_def)

lemma free_bound: "evdi_platform_device_is_free pdev = Ret b \<Longrightarrow> drvdata pdev \<noteq> None"
  by (auto simp: evdi_platform_device_is_free_def split: option.splits)

lemma supplied_slot:
  assumes "supplied parent env i ctx ctx'" and "good_card env"
  obtains pdev where "devices ctx' = (devices ctx)[i := Some pdev]" "i < EVDI_DEVICE_COUNT_MAX"
    "drvdata pdev \<noteq> None" "link_of pdev = map_option usb_id parent"
    "\<And>q. devices ctx ! i = Some q \<Longrightarrow> evdi_platform_device_is_free q = Ret True"
proof (cases parent)
  case None
  then show thesis using that [of "fresh_device env"] assms fresh_link [OF assms(2)] by (simp add: supplied_def)
next
  case (Some usb)
  then obtain pdev where p: "lend_from env i ctx pdev" "i < EVDI_DEVICE_COUNT_MAX"
      "devices ctx' = (devices ctx)[i := Some (lent_to (usb_id usb) pdev)]"
    using assms(1) by (auto simp: supplied_def)
  then have "drvdata pdev \<noteq> None"
    using fresh_link [OF assms(2)] free_bound by (auto simp: lend_from_def split: option.splits)
  then show thesis
    using that [OF p(3,2)] lent_link Some p(1) by (auto simp: lend_from_def split: option.splits)
qed

section \<open>A request\<close>

text \<open>The path given for a parent, and what is asked of the parent and of the names of the system.\<close>

definition path_of :: "usb_device option \<Rightarrow> string option" where
  "path_of parent = map_option (\<lambda>usb. usb_text (usb_path usb)) parent"

definition plugged_in :: "driver_core \<Rightarrow> nat \<Rightarrow> usb_device list \<Rightarrow> usb_device \<Rightarrow> bool" where
  "plugged_in core slack usbs usb \<longleftrightarrow> usb_names core slack usbs usb \<and>
     List.find (\<lambda>u. usb_path u = usb_path usb) usbs = Some usb \<and>
     2 \<le> length (usb_path usb) \<and> length (usb_path usb) \<le> MAX_EVDI_USB_ADDR"

definition system_ok ::
  "driver_core \<Rightarrow> nat \<Rightarrow> usb_device list \<Rightarrow> new_device \<Rightarrow> usb_device option \<Rightarrow>
     evdi_platform_drv_context \<Rightarrow> bool" where
  "system_ok core slack usbs env parent ctx \<longleftrightarrow>
     core_names core \<and> registry_ok ctx \<and> all_bound ctx \<and> links_present usbs ctx \<and> good_card env \<and>
     (\<forall>usb. parent = Some usb \<longrightarrow> plugged_in core slack usbs usb)"

lemma wanted_card_find:
  assumes "\<forall>usb. parent = Some usb \<longrightarrow> plugged_in core slack usbs usb"
  shows "wanted_card slack usage (path_of parent) before after
    = find_or_add slack usage (map_option usb_name parent) (command parent) before after"
proof (cases parent)
  case None
  then show ?thesis by (simp add: wanted_card_def path_of_def get_generic_device_def command_def)
next
  case (Some usb)
  let ?t = "usb_text (usb_path usb)"
  have "2 \<le> length (usb_name usb)"
    by (rule usb_name_long) (use assms Some in \<open>simp add: plugged_in_def\<close>)
  then have "4 < length ?t" by (simp add: usb_name_def)
  moreover have "take 4 ?t = ''usb:''" by (simp add: usb_text_def)
  ultimately show ?thesis
    using Some by (simp add: wanted_card_def path_of_def get_device_attached_to_usb_def command_def usb_name_def)
qed

lemma system_after:
  assumes ok: "system_ok core slack usbs env parent ctx" and "registry_ok ctx'"
    and c: "ctx' = ctx \<or> supplied parent env i ctx ctx'"
  shows "system_ok core slack usbs env parent ctx'"
  using c
proof
  assume "supplied parent env i ctx ctx'"
  then obtain pdev where p: "devices ctx' = (devices ctx)[i := Some pdev]" "drvdata pdev \<noteq> None"
      "link_of pdev = map_option usb_id parent"
    by (rule supplied_slot) (use ok in \<open>simp add: system_ok_def\<close>)
  have sub: "q = pdev \<or> Some q \<in> set (devices ctx)" if "Some q \<in> set (devices ctx')" for q
    using that set_update_subset_insert [of "devices ctx" i "Some pdev"] unfolding p(1) by blast
  have "all_bound ctx'" using sub p(2) ok by (auto simp: all_bound_def system_ok_def)
  moreover have "usb_id usb \<in> usb_id ` set usbs" if "parent = Some usb" for usb
    using ok that by (auto simp: system_ok_def plugged_in_def find_Some_iff)
  then have "links_present usbs ctx'"
    using sub p(3) ok unfolding links_present_def system_ok_def by (metis map_option_eq_Some option.inject)
  ultimately show ?thesis using ok assms(2) by (simp add: system_ok_def)
qed (use ok in simp)

lemma request_card_served:
  assumes ok: "system_ok core slack usbs (envs 0) parent ctx"
  shows "\<exists>idx ctx'. request_card slack core True usbs envs usage (path_of parent) ctx = Ret (idx, ctx') \<and>
    (if idx = - 1
     then (\<forall>i. wanted parent ctx' i \<longrightarrow> usage ! minor_of core i \<noteq> None) \<and>
       (ctx' = ctx \<and> exhausted parent ctx \<or> (\<exists>i. supplied parent (envs 0) i ctx ctx'))
     else (\<exists>i. wanted parent ctx' i \<and> idx = of_nat (minor_of core i) \<and> usage ! minor_of core i = None) \<and>
       (ctx' = ctx \<or> (\<exists>i. supplied parent (envs 0) i ctx ctx') \<and>
          (\<forall>i. wanted parent ctx i \<longrightarrow> usage ! minor_of core i \<noteq> None)))"
proof -
  have par: "\<forall>usb. parent = Some usb \<longrightarrow> plugged_in core slack usbs usb" using ok by (simp add: system_ok_def)
  note w = wanted_card_find [OF par]
  have search: "\<exists>idx. find_unused_card_for slack usage (map_option usb_name parent) (dir_entries core c) = Ret idx \<and>
      (if idx = - 1 then \<forall>i. wanted parent c i \<longrightarrow> usage ! minor_of core i \<noteq> None
       else \<exists>i. wanted parent c i \<and> idx = of_nat (minor_of core i) \<and> usage ! minor_of core i = None)"
    if "system_ok core slack usbs (envs 0) parent c" for c
    by (rule search_finds_card [where usbs = usbs]) (use that in \<open>simp_all add: system_ok_def plugged_in_def\<close>)
  obtain idx where b: "find_unused_card_for slack usage (map_option usb_name parent) (dir_entries core ctx) = Ret idx"
      "if idx = - 1 then \<forall>i. wanted parent ctx i \<longrightarrow> usage ! minor_of core i \<noteq> None
       else \<exists>i. wanted parent ctx i \<and> idx = of_nat (minor_of core i) \<and> usage ! minor_of core i = None"
    using search [OF ok] by blast
  show ?thesis
  proof (cases "idx = - 1")
    case False
    then have "request_card slack core True usbs envs usage (path_of parent) ctx = Ret (idx, ctx)"
      using b(1) by (simp add: request_card_def w find_or_add_def)
    then show ?thesis using False b(2) by auto
  next
    case True
    obtain n ctx' where c: "write_add_device True usbs envs (command parent) ctx = Ret (n, ctx')" "registry_ok ctx'"
        "ctx' = ctx \<and> exhausted parent ctx \<or> (\<exists>i. supplied parent (envs 0) i ctx ctx')"
      using command_served [of ctx envs parent usbs] ok par by (auto simp: system_ok_def plugged_in_def)
    have "system_ok core slack usbs (envs 0) parent ctx'"
      using system_after [OF ok c(2)] c(3) by blast
    from search [OF this] obtain idx2 where
      d: "find_unused_card_for slack usage (map_option usb_name parent) (dir_entries core ctx') = Ret idx2"
        "if idx2 = - 1 then \<forall>i. wanted parent ctx' i \<longrightarrow> usage ! minor_of core i \<noteq> None
         else \<exists>i. wanted parent ctx' i \<and> idx2 = of_nat (minor_of core i) \<and> usage ! minor_of core i = None"
      by blast
    have "request_card slack core True usbs envs usage (path_of parent) ctx = Ret (idx2, ctx')"
      using b(1) True c(1) d(1) by (simp add: request_card_def w find_or_add_def)
    then show ?thesis using b(2) True c(3) d(2) by (auto split: if_splits)
  qed
qed

lemma wanted_supplied:
  assumes "supplied parent env i ctx ctx'" and "good_card env" and "length (devices ctx) = EVDI_DEVICE_COUNT_MAX"
  shows "wanted parent ctx' i"
  by (rule supplied_slot [OF assms(1,2)]) (simp add: wanted_def assms(3))

lemma evdi_open_result:
  assumes "0 \<le> sint idx" and "sint idx < int EVDI_USAGE_LEN"
  shows "\<exists>r lib'. evdi_open attempts v1 v2 fresh idx lib = Ret (r, lib') \<and>
    (\<forall>h. r = Some h \<longrightarrow> card_usage lib' = (card_usage lib)[nat (sint idx) := Some h] \<and>
       map_option device_index (handles lib' h) = Some idx)"
  using assms
  by (cases "open_device attempts"; cases fresh) (simp_all add: evdi_open_def Let_def)

lemma open_card_served:
  assumes "system_ok core slack usbs (envs 0) parent ctx"
  shows "\<exists>r lib' ctx'.
    open_card slack core True usbs envs attempts v1 v2 fresh (path_of parent) (lib, ctx) = Ret (r, lib', ctx') \<and>
    (ctx' = ctx \<or> (\<exists>i. supplied parent (envs 0) i ctx ctx')) \<and>
    (case r of
       Some h \<Rightarrow> \<exists>i. wanted parent ctx' i \<and> card_usage lib ! minor_of core i = None \<and>
         card_usage lib' = (card_usage lib)[minor_of core i := Some h] \<and>
         map_option device_index (handles lib' h) = Some (of_nat (minor_of core i))
     | None \<Rightarrow> lib' = lib \<and> ctx' = ctx \<and> exhausted parent ctx \<or>
         lib' = lib \<and> (\<forall>i. wanted parent ctx' i \<longrightarrow> card_usage lib ! minor_of core i \<noteq> None) \<and>
           (\<exists>i. supplied parent (envs 0) i ctx ctx') \<or>
         (\<exists>i. wanted parent ctx' i \<and>
            evdi_open attempts v1 v2 fresh (of_nat (minor_of core i)) lib = Ret (None, lib')))"
proof -
  obtain idx ctx' where
    r: "request_card slack core True usbs envs (card_usage lib) (path_of parent) ctx = Ret (idx, ctx')" and
    c: "if idx = - 1
     then (\<forall>i. wanted parent ctx' i \<longrightarrow> card_usage lib ! minor_of core i \<noteq> None) \<and>
       (ctx' = ctx \<and> exhausted parent ctx \<or> (\<exists>i. supplied parent (envs 0) i ctx ctx'))
     else (\<exists>i. wanted parent ctx' i \<and> idx = of_nat (minor_of core i) \<and> card_usage lib ! minor_of core i = None) \<and>
       (ctx' = ctx \<or> (\<exists>i. supplied parent (envs 0) i ctx ctx') \<and>
          (\<forall>i. wanted parent ctx i \<longrightarrow> card_usage lib ! minor_of core i \<noteq> None))"
    using request_card_served [where envs = envs, OF assms, of "card_usage lib"] by blast
  show ?thesis
  proof (cases "idx = - 1")
    case True
    then show ?thesis using r c by (auto simp: open_card_def)
  next
    case False
    then obtain i where i: "wanted parent ctx' i" "idx = of_nat (minor_of core i)"
        "card_usage lib ! minor_of core i = None" "ctx' = ctx \<or> (\<exists>i. supplied parent (envs 0) i ctx ctx')"
      using c by auto
    have m: "minor_of core i < 64" using assms by (simp add: system_ok_def core_names_def EVDI_USAGE_LEN_def)
    have s: "sint idx = int (minor_of core i)" unfolding i(2) by (rule sint_of_small) (use m in simp)
    obtain r lib' where e: "evdi_open attempts v1 v2 fresh idx lib = Ret (r, lib')"
        "\<forall>h. r = Some h \<longrightarrow> card_usage lib' = (card_usage lib)[nat (sint idx) := Some h] \<and>
           map_option device_index (handles lib' h) = Some idx"
      using evdi_open_result [of idx attempts v1 v2 fresh lib] s m by (auto simp: EVDI_USAGE_LEN_def)
    have "open_card slack core True usbs envs attempts v1 v2 fresh (path_of parent) (lib, ctx) = Ret (r, lib', ctx')"
      using r e(1) s m by (simp add: open_card_def EVDI_USAGE_LEN_def)
    moreover have "\<exists>i. wanted parent ctx' i \<and> card_usage lib ! minor_of core i = None \<and>
        card_usage lib' = (card_usage lib)[minor_of core i := Some h] \<and>
        map_option device_index (handles lib' h) = Some (of_nat (minor_of core i))" if "r = Some h" for h
      using e(2) i(1-3) s that by (intro exI [of _ i]) simp
    moreover have "evdi_open attempts v1 v2 fresh (of_nat (minor_of core i)) lib = Ret (r, lib')"
      using e(1) i(2) by simp
    ultimately show ?thesis
      using i(1,4) by (intro exI [of _ r] exI [of _ lib'] exI [of _ ctx'] conjI) (simp_all split: option.split, blast)
  qed
qed

section \<open>Properties\<close>


text \<open>
  C25: when the only free cards are those the process itself has open without having connected a client,
  the driver lends one of them to the USB device, although slots are empty, and the library then finds no
  card for the device: the request fails, and a card of the process is linked with the device.
\<close>

theorem idle_card_is_lent:
  assumes "system_ok core slack usbs (envs 0) (Some usb) ctx"
    and "\<forall>i<EVDI_DEVICE_COUNT_MAX. \<forall>pdev. devices ctx ! i = Some pdev \<longrightarrow>
      evdi_platform_device_is_free pdev = Ret True \<longrightarrow> usage ! minor_of core i \<noteq> None"
    and "i0 < EVDI_DEVICE_COUNT_MAX" and "devices ctx ! i0 = Some pdev0"
    and "evdi_platform_device_is_free pdev0 = Ret True" and "\<forall>i. \<not> wanted (Some usb) ctx i"
  shows "\<exists>ctx' i pdev. request_card slack core True usbs envs usage (path_of (Some usb)) ctx = Ret (- 1, ctx') \<and>
    i < EVDI_DEVICE_COUNT_MAX \<and> devices ctx ! i = Some pdev \<and> usage ! minor_of core i \<noteq> None \<and>
    devices ctx' = (devices ctx)[i := Some (lent_to (usb_id usb) pdev)]"
proof -
  let ?P = "Some usb"
  have len: "length (devices ctx) = EVDI_DEVICE_COUNT_MAX" using assms(1) by (simp add: system_ok_def registry_ok_def)
  have some_free: "Some pdev0 \<in> set (devices ctx)" using nth_mem [of i0 "devices ctx"] assms(3,4) len by simp
  have taken: "\<exists>pdev. devices ctx ! i = Some pdev \<and> i < EVDI_DEVICE_COUNT_MAX \<and> usage ! minor_of core i \<noteq> None \<and>
      devices ctx' = (devices ctx)[i := Some (lent_to (usb_id usb) pdev)] \<and> (\<forall>j. wanted ?P ctx' j \<longrightarrow> j = i)"
    if sup: "supplied ?P (envs 0) i ctx ctx'" for i ctx'
  proof -
    obtain pdev where p: "lend_from (envs 0) i ctx pdev" "i < EVDI_DEVICE_COUNT_MAX"
        "devices ctx' = (devices ctx)[i := Some (lent_to (usb_id usb) pdev)]"
      using sup by (auto simp: supplied_def)
    have "devices ctx ! i = Some pdev \<and> evdi_platform_device_is_free pdev = Ret True"
      using p(1) some_free assms(5) by (force simp: lend_from_def split: option.splits)
    moreover have "\<forall>j. wanted ?P ctx' j \<longrightarrow> j = i"
    proof (intro allI impI, rule ccontr)
      fix j
      assume "wanted ?P ctx' j" "j \<noteq> i"
      then have "wanted ?P ctx j" by (simp add: wanted_def p(3))
      then show False using assms(6) by simp
    qed
    ultimately show ?thesis using p assms(2) by blast
  qed
  obtain idx ctx' where
    r: "request_card slack core True usbs envs usage (path_of ?P) ctx = Ret (idx, ctx')" and
    c: "if idx = - 1
     then (\<forall>i. wanted ?P ctx' i \<longrightarrow> usage ! minor_of core i \<noteq> None) \<and>
       (ctx' = ctx \<and> exhausted ?P ctx \<or> (\<exists>i. supplied ?P (envs 0) i ctx ctx'))
     else (\<exists>i. wanted ?P ctx' i \<and> idx = of_nat (minor_of core i) \<and> usage ! minor_of core i = None) \<and>
       (ctx' = ctx \<or> (\<exists>i. supplied ?P (envs 0) i ctx ctx') \<and>
          (\<forall>i. wanted ?P ctx i \<longrightarrow> usage ! minor_of core i \<noteq> None))"
    using request_card_served [where envs = envs, OF assms(1), of usage] by blast
  have full: "\<not> exhausted ?P ctx" using some_free assms(5) by (auto simp: exhausted_def)
  have failed: "idx = - 1"
  proof (rule ccontr)
    assume "idx \<noteq> - 1"
    with c obtain j where j: "wanted ?P ctx' j" "usage ! minor_of core j = None"
        "ctx' = ctx \<or> (\<exists>i. supplied ?P (envs 0) i ctx ctx')"
      by (simp only: if_False) blast
    have "ctx' \<noteq> ctx" using j(1) assms(6) by auto
    then obtain i where "supplied ?P (envs 0) i ctx ctx'" using j(3) by blast
    from taken [OF this] have "usage ! minor_of core i \<noteq> None \<and> (\<forall>j. wanted ?P ctx' j \<longrightarrow> j = i)"
      by (elim exE conjE) (intro conjI)
    moreover from this have "j = i" using j(1) by (elim conjE allE [of _ j] impE)
    ultimately show False using j(2) by simp
  qed
  with c have "ctx' = ctx \<and> exhausted ?P ctx \<or> (\<exists>i. supplied ?P (envs 0) i ctx ctx')"
    by (simp only: if_True)
  then obtain i where "supplied ?P (envs 0) i ctx ctx'" using full by blast
  from taken [OF this] show ?thesis
    by (elim exE conjE) (rule exI [of _ ctx'], intro exI conjI, rule r [unfolded failed])
qed

text \<open>
  The quick start guide asks for a card with no parent through the deprecated function, whose length is
  then that of a NULL pointer; the newer function serves the same request.
\<close>

theorem open_attached_to_NULL:
  assumes "system_ok core slack usbs (envs 0) None ctx"
  shows "evdi_open_attached_to slack core True usbs envs attempts v1 v2 fresh None (lib, ctx) = Oops"
    and "open_card slack core True usbs envs attempts v1 v2 fresh None (lib, ctx) \<noteq> Oops"
proof -
  show "evdi_open_attached_to slack core True usbs envs attempts v1 v2 fresh None (lib, ctx) = Oops"
    by (simp add: evdi_open_attached_to_def)
  show "open_card slack core True usbs envs attempts v1 v2 fresh None (lib, ctx) \<noteq> Oops"
    using open_card_served [where envs = envs, OF assms, of attempts v1 v2 fresh lib] by (auto simp: path_of_def)
qed

text \<open>
  Adding a card gives one as the result whether or not there was an empty slot for it.
\<close>

theorem add_device_result:
  assumes "registry_ok ctx" and "all_bound ctx" and "good_card (envs 0)"
  shows "\<exists>ctx'. evdi_add_device True usbs envs ctx = Ret (1, ctx') \<and>
    (if occupied (devices ctx) = EVDI_DEVICE_COUNT_MAX then ctx' = ctx
     else \<exists>i. supplied None (envs 0) i ctx ctx')"
proof -
  obtain n ctx' where w: "write_add_device True usbs envs ''1'' ctx = Ret (n, ctx')"
      and c: "ctx' = ctx \<and> exhausted None ctx \<or> (\<exists>i. supplied None (envs 0) i ctx ctx')"
    using command_served [of ctx envs None usbs] assms by (auto simp: command_def)
  have "n = 1" using w by (auto simp: write_add_device_def map_outcome_Ret)
  moreover have "None \<in> set (devices ctx)" if "supplied None (envs 0) i ctx ctx'" for i
    using that assms(1) nth_mem [of i "devices ctx"] by (simp add: supplied_def registry_ok_def)
  moreover have "None \<notin> set (devices ctx)" if "occupied (devices ctx) = EVDI_DEVICE_COUNT_MAX"
    using that assms(1) length_filter_less [of None "devices ctx" "\<lambda>d. d \<noteq> None"]
    by (auto simp: occupied_def registry_ok_def)
  ultimately show ?thesis using w c by (auto simp: evdi_add_device_def exhausted_def)
qed

section \<open>A concrete system\<close>

text \<open>A hub and a device below it, the cards numbered as their slots.\<close>

definition sample_core :: driver_core where
  "sample_core =
     (let base = \<lparr>dev_name = (\<lambda>i. ''evdi.'' @ decimal i), minor_of = (\<lambda>i. i mod 64),
                  usb_link = (\<lambda>u. if u = 5 then ''../1-4.2'' else ''../usb1''), dir_entries = (\<lambda>_. [])\<rparr>
      in base\<lparr>dir_entries := (\<lambda>ctx. map (\<lambda>i. card_entry base i (the (devices ctx ! i)))
           (filter (\<lambda>i. devices ctx ! i \<noteq> None) [0..<length (devices ctx)]))\<rparr>)"

lemma sample_core_names: "core_names sample_core"
proof -
  have "card_entry (c\<lparr>dir_entries := f\<rparr>) i pdev = card_entry c i pdev" for c f i pdev
    by (simp add: card_entry_def)
  then show ?thesis
    by (force simp: core_names_def sample_core_def Let_def EVDI_USAGE_LEN_def card_entry_def)
qed

lemma sample_plugged_in: "plugged_in sample_core 4096 [sample_hub, sample_usb] sample_usb"
proof -
  have t: "usb_text [1, 4, 2] = ''usb:1-4.2''" by (simp add: usb_text_def decimal.simps char_of_def bit_0)
  have n: "usb_name sample_usb = ''1-4.2''" by (simp add: usb_name_def sample_usb_path t)
  have l: "usb_link sample_core 5 = ''../1-4.2''" "usb_link sample_core 0 = ''../usb1''"
    by (simp_all add: sample_core_def Let_def)
  have s: "after_slash ''../1-4.2'' = Some ''1-4.2''" "after_slash ''../usb1'' = Some ''usb1''"
    by (simp_all add: after_slash_def)
  have u: "usb_id sample_usb = 5" "usb_id sample_hub = 0" by (simp_all add: sample_usb_def sample_hub_def)
  have "List.find (\<lambda>u. usb_path u = usb_path sample_usb) [sample_hub, sample_usb] = Some sample_usb"
    by (simp add: sample_usb_path) (simp add: sample_hub_def)
  then show ?thesis
    by (simp add: plugged_in_def usb_names_def u l s n sample_usb_path MAX_EVDI_USB_ADDR_def)
qed

lemma sample_system:
  "system_ok sample_core 4096 [sample_hub, sample_usb] sample_new (Some sample_usb) empty_registry"
  by (simp add: system_ok_def sample_core_names sample_plugged_in sample_new_good empty_registry_ok)
    (simp add: links_present_def empty_registry_def)


definition idle_registry :: evdi_platform_drv_context where
  "idle_registry = \<lparr>dev_count = 1, devices = (replicate 16 None)[0 := Some (fresh_device sample_new)]\<rparr>"

lemma idle_slots: "i < 16 \<Longrightarrow> devices idle_registry ! i = (if i = 0 then Some (fresh_device sample_new) else None)"
  by (simp add: idle_registry_def nth_list_update)

lemma idle_system:
  "system_ok sample_core 4096 [sample_hub, sample_usb] sample_new (Some sample_usb) idle_registry"
proof -
  have d: "drvdata (fresh_device sample_new) \<noteq> None" "link_of (fresh_device sample_new) = None"
    using fresh_link [OF sample_new_good] by simp_all
  have s: "pdev = fresh_device sample_new" if "Some pdev \<in> set (devices idle_registry)" for pdev
    using that by (auto simp: idle_registry_def dest!: set_update_subset_insert [THEN subsetD])
  have "occupied (replicate n None) = 0" for n by (induction n) simp_all
  then have "registry_ok idle_registry"
    using s create_new_slot_ok
    by (auto simp: registry_ok_def idle_registry_def occupied_update EVDI_DEVICE_COUNT_MAX_def
        simp del: list_update_code)
  moreover have "all_bound idle_registry" "links_present usbs idle_registry" for usbs
    using s d by (auto simp: all_bound_def links_present_def)
  ultimately show ?thesis by (simp add: system_ok_def sample_core_names sample_plugged_in sample_new_good)
qed

theorem idle_card_is_lent_witness:
  "\<exists>ctx'. request_card 4096 sample_core True [sample_hub, sample_usb] (\<lambda>_. sample_new)
      ((replicate 64 None)[0 := Some 7]) (path_of (Some sample_usb)) idle_registry = Ret (- 1, ctx') \<and>
    devices ctx' ! 0 = Some (lent_to 5 (fresh_device sample_new))"
proof -
  let ?usage = "(replicate 64 None)[0 := Some 7] :: nat option list"
  have m: "minor_of sample_core 0 = 0" by (simp add: sample_core_def Let_def)
  have len: "length (devices idle_registry) = 16" by (simp add: idle_registry_def)
  have used: "\<forall>i<EVDI_DEVICE_COUNT_MAX. \<forall>pdev. devices idle_registry ! i = Some pdev \<longrightarrow>
      evdi_platform_device_is_free pdev = Ret True \<longrightarrow> ?usage ! minor_of sample_core i \<noteq> None"
    by (auto simp: idle_slots EVDI_DEVICE_COUNT_MAX_def m)
  have none: "\<forall>i. \<not> wanted (Some sample_usb) idle_registry i"
    using fresh_link [OF sample_new_good] by (auto simp: wanted_def len idle_slots)
  have zero: "0 < EVDI_DEVICE_COUNT_MAX" by (simp add: EVDI_DEVICE_COUNT_MAX_def)
  have u: "usb_id sample_usb = 5" by (simp add: sample_usb_def)
  obtain ctx' i pdev where r: "request_card 4096 sample_core True [sample_hub, sample_usb] (\<lambda>_. sample_new)
        ?usage (path_of (Some sample_usb)) idle_registry = Ret (- 1, ctx')"
      and p: "i < EVDI_DEVICE_COUNT_MAX" "devices idle_registry ! i = Some pdev"
        "devices ctx' = (devices idle_registry)[i := Some (lent_to (usb_id sample_usb) pdev)]"
    using idle_card_is_lent [where envs = "\<lambda>_. sample_new", OF idle_system used zero _
        fresh_device_free [OF sample_new_good] none] idle_slots [of 0] by auto
  have "i = 0" "pdev = fresh_device sample_new"
    using p(1,2) by (auto simp: EVDI_DEVICE_COUNT_MAX_def idle_slots split: if_splits)
  then have "devices ctx' ! 0 = Some (lent_to 5 (fresh_device sample_new))" using p(3) len u by simp
  with r show ?thesis by blast
qed

theorem add_device_result_witness:
  "\<exists>ctx' i. evdi_add_device True [] (\<lambda>_. sample_new) empty_registry = Ret (1, ctx') \<and>
     supplied None sample_new i empty_registry ctx'"
  using add_device_result [of empty_registry "\<lambda>_. sample_new" "[]"] empty_registry_ok sample_new_good
  by (auto simp: empty_registry_occupied EVDI_DEVICE_COUNT_MAX_def)

end
