(* ===== verification/Evdi_Drm.thy ===== *)
theory Evdi_Drm
  imports Evdi_Painter
begin

text \<open>
  Making and removing a card, \<open>module/evdi_drm_drv.c\<close>, with the framebuffer device it carries,
  \<open>module/evdi_fb.c\<close>: the order in which the parts of a card are allocated and freed, on every path. What
  the parts hold is the business of the other theories; here they are blocks of memory.
\<close>

section \<open>Blocks of memory\<close>

text \<open>
  The private data of the card, its painter, its cursor and its framebuffer device, and which of them
  are allocated. A read through NULL, or of a block that is freed, and freeing it again, is an \<open>Oops\<close>.
\<close>

datatype block = EvdiBlock | PainterBlock | CursorBlock | FbdevBlock

text \<open>
  \<open>dev_private\<close> says that the card has its data, the next three which pointers in it are set;
  \<open>vt_notifier\<close> that the painter is on the list of the console's notifiers; \<open>release_action\<close> that the
  release callback is to be run when the card goes.
\<close>

record drm_dev =
  live :: "block set"
  dev_private :: bool
  painter_ptr :: bool
  cursor_ptr :: bool
  fbdev_ptr :: bool
  vt_notifier :: bool
  release_action :: bool

definition uses :: "block \<Rightarrow> drm_dev \<Rightarrow> 'a outcome \<Rightarrow> 'a outcome" where
  "uses b dev x = (if b \<in> live dev then x else Oops)"

definition kfree :: "block \<Rightarrow> drm_dev \<Rightarrow> drm_dev outcome" where
  "kfree b dev = (if b \<in> live dev then Ret (dev\<lparr>live := live dev - {b}\<rparr>) else Oops)"

text \<open>\<open>kfree\<close> and the like of a pointer that may be NULL.\<close>

definition kfree_ptr :: "bool \<Rightarrow> block \<Rightarrow> drm_dev \<Rightarrow> drm_dev outcome" where
  "kfree_ptr there b dev = (if there then kfree b dev else Ret dev)"

definition bind_outcome :: "'a outcome \<Rightarrow> ('a \<Rightarrow> 'b outcome) \<Rightarrow> 'b outcome" where
  "bind_outcome x f = (case x of Oops \<Rightarrow> Oops | Ret y \<Rightarrow> f y)"

lemma bind_outcome_simps [simp]: "bind_outcome Oops f = Oops" "bind_outcome (Ret y) f = f y"
  by (simp_all add: bind_outcome_def)

text \<open>How the allocations and the calls of the DRM core end.\<close>

record card_env =
  dev_alloc :: "unit result"
  kz_evdi :: bool
  kz_painter :: bool
  kz_cursor :: bool
  kz_fbdev :: bool
  fb_helper_init :: "unit result"
  fb_initial_config :: "unit result"
  vblank_init :: "unit result"
  add_action :: "unit result"
  dev_register :: "unit result"

section \<open>The framebuffer device\<close>

definition evdi_fbdev_init :: "card_env \<Rightarrow> drm_dev \<Rightarrow> (unit result \<times> drm_dev) outcome" where
  "evdi_fbdev_init env dev =
     (if \<not> dev_private dev then Oops
      else if \<not> kz_fbdev env then Ret (Inl ENOMEM, dev)
      else uses EvdiBlock dev
        (let dev1 = dev\<lparr>live := insert FbdevBlock (live dev), fbdev_ptr := True\<rparr>
         in case fb_helper_init env of
             Inl e \<Rightarrow> bind_outcome (kfree FbdevBlock dev1) (\<lambda>dev2. Ret (Inl e, dev2))
           | Inr _ \<Rightarrow>
               (case fb_initial_config env of
                  Inl e \<Rightarrow> bind_outcome (kfree FbdevBlock dev1) (\<lambda>dev2. Ret (Inl e, dev2))
                | Inr _ \<Rightarrow> Ret (Inr (), dev1))))"

definition evdi_fbdev_cleanup :: "drm_dev \<Rightarrow> drm_dev outcome" where
  "evdi_fbdev_cleanup dev =
     (if \<not> dev_private dev then Oops
      else uses EvdiBlock dev
        (if \<not> fbdev_ptr dev then Ret dev
         else uses FbdevBlock dev
           (bind_outcome (kfree FbdevBlock dev) (\<lambda>dev1. Ret (dev1\<lparr>fbdev_ptr := False\<rparr>)))))"

definition evdi_fbdev_unplug :: "drm_dev \<Rightarrow> drm_dev outcome" where
  "evdi_fbdev_unplug dev =
     (if \<not> dev_private dev then Oops
      else uses EvdiBlock dev (if \<not> fbdev_ptr dev then Ret dev else uses FbdevBlock dev (Ret dev)))"

section \<open>Making a card\<close>

text \<open>The painter puts itself on the notifiers' list; the cursor has nothing to register.\<close>

definition painter_init :: "card_env \<Rightarrow> drm_dev \<Rightarrow> unit result \<times> drm_dev" where
  "painter_init env dev =
     (if kz_painter env
      then (Inr (), dev\<lparr>live := insert PainterBlock (live dev), painter_ptr := True, vt_notifier := True\<rparr>)
      else (Inl ENOMEM, dev))"

definition cursor_init :: "card_env \<Rightarrow> drm_dev \<Rightarrow> unit result \<times> drm_dev" where
  "cursor_init env dev =
     (if kz_cursor env
      then (Inr (), dev\<lparr>live := insert CursorBlock (live dev), cursor_ptr := True\<rparr>)
      else (Inl ENOMEM, dev))"

text \<open>The painter's own clean-up, which takes it off the list before it frees it.\<close>

definition painter_cleanup :: "drm_dev \<Rightarrow> drm_dev outcome" where
  "painter_cleanup dev =
     (if \<not> painter_ptr dev then Ret dev
      else uses PainterBlock dev (kfree PainterBlock (dev\<lparr>vt_notifier := False\<rparr>)))"

definition device_release_cb :: "drm_dev \<Rightarrow> drm_dev outcome" where
  "device_release_cb dev =
     (if \<not> dev_private dev then Oops
      else uses EvdiBlock dev
        (bind_outcome (kfree_ptr (cursor_ptr dev) CursorBlock dev) (\<lambda>dev1.
         bind_outcome (painter_cleanup dev1) (\<lambda>dev2.
         bind_outcome (kfree EvdiBlock dev2) (\<lambda>dev3. Ret (dev3\<lparr>dev_private := False\<rparr>))))))"

text \<open>The error path at \<open>err_free\<close>, which frees the painter without its clean-up.\<close>

definition err_free :: "errno \<Rightarrow> drm_dev \<Rightarrow> (unit result \<times> drm_dev) outcome" where
  "err_free e dev =
     uses EvdiBlock dev
       (bind_outcome (kfree_ptr (cursor_ptr dev) CursorBlock dev) (\<lambda>dev1.
        bind_outcome (kfree_ptr (painter_ptr dev) PainterBlock dev1) (\<lambda>dev2.
        bind_outcome (kfree EvdiBlock dev2) (\<lambda>dev3. Ret (Inl e, dev3\<lparr>dev_private := False\<rparr>)))))"

definition err_init :: "errno \<Rightarrow> drm_dev \<Rightarrow> (unit result \<times> drm_dev) outcome" where
  "err_init e dev = bind_outcome (evdi_fbdev_cleanup dev) (err_free e)"

text \<open>When the action cannot be added, the core runs it at once.\<close>

definition drmm_add_action_or_reset :: "card_env \<Rightarrow> drm_dev \<Rightarrow> (unit result \<times> drm_dev) outcome" where
  "drmm_add_action_or_reset env dev =
     (case add_action env of
        Inr _ \<Rightarrow> Ret (Inr (), dev\<lparr>release_action := True\<rparr>)
      | Inl e \<Rightarrow> bind_outcome (device_release_cb dev) (\<lambda>dev1. Ret (Inl e, dev1)))"

definition evdi_drm_device_init :: "card_env \<Rightarrow> drm_dev \<Rightarrow> (unit result \<times> drm_dev) outcome" where
  "evdi_drm_device_init env dev =
     (if \<not> kz_evdi env then Ret (Inl ENOMEM, dev)
      else
        let dev0 = dev\<lparr>live := insert EvdiBlock (live dev), dev_private := True, painter_ptr := False,
                       cursor_ptr := False, fbdev_ptr := False\<rparr>;
            (r1, dev1) = painter_init env dev0;
            (r2, dev2) = cursor_init env dev1
        in case r1 of
            Inl e \<Rightarrow> err_free e dev1
          | Inr _ \<Rightarrow>
              (case r2 of
                 Inl e \<Rightarrow> err_free e dev2
               | Inr _ \<Rightarrow>
                   bind_outcome (evdi_fbdev_init env dev2) (\<lambda>(r3, dev3).
                     case r3 of
                       Inl e \<Rightarrow> err_init e dev3
                     | Inr _ \<Rightarrow>
                         (case vblank_init env of
                            Inl e \<Rightarrow> err_init e dev3
                          | Inr _ \<Rightarrow>
                              bind_outcome (drmm_add_action_or_reset env dev3) (\<lambda>(r4, dev4).
                                case r4 of Inl e \<Rightarrow> err_init e dev4 | Inr _ \<Rightarrow> Ret (Inr (), dev4))))))"

definition new_dev :: drm_dev where
  "new_dev = \<lparr>live = {}, dev_private = False, painter_ptr = False, cursor_ptr = False, fbdev_ptr = False,
     vt_notifier = False, release_action = False\<rparr>"

text \<open>The last reference to the card is dropped: the core runs the action that was added.\<close>

definition drm_dev_put :: "drm_dev \<Rightarrow> drm_dev outcome" where
  "drm_dev_put dev = (if release_action dev then device_release_cb dev else Ret dev)"

definition evdi_drm_device_create :: "card_env \<Rightarrow> (unit result \<times> drm_dev) outcome" where
  "evdi_drm_device_create env =
     (case dev_alloc env of
        Inl e \<Rightarrow> Ret (Inl e, new_dev)
      | Inr _ \<Rightarrow>
          bind_outcome (evdi_drm_device_init env new_dev) (\<lambda>(r, dev).
            case r of
              Inl e \<Rightarrow> bind_outcome (drm_dev_put dev) (\<lambda>dev1. Ret (Inl e, dev1))
            | Inr _ \<Rightarrow>
                (case dev_register env of
                   Inl e \<Rightarrow> bind_outcome (drm_dev_put dev) (\<lambda>dev1. Ret (Inl e, dev1))
                 | Inr _ \<Rightarrow> Ret (Inr (), dev))))"

section \<open>Removing a card\<close>

definition evdi_drm_device_deinit :: "drm_dev \<Rightarrow> drm_dev outcome" where
  "evdi_drm_device_deinit dev = bind_outcome (evdi_fbdev_unplug dev) evdi_fbdev_cleanup"

definition evdi_drm_device_remove :: "drm_dev \<Rightarrow> drm_dev outcome" where
  "evdi_drm_device_remove dev = bind_outcome (evdi_drm_device_deinit dev) drm_dev_put"

text \<open>A switch of the console calls the painters on the list.\<close>

definition console_switch :: "drm_dev \<Rightarrow> unit outcome" where
  "console_switch dev = (if vt_notifier dev then uses PainterBlock dev (Ret ()) else Ret ())"

section \<open>Closing a file\<close>

definition evdi_driver_close :: "drm_file \<Rightarrow> evdi_device option \<Rightarrow> evdi_device option" where
  "evdi_driver_close file evdi = map_option (evdi_painter_close file) evdi"

definition evdi_driver_postclose :: "drm_file \<Rightarrow> evdi_device option \<Rightarrow> evdi_device option" where
  "evdi_driver_postclose file evdi = evdi_driver_close file evdi"

section \<open>Every path of the creation\<close>

lemmas card_defs = evdi_drm_device_init_def painter_init_def cursor_init_def evdi_fbdev_init_def uses_def
  kfree_def kfree_ptr_def err_free_def err_init_def evdi_fbdev_cleanup_def drmm_add_action_or_reset_def
  device_release_cb_def painter_cleanup_def new_dev_def

definition whole_card :: drm_dev where
  "whole_card = \<lparr>live = {EvdiBlock, PainterBlock, CursorBlock, FbdevBlock}, dev_private = True,
     painter_ptr = True, cursor_ptr = True, fbdev_ptr = True, vt_notifier = True, release_action = True\<rparr>"

text \<open>A card of which everything is freed; \<open>dangling\<close> says that its painter is still on the list.\<close>

definition no_card :: "bool \<Rightarrow> drm_dev \<Rightarrow> bool" where
  "no_card dangling dev \<longleftrightarrow> live dev = {} \<and> \<not> dev_private dev \<and> vt_notifier dev = dangling \<and> \<not> release_action dev"

lemma init_all_good:
  assumes "kz_evdi env" "kz_painter env" "kz_cursor env" "kz_fbdev env" "fb_helper_init env = Inr ()"
    "fb_initial_config env = Inr ()" "vblank_init env = Inr ()" "add_action env = Inr ()"
  shows "evdi_drm_device_init env new_dev = Ret (Inr (), whole_card)"
  using assms by (simp add: card_defs whole_card_def) blast

lemma init_early:
  "\<not> kz_evdi env \<Longrightarrow> evdi_drm_device_init env new_dev = Ret (Inl ENOMEM, new_dev)"
  "kz_evdi env \<Longrightarrow> \<not> kz_painter env \<Longrightarrow>
     \<exists>dev. evdi_drm_device_init env new_dev = Ret (Inl ENOMEM, dev) \<and> no_card False dev"
  by (simp_all add: card_defs no_card_def)

lemma init_dangling:
  assumes "kz_evdi env" "kz_painter env"
    and "\<not> kz_cursor env \<or> \<not> kz_fbdev env \<or>
      fb_helper_init env = Inr () \<and> fb_initial_config env = Inr () \<and> vblank_init env = Inl e"
  shows "\<exists>e dev. evdi_drm_device_init env new_dev = Ret (Inl e, dev) \<and> no_card True dev"
  using assms by (cases "kz_cursor env"; cases "kz_fbdev env") (auto simp: card_defs no_card_def)

lemma init_oops:
  assumes "kz_evdi env" "kz_painter env" "kz_cursor env" "kz_fbdev env"
    and "fb_helper_init env = Inl e \<or> fb_initial_config env = Inl e \<or>
      vblank_init env = Inr () \<and> add_action env = Inl e"
  shows "evdi_drm_device_init env new_dev = Oops"
  using assms by (cases "fb_helper_init env"; cases "fb_initial_config env"; cases "vblank_init env";
      cases "add_action env") (auto simp: card_defs)

lemma init_success:
  assumes "evdi_drm_device_init env new_dev = Ret (Inr (), dev)"
  shows "dev = whole_card"
proof -
  have n: "\<nexists>e d. evdi_drm_device_init env new_dev = Ret (Inl e, d)" "evdi_drm_device_init env new_dev \<noteq> Oops"
    using assms by simp_all
  have c: "x = Inr () \<or> (\<exists>e. x = Inl e)" for x :: "unit result" by (cases x) simp_all
  have k: "kz_evdi env" "kz_painter env" using n(1) init_early [of env] by blast+
  have a: "kz_cursor env" "kz_fbdev env" using n(1) init_dangling [OF k] by blast+
  have h: "fb_helper_init env = Inr ()" "fb_initial_config env = Inr ()"
    using n(2) init_oops [OF k a] c by blast+
  have v: "vblank_init env = Inr ()" using n(1) init_dangling [OF k] h c by blast
  have "add_action env = Inr ()" using n(2) init_oops [OF k a] v c by blast
  then show ?thesis using assms init_all_good [OF k a h v] by simp
qed

lemma release_whole_card:
  "\<exists>dev'. device_release_cb whole_card = Ret dev' \<and> live dev' = {FbdevBlock} \<and> \<not> vt_notifier dev' \<and>
     \<not> dev_private dev'"
  by (auto simp: device_release_cb_def uses_def kfree_def kfree_ptr_def painter_cleanup_def whole_card_def)

lemma card_removed:
  assumes "evdi_drm_device_create env = Ret (Inr (), dev)"
  shows "live dev = {EvdiBlock, PainterBlock, CursorBlock, FbdevBlock} \<and> vt_notifier dev \<and>
    (\<exists>dev'. evdi_drm_device_remove dev = Ret dev' \<and> live dev' = {} \<and> \<not> vt_notifier dev' \<and>
       \<not> dev_private dev')"
proof -
  have "evdi_drm_device_init env new_dev = Ret (Inr (), dev)"
    using assms unfolding evdi_drm_device_create_def
    by (cases "evdi_drm_device_init env new_dev")
      (auto simp: bind_outcome_def split: sum.splits outcome.splits)
  then have w: "dev = whole_card" by (rule init_success)
  have "\<exists>dev'. evdi_drm_device_remove whole_card = Ret dev' \<and> live dev' = {} \<and> \<not> vt_notifier dev' \<and>
      \<not> dev_private dev'"
    by (auto simp: evdi_drm_device_remove_def evdi_drm_device_deinit_def evdi_fbdev_unplug_def drm_dev_put_def
        evdi_fbdev_cleanup_def device_release_cb_def uses_def kfree_def kfree_ptr_def painter_cleanup_def
        whole_card_def)
  then show ?thesis unfolding w by (simp add: whole_card_def)
qed

section \<open>Properties\<close>


definition good_env :: card_env where
  "good_env = \<lparr>dev_alloc = Inr (), kz_evdi = True, kz_painter = True, kz_cursor = True, kz_fbdev = True,
     fb_helper_init = Inr (), fb_initial_config = Inr (), vblank_init = Inr (), add_action = Inr (),
     dev_register = Inr ()\<rparr>"

lemma good_init: "evdi_drm_device_init good_env new_dev = Ret (Inr (), whole_card)"
  by (rule init_all_good) (simp_all add: good_env_def)


text \<open>
  C40: a creation that fails after the painter was made goes wrong in one of three ways: the painter is
  freed but stays on the notifiers' list, so that the next switch of the console calls into freed
  memory; the framebuffer device, freed by its own error path, or the data of the card, freed by the
  action run at once, is used again; or, when the card cannot be registered, the framebuffer device
  stays allocated for ever.
\<close>

theorem failed_creation:
  assumes "dev_alloc env = Inr ()" and "kz_evdi env" and "kz_painter env"
  shows "(\<not> kz_cursor env \<or> \<not> kz_fbdev env \<or> fb_helper_init env = Inr () \<and> fb_initial_config env = Inr () \<and>
      vblank_init env \<noteq> Inr () \<longrightarrow>
    (\<exists>e dev. evdi_drm_device_create env = Ret (Inl e, dev) \<and> live dev = {} \<and> console_switch dev = Oops)) \<and>
   (kz_cursor env \<and> kz_fbdev env \<and> (fb_helper_init env \<noteq> Inr () \<or> fb_initial_config env \<noteq> Inr () \<or>
      vblank_init env = Inr () \<and> add_action env \<noteq> Inr ()) \<longrightarrow> evdi_drm_device_create env = Oops) \<and>
   (evdi_drm_device_init env new_dev = Ret (Inr (), dev) \<and> dev_register env \<noteq> Inr () \<longrightarrow>
    (\<exists>e dev'. evdi_drm_device_create env = Ret (Inl e, dev') \<and> live dev' = {FbdevBlock}))"
proof (intro conjI impI)
  have e: "x \<noteq> Inr () \<longleftrightarrow> (\<exists>e. x = Inl e)" for x :: "unit result" by (cases x) simp_all
  {
    assume "\<not> kz_cursor env \<or> \<not> kz_fbdev env \<or> fb_helper_init env = Inr () \<and> fb_initial_config env = Inr () \<and>
      vblank_init env \<noteq> Inr ()"
    then obtain x d where "evdi_drm_device_init env new_dev = Ret (Inl x, d)" "no_card True d"
      using init_dangling [OF assms(2,3)] unfolding e by blast
    then show "\<exists>e dev. evdi_drm_device_create env = Ret (Inl e, dev) \<and> live dev = {} \<and> console_switch dev = Oops"
      using assms(1)
      by (auto simp: evdi_drm_device_create_def drm_dev_put_def no_card_def console_switch_def uses_def)
  next
    assume "kz_cursor env \<and> kz_fbdev env \<and> (fb_helper_init env \<noteq> Inr () \<or> fb_initial_config env \<noteq> Inr () \<or>
      vblank_init env = Inr () \<and> add_action env \<noteq> Inr ())"
    then have "evdi_drm_device_init env new_dev = Oops"
      using init_oops [OF assms(2,3)] unfolding e by blast
    then show "evdi_drm_device_create env = Oops" using assms(1) by (simp add: evdi_drm_device_create_def)
  next
    assume a: "evdi_drm_device_init env new_dev = Ret (Inr (), dev) \<and> dev_register env \<noteq> Inr ()"
    then have "evdi_drm_device_init env new_dev = Ret (Inr (), whole_card)"
      using init_success by blast
    moreover obtain x where "dev_register env = Inl x" using a unfolding e by blast
    moreover have "release_action whole_card" by (simp add: whole_card_def)
    ultimately show "\<exists>e dev'. evdi_drm_device_create env = Ret (Inl e, dev') \<and> live dev' = {FbdevBlock}"
      using release_whole_card assms(1) by (auto simp: evdi_drm_device_create_def drm_dev_put_def)
  }
qed

theorem failed_creation_witness:
  "(\<exists>e dev. evdi_drm_device_create (good_env\<lparr>kz_cursor := False\<rparr>) = Ret (Inl e, dev) \<and> live dev = {} \<and>
      console_switch dev = Oops) \<and>
   evdi_drm_device_create (good_env\<lparr>fb_initial_config := Inl EINVAL\<rparr>) = Oops"
proof
  show "\<exists>e dev. evdi_drm_device_create (good_env\<lparr>kz_cursor := False\<rparr>) = Ret (Inl e, dev) \<and> live dev = {} \<and>
      console_switch dev = Oops"
    using failed_creation [of "good_env\<lparr>kz_cursor := False\<rparr>"] by (simp add: good_env_def)
  show "evdi_drm_device_create (good_env\<lparr>fb_initial_config := Inl EINVAL\<rparr>) = Oops"
    using failed_creation [of "good_env\<lparr>fb_initial_config := Inl EINVAL\<rparr>"] by (simp add: good_env_def)
qed

end
