(* ===== verification/Evdi_Fbdev.thy ===== *)
theory Evdi_Fbdev
  imports Evdi_Painter
begin

text \<open>
  The framebuffer device of a card, the console's screen, \<open>module/evdi_fb.c\<close>: its creation with every
  error path, its end, and the draws of the console.
\<close>

section \<open>The device\<close>

text \<open>\<open>helper_info\<close> is the description of the screen the helper keeps, once it has one.\<close>

record evdi_fbdev =
  efb :: evdi_framebuffer
  helper_info :: "fb_fix option"
  fb_count :: s32

text \<open>\<open>kzalloc\<close> zeroes it.\<close>

definition zero_fbdev :: evdi_fbdev where
  "zero_fbdev = \<lparr>efb = zero_framebuffer, helper_info = None, fb_count = 0\<rparr>"

record drm_fb_helper_surface_size =
  surface_width :: u32
  surface_height :: u32
  surface_bpp :: u32
  surface_depth :: u32

text \<open>
  The kernel's answers: the number of the new GEM object, if there is one, how mapping it ends and where
  it is mapped, the allocations of the description and of the colour map, the format of a depth, the id
  of the framebuffer. \<open>on_stack\<close> is what the fields of the command hold that are not set.
\<close>

record fbdev_env =
  fe_alloc :: "nat option"
  fe_vmap :: vmap_env
  fe_vaddr :: u64
  fe_info :: bool
  fe_cmap :: bool
  fe_legacy_format :: "u32 \<Rightarrow> u32 \<Rightarrow> u32"
  fe_formats :: format_table
  fe_fb_init :: "nat result"
  fe_on_stack :: u32

definition put_efb_obj :: "evdi_fbdev \<Rightarrow> drm_call list" where
  "put_efb_obj efbdev = (case fb_obj (efb efbdev) of None \<Rightarrow> [] | Some a \<Rightarrow> [GemPut a])"

definition fbdev_command :: "fbdev_env \<Rightarrow> drm_fb_helper_surface_size \<Rightarrow> drm_mode_fb_cmd2" where
  "fbdev_command env sizes =
     \<lparr>cmd_width = surface_width sizes, cmd_height = surface_height sizes,
      cmd_pixel_format = fe_legacy_format env (surface_bpp sizes) (surface_depth sizes),
      cmd_handle0 = fe_on_stack env, cmd_pitch0 = surface_width sizes * ((surface_bpp sizes + 7) div 8),
      cmd_offset0 = fe_on_stack env\<rparr>"

text \<open>
  The result is the device, the object made for it, and the calls. A failed allocation of the object
  returns success.
\<close>

definition evdifb_create ::
  "fbdev_env \<Rightarrow> drm_fb_helper_surface_size \<Rightarrow> evdi_fbdev \<Rightarrow>
     unit result \<times> evdi_fbdev \<times> evdi_gem_object option \<times> drm_call list" where
  "evdifb_create env sizes0 efbdev =
     (if surface_bpp sizes0 \<noteq> 24 \<and> surface_bpp sizes0 \<noteq> 32 then (Inl EINVAL, efbdev, None, [])
      else
        let sizes = sizes0\<lparr>surface_bpp := 32\<rparr>; mode_cmd = fbdev_command env sizes;
            sz = ALIGN_PAGE (cmd_pitch0 mode_cmd * cmd_height mode_cmd)
        in case fe_alloc env of
            None \<Rightarrow> (Inr (), efbdev, None, [])
          | Some a \<Rightarrow>
              let obj = the (evdi_gem_alloc_object True (unat sz)) in
              (case evdi_gem_vmap (fe_vmap env) obj of
                 (Inl e, obj1) \<Rightarrow> (Inl e, efbdev, Some obj1, put_efb_obj efbdev)
               | (Inr _, obj1) \<Rightarrow>
                   if \<not> fe_info env then (Inl ENOMEM, efbdev, Some obj1, put_efb_obj efbdev)
                   else
                     (case evdi_framebuffer_init (fe_formats env) (fe_fb_init env) mode_cmd (Some a) (efb efbdev) of
                        (Inl e, efb1) \<Rightarrow>
                          (Inl e, efbdev\<lparr>efb := efb1\<rparr>, Some obj1, put_efb_obj (efbdev\<lparr>efb := efb1\<rparr>))
                      | (Inr _, efb1) \<Rightarrow>
                          let efbdev1 = efbdev\<lparr>efb := efb1,
                                helper_info := Some \<lparr>smem_start = fe_vaddr env, smem_len = sz\<rparr>\<rparr>
                          in if \<not> fe_cmap env then (Inl ENOMEM, efbdev1, Some obj1, put_efb_obj efbdev1)
                             else (Inr (), efbdev1, Some obj1, []))))"

text \<open>The description is given back, and the framebuffer with its object.\<close>

definition evdi_fbdev_destroy :: "evdi_fbdev \<Rightarrow> evdi_fbdev \<times> drm_call list" where
  "evdi_fbdev_destroy efbdev = (efbdev\<lparr>helper_info := None\<rparr>, put_efb_obj efbdev)"

section \<open>Draws of the console\<close>

definition evdi_handle_damage ::
  "evdi_framebuffer \<Rightarrow> s32 \<Rightarrow> s32 \<Rightarrow> s32 \<Rightarrow> s32 \<Rightarrow> evdi_painter \<Rightarrow> evdi_painter \<times> drm_call list" where
  "evdi_handle_damage fb x y width height p =
     (let rect = evdi_framebuffer_sanitize_rect fb (damage_rect x y width height)
      in if \<not> active fb then (p, [])
         else let (p1, cs) = evdi_painter_set_scanout_buffer (Some fb) p
              in (evdi_painter_mark_dirty rect p1, cs))"

text \<open>A rectangle filled, an area copied, an image drawn: the place and the size of each.\<close>

record fb_draw =
  draw_dx :: u32
  draw_dy :: u32
  draw_width :: u32
  draw_height :: u32

definition evdi_fb_fillrect :: "evdi_fbdev \<Rightarrow> fb_draw \<Rightarrow> evdi_painter \<Rightarrow> evdi_painter \<times> drm_call list" where
  "evdi_fb_fillrect efbdev rect p =
     evdi_handle_damage (efb efbdev) (draw_dx rect) (draw_dy rect) (draw_width rect) (draw_height rect) p"

definition evdi_fb_copyarea :: "evdi_fbdev \<Rightarrow> fb_draw \<Rightarrow> evdi_painter \<Rightarrow> evdi_painter \<times> drm_call list" where
  "evdi_fb_copyarea efbdev region p =
     evdi_handle_damage (efb efbdev) (draw_dx region) (draw_dy region) (draw_width region) (draw_height region) p"

definition evdi_fb_imageblit :: "evdi_fbdev \<Rightarrow> fb_draw \<Rightarrow> evdi_painter \<Rightarrow> evdi_painter \<times> drm_call list" where
  "evdi_fb_imageblit efbdev img p =
     evdi_handle_damage (efb efbdev) (draw_dx img) (draw_dy img) (draw_width img) (draw_height img) p"

definition evdi_fb_open :: "evdi_fbdev \<Rightarrow> evdi_fbdev" where
  "evdi_fb_open efbdev = efbdev\<lparr>fb_count := fb_count efbdev + 1\<rparr>"

definition evdi_fb_release :: "evdi_fbdev \<Rightarrow> evdi_fbdev" where
  "evdi_fb_release efbdev = efbdev\<lparr>fb_count := fb_count efbdev - 1\<rparr>"

section \<open>Every path of the creation\<close>

lemma fbdev_create_success:
  assumes "evdifb_create env sizes zero_fbdev = (Inr (), dev, Some obj, cs)"
  shows "\<exists>a i. fe_alloc env = Some a \<and> fe_fb_init env = Inr i \<and> cs = [] \<and> fb_obj (efb dev) = Some a \<and>
    \<not> active (efb dev) \<and> fb_width (efb dev) = surface_width sizes \<and>
    fb_height (efb dev) = surface_height sizes \<and> fb_pitch (efb dev) = surface_width sizes * 4 \<and>
    (\<exists>obj0. evdi_gem_alloc_object True (unat (ALIGN_PAGE (surface_width sizes * 4 * surface_height sizes))) = Some obj0 \<and>
       evdi_gem_vmap (fe_vmap env) obj0 = (Inr (), obj)) \<and>
    helper_info dev = Some \<lparr>smem_start = fe_vaddr env,
      smem_len = ALIGN_PAGE (surface_width sizes * 4 * surface_height sizes)\<rparr>"
  using assms
  by (auto simp: evdifb_create_def Let_def fbdev_command_def evdi_framebuffer_init_def zero_fbdev_def
      zero_framebuffer_def evdi_gem_alloc_object_def split: if_splits option.splits sum.splits prod.splits)

lemma vmap_size: "evdi_gem_vmap env obj = (r, obj') \<Longrightarrow> gem_size obj' = gem_size obj"
  by (auto simp: evdi_gem_vmap_def evdi_pin_pages_def evdi_gem_get_pages_def gem_emit_def Let_def
      split: if_splits sum.splits prod.splits option.splits)

section \<open>Properties\<close>

text \<open>
  A framebuffer device that is created has an object of exactly the size it reports for its screen,
  which holds all its lines when their product fits 32 bits; the creation drops no reference, and the
  end of the device drops the one to its object, once.
\<close>

theorem fbdev_screen_fits:
  assumes "evdifb_create env sizes zero_fbdev = (Inr (), dev, Some obj, cs)"
    and "unat (surface_width sizes) * 4 * unat (surface_height sizes) + 4095 < 2 ^ 32"
    and "surface_height sizes \<noteq> 0"
  shows "\<exists>fix a. helper_info dev = Some fix \<and> gem_size obj = unat (smem_len fix) \<and>
    unat (fb_pitch (efb dev)) = 4 * unat (fb_width (efb dev)) \<and>
    unat (fb_pitch (efb dev)) * unat (fb_height (efb dev)) \<le> unat (smem_len fix) \<and>
    cs = [] \<and> fe_alloc env = Some a \<and> snd (evdi_fbdev_destroy dev) = [GemPut a]"
proof -
  let ?w = "surface_width sizes" and ?h = "surface_height sizes"
  obtain a i obj0 where s: "fe_alloc env = Some a" "cs = []" "fb_obj (efb dev) = Some a"
      "fb_width (efb dev) = ?w" "fb_height (efb dev) = ?h" "fb_pitch (efb dev) = ?w * 4"
      "helper_info dev = Some \<lparr>smem_start = fe_vaddr env, smem_len = ALIGN_PAGE (?w * 4 * ?h)\<rparr>"
      "evdi_gem_alloc_object True (unat (ALIGN_PAGE (?w * 4 * ?h))) = Some obj0"
      "evdi_gem_vmap (fe_vmap env) obj0 = (Inr (), obj)"
    using fbdev_create_success [OF assms(1)] by auto
  have "gem_size obj0 = unat (ALIGN_PAGE (?w * 4 * ?h))"
    using s(8) by (auto simp: evdi_gem_alloc_object_def)
  then have g: "gem_size obj = unat (ALIGN_PAGE (?w * 4 * ?h))" using vmap_size [OF s(9)] by simp
  have "1 \<le> unat ?h" using assms(3) by (simp add: unat_gt_0 Suc_le_eq)
  then have "unat ?w * 4 \<le> unat ?w * 4 * unat ?h" by (metis mult.right_neutral mult_le_mono2)
  then have "unat ?w * 4 < 2 ^ 32" using assms(2) by linarith
  then have p: "unat (?w * 4) = unat ?w * 4" by (subst unat_mult_exact) simp_all
  have "unat (?w * 4) * unat ?h < 2 ^ 32" using assms(2) unfolding p by linarith
  then have m: "unat (?w * 4 * ?h) = unat ?w * 4 * unat ?h" using p by (subst unat_mult_exact) simp_all
  have "unat (ALIGN_PAGE (?w * 4 * ?h)) = DIV_ROUND_UP (unat (?w * 4 * ?h)) 4096 * 4096"
    using assms(2) m by (intro unat_ALIGN_PAGE) simp
  then have "unat ?w * 4 * unat ?h \<le> unat (ALIGN_PAGE (?w * 4 * ?h))"
    using DIV_ROUND_UP_ge [of 4096 "unat (?w * 4 * ?h)"] m by simp
  then show ?thesis
    using s(1-7) g p by (simp add: evdi_fbdev_destroy_def put_efb_obj_def)
qed

text \<open>
  A creation that fails after it has made the object never gives back exactly its one reference:
  either the object is leaked, by the creation and by the end of the device, or both drop it.
\<close>

theorem failed_fbdev_reference:
  assumes "evdifb_create env sizes zero_fbdev = (Inl e, dev, Some obj, cs)"
  shows "\<exists>a. fe_alloc env = Some a \<and>
    (cs = [] \<and> snd (evdi_fbdev_destroy dev) = [] \<or> cs = [GemPut a] \<and> snd (evdi_fbdev_destroy dev) = [GemPut a])"
  using assms
  by (auto simp: evdifb_create_def Let_def fbdev_command_def evdi_framebuffer_init_def zero_fbdev_def
      zero_framebuffer_def evdi_fbdev_destroy_def put_efb_obj_def split: if_splits option.splits sum.splits prod.splits)

text \<open>
  A framebuffer device never reports what the console draws: nothing sets the flag that the draws
  ask for, so they leave the painter as it is.
\<close>

theorem console_draws_unreported:
  assumes "evdifb_create env sizes zero_fbdev = (r, dev, obj, cs)"
  shows "evdi_fb_fillrect dev draw p = (p, []) \<and> evdi_fb_copyarea dev draw p = (p, []) \<and>
    evdi_fb_imageblit dev draw p = (p, [])"
proof -
  have "\<not> active (efb dev)"
    using assms by (auto simp: evdifb_create_def Let_def evdi_framebuffer_init_def zero_fbdev_def
        zero_framebuffer_def split: if_splits option.splits sum.splits prod.splits)
  then show ?thesis
    by (simp add: evdi_fb_fillrect_def evdi_fb_copyarea_def evdi_fb_imageblit_def evdi_handle_damage_def)
qed

section \<open>Witnesses\<close>

definition sample_sizes :: drm_fb_helper_surface_size where
  "sample_sizes = \<lparr>surface_width = 640, surface_height = 480, surface_bpp = 32, surface_depth = 24\<rparr>"

definition sample_fbdev_env :: fbdev_env where
  "sample_fbdev_env = \<lparr>fe_alloc = Some 7, fe_vmap = \<lparr>env_xe_vmap = Inl EINVAL, env_dma_vmap = Inl EINVAL,
       env_get_pages = Inr [1], env_vmap = Some [0]\<rparr>,
     fe_vaddr = 0, fe_info = True, fe_cmap = True, fe_legacy_format = (\<lambda>_ _. 0), fe_formats = (\<lambda>_. Some 4),
     fe_fb_init = Inr 1, fe_on_stack = 0\<rparr>"

theorem fbdev_screen_fits_witness:
  "\<exists>dev obj cs. evdifb_create sample_fbdev_env sample_sizes zero_fbdev = (Inr (), dev, Some obj, cs) \<and>
     1228800 \<le> gem_size obj \<and> snd (evdi_fbdev_destroy dev) = [GemPut 7]"
proof -
  obtain dev obj cs where c: "evdifb_create sample_fbdev_env sample_sizes zero_fbdev = (Inr (), dev, Some obj, cs)"
    by (simp add: evdifb_create_def sample_fbdev_env_def sample_sizes_def fbdev_command_def
        evdi_gem_alloc_object_def evdi_gem_vmap_def evdi_drm_gem_object_use_import_attach_def
        evdi_pin_pages_def evdi_gem_get_pages_def gem_emit_def evdi_framebuffer_init_def Let_def)
  obtain a i where w: "fb_width (efb dev) = 640" "fb_height (efb dev) = 480"
    using fbdev_create_success [OF c] by (auto simp: sample_sizes_def)
  show ?thesis
    using fbdev_screen_fits [OF c] c w by (auto simp: sample_sizes_def sample_fbdev_env_def)
qed

theorem failed_fbdev_reference_witness:
  "\<exists>e dev obj cs. evdifb_create (sample_fbdev_env\<lparr>fe_cmap := False\<rparr>) sample_sizes zero_fbdev = (Inl e, dev, Some obj, cs) \<and>
     (cs = [] \<and> snd (evdi_fbdev_destroy dev) = [] \<or> cs = [GemPut 7] \<and> snd (evdi_fbdev_destroy dev) = [GemPut 7])"
proof -
  obtain e dev obj cs where c: "evdifb_create (sample_fbdev_env\<lparr>fe_cmap := False\<rparr>) sample_sizes zero_fbdev =
      (Inl e, dev, Some obj, cs)"
    by (simp add: evdifb_create_def sample_fbdev_env_def sample_sizes_def fbdev_command_def
        evdi_gem_alloc_object_def evdi_gem_vmap_def evdi_drm_gem_object_use_import_attach_def
        evdi_pin_pages_def evdi_gem_get_pages_def gem_emit_def evdi_framebuffer_init_def Let_def)
  show ?thesis using failed_fbdev_reference [OF c] c by (auto simp: sample_fbdev_env_def)
qed

theorem console_draws_unreported_witness:
  "evdi_fb_fillrect (fst (snd (evdifb_create sample_fbdev_env sample_sizes zero_fbdev)))
     \<lparr>draw_dx = 0, draw_dy = 0, draw_width = 8, draw_height = 8\<rparr> fresh_painter = (fresh_painter, [])"
  using console_draws_unreported [of sample_fbdev_env sample_sizes] by (metis prod.collapse)

end
