(* ===== verification/Evdi_Export.thy ===== *)
theory Evdi_Export
  imports Evdi_Grab
begin

text \<open>
  What others do with the pages of an object, \<open>module/evdi_gem.c\<close>: drivers it is exported to, and processes
  that map it; and the measurement of debugfs, \<open>module/evdi_painter.c\<close>, which maps and copies a framebuffer.
\<close>

section \<open>Exports and mappings\<close>

definition evdi_prime_pin :: "nat list result \<Rightarrow> evdi_gem_object \<Rightarrow> unit result \<times> evdi_gem_object" where
  "evdi_prime_pin got obj = evdi_pin_pages got obj"

definition evdi_prime_unpin :: "evdi_gem_object \<Rightarrow> evdi_gem_object" where
  "evdi_prime_unpin obj = evdi_unpin_pages obj"

text \<open>
  \<open>drm_prime_pages_to_sg\<close> reads as many entries of the page array as the object has pages; without an
  array, or past its end, that is an \<open>Oops\<close>.
\<close>

definition evdi_prime_get_sg_table :: "evdi_gem_object \<Rightarrow> nat list outcome" where
  "evdi_prime_get_sg_table obj =
     (let nr_pages = gem_size obj div 2 ^ PAGE_SHIFT
      in if nr_pages = 0 then Ret []
         else case pages obj of
             None \<Rightarrow> Oops
           | Some ps \<Rightarrow> if length ps < nr_pages then Oops else Ret (take nr_pages ps))"

text \<open>The two flags of a mapping the driver changes; \<open>mapped\<close> is how \<open>drm_gem_mmap\<close> ends, and with what.\<close>

record vma_flags =
  VM_PFNMAP :: bool
  VM_MIXEDMAP :: bool

definition evdi_drm_gem_mmap :: "vma_flags result \<Rightarrow> vma_flags result" where
  "evdi_drm_gem_mmap mapped =
     (case mapped of Inl e \<Rightarrow> Inl e | Inr vma \<Rightarrow> Inr (vma\<lparr>VM_MIXEDMAP := True, VM_PFNMAP := False\<rparr>))"

section \<open>The measurement\<close>

text \<open>
  \<open>found\<close> is the framebuffer of the number written, with a reference; \<open>dst_ok\<close> the allocation of the copy;
  \<open>elapsed\<close> the time the copy took. The result is the time, the objects, the calls, and whether the copy's
  memory is still allocated. The size is read into 32 bits; a copy to or from memory that is not there is an
  \<open>Oops\<close>.
\<close>

definition evdi_painter_debugfs_measure_copy_fb ::
  "evdi_framebuffer option \<Rightarrow> bool \<Rightarrow> vmap_env \<Rightarrow> u32 \<Rightarrow> gem_store \<Rightarrow>
     (u32 \<times> gem_store \<times> drm_call list \<times> bool) outcome" where
  "evdi_painter_debugfs_measure_copy_fb found dst_ok env elapsed objs =
     (case found of
        None \<Rightarrow> Ret (0, objs, [], False)
      | Some efb \<Rightarrow>
          (case fb_obj efb of
             None \<Rightarrow> Oops
           | Some a \<Rightarrow>
               let dst_buf_size = (of_nat (gem_size (objs a)) :: u32);
                   dst = (dst_ok \<and> dst_buf_size \<noteq> 0);
                   (ret, o1) = evdi_gem_vmap env (objs a)
               in if ret = Inl ENOMEM \<or> vmapping o1 = None
                  then Ret (0, objs(a := o1), [FbPut (fb_id efb)], dst)
                  else if kread (the (vmapping o1)) 0 (int (unat dst_buf_size)) = None \<or> dst_buf_size \<noteq> 0 \<and> \<not> dst
                  then Oops
                  else Ret (elapsed, objs(a := evdi_gem_vunmap o1), [FbPut (fb_id efb)], False)))"

section \<open>Properties\<close>

lemma vmap_keeps_sharing:
  "evdi_gem_vmap env obj = (Inr u, obj') \<Longrightarrow>
     evdi_drm_gem_object_use_import_attach obj' = evdi_drm_gem_object_use_import_attach obj"
  by (rule use_attach_import)
    (auto simp: evdi_gem_vmap_def gem_emit_def dest!: pin_pages_ok split: if_splits sum.splits prod.splits option.splits)

lemma maps_of_vmap:
  assumes "evdi_gem_vmap env obj = (Inr u, obj')"
  shows "maps_made (gem_log obj') = maps_made (gem_log obj) + 1" and "maps_undone (gem_log obj') = maps_undone (gem_log obj)"
    and "vmapping obj' \<noteq> None"
  using assms
  by (auto simp: evdi_gem_vmap_def log_defs dest!: pin_pages_ok split: if_splits sum.splits prod.splits option.splits)

lemma maps_of_vunmap:
  assumes "vmapping obj \<noteq> None"
  shows "maps_made (gem_log (evdi_gem_vunmap obj)) = maps_made (gem_log obj)"
    and "maps_undone (gem_log (evdi_gem_vunmap obj)) = maps_undone (gem_log obj) + 1"
  using assms
  by (auto simp: evdi_gem_vunmap_def evdi_unpin_pages_def evdi_gem_put_pages_def log_defs Let_def)

text \<open>
  An export of an object that is pinned reads only its pages, and giving the pin back restores the
  count.
\<close>

theorem export_reads_pages:
  assumes "gem_reach k obj" and "k < 2 ^ 32 - 2" and "evdi_prime_pin got obj = (Inr u, obj')"
    and "\<And>ps. pages obj' = Some ps \<Longrightarrow> length ps = gem_size obj div 2 ^ PAGE_SHIFT" and "gem_size obj' = gem_size obj"
  shows "\<exists>ps. pages obj' = Some ps \<and> evdi_prime_get_sg_table obj' = Ret ps \<and> gem_reach k (evdi_prime_unpin obj')"
proof -
  have r: "gem_reach (k + 1) obj'"
    by (rule gem_reach.pin [OF assms(1,2)]) (use assms(3) in \<open>simp add: evdi_prime_pin_def\<close>)
  note inv = gem_reach_inv [OF r]
  have "unat (pages_pin_count obj') \<noteq> 0" using inv by (simp add: gem_inv_def)
  then have "pages_pin_count obj' \<noteq> 0" by auto
  then obtain ps where ps: "pages obj' = Some ps" using inv by (auto simp: gem_inv_def)
  then have "evdi_prime_get_sg_table obj' = Ret ps"
    using assms(4,5) by (auto simp: evdi_prime_get_sg_table_def Let_def)
  then show ?thesis using ps gem_reach.unpin [OF r] by (simp add: evdi_prime_unpin_def)
qed

text \<open>
  Measuring a framebuffer whose object is mapped already, as the scanout buffer is after a grab, makes a
  second mapping, forgets the first and undoes only the second: a mapping is lost for good.
\<close>

theorem measure_loses_mapping:
  assumes "evdi_painter_debugfs_measure_copy_fb (Some efb) True env elapsed objs = Ret (t, objs', cs, leaked)"
    and "fb_obj efb = Some a" and "vmapping (objs a) \<noteq> None"
    and "maps_made (gem_log (objs a)) = maps_undone (gem_log (objs a)) + 1"
    and "fst (evdi_gem_vmap env (objs a)) = Inr ()"
  shows "vmapping (objs' a) = None \<and> maps_made (gem_log (objs' a)) = maps_undone (gem_log (objs' a)) + 1 \<and>
    maps_made (gem_log (evdi_gem_free_object (objs' a))) = maps_undone (gem_log (evdi_gem_free_object (objs' a))) + 1"
proof -
  obtain o1 where o1: "evdi_gem_vmap env (objs a) = (Inr (), o1)" using assms(5) by (metis prod.collapse)
  note m = maps_of_vmap [OF o1]
  have o': "objs' a = evdi_gem_vunmap o1"
    using assms(1,2) o1 m(3) by (auto simp: evdi_painter_debugfs_measure_copy_fb_def Let_def split: if_splits)
  have v: "vmapping (objs' a) = None" unfolding o' by (rule vunmap_none)
  have one: "maps_made (gem_log (objs' a)) = maps_undone (gem_log (objs' a)) + 1"
    unfolding o' using maps_of_vunmap [OF m(3)] m(1,2) assms(4) by simp
  have "maps_made (gem_log (evdi_gem_free_object (objs' a))) = maps_made (gem_log (objs' a)) \<and>
      maps_undone (gem_log (evdi_gem_free_object (objs' a))) = maps_undone (gem_log (objs' a))"
    using v by (simp add: evdi_gem_free_object_def evdi_gem_put_pages_def log_defs Let_def)
  then show ?thesis using v one by simp
qed

section \<open>Witnesses\<close>

definition page_object :: evdi_gem_object where
  "page_object = the (evdi_gem_alloc_object True 4096)"

lemma page_object_fields: "vmapping page_object = None" "import_attach page_object = None" "pages page_object = None"
  "pages_pin_count page_object = 0" "gem_size page_object = 4096" "gem_log page_object = []"
  by (simp_all add: page_object_def evdi_gem_alloc_object_def)

lemma page_object_reach: "gem_reach 0 page_object"
  by (rule gem_reach.alloc [of True 4096]) (simp add: page_object_def evdi_gem_alloc_object_def)

theorem export_reads_pages_witness:
  "\<exists>obj. evdi_prime_pin (Inr [7]) page_object = (Inr (), obj) \<and> evdi_prime_get_sg_table obj = Ret [7]"
proof -
  obtain obj where o: "evdi_prime_pin (Inr [7]) page_object = (Inr (), obj)" "pages obj = Some [7]" "gem_size obj = 4096"
    by (simp add: evdi_prime_pin_def evdi_pin_pages_def evdi_gem_get_pages_def gem_emit_def page_object_fields)
  then show ?thesis
    using export_reads_pages [OF page_object_reach _ o(1)] by (auto simp: page_object_fields PAGE_SHIFT_def)
qed

definition mapped_object :: evdi_gem_object where
  "mapped_object = snd (evdi_gem_vmap sample_vmap_env page_object)"

lemma mapped_object_fields: "vmapping mapped_object = Some (replicate 4096 0)" "import_attach mapped_object = None"
  "gem_log mapped_object = [GetPages, Vmap]" "pages_pin_count mapped_object = 1" "gem_size mapped_object = 4096"
  by (simp_all add: mapped_object_def evdi_gem_vmap_def evdi_drm_gem_object_use_import_attach_def page_object_fields
      sample_vmap_env_def evdi_pin_pages_def evdi_gem_get_pages_def gem_emit_def)

theorem measure_loses_mapping_witness:
  "\<exists>objs cs. evdi_painter_debugfs_measure_copy_fb (Some sample_fb) True sample_vmap_env 3 (\<lambda>_. mapped_object)
      = Ret (3, objs, cs, False) \<and>
     maps_made (gem_log (evdi_gem_free_object (objs 0))) = maps_undone (gem_log (evdi_gem_free_object (objs 0))) + 1"
proof -
  let ?m = "\<lambda>_ :: nat. mapped_object"
  have p: "evdi_pin_pages (Inr [7]) mapped_object = (Inr (), mapped_object\<lparr>pages_pin_count := 2\<rparr>)"
    by (simp add: evdi_pin_pages_def mapped_object_fields)
  obtain o1 where o1: "evdi_gem_vmap sample_vmap_env mapped_object = (Inr (), o1)" "vmapping o1 = Some (replicate 4096 0)"
    by (simp add: evdi_gem_vmap_def evdi_drm_gem_object_use_import_attach_def mapped_object_fields p
        sample_vmap_env_def gem_emit_def)
  have k: "kread (replicate 4096 0) 0 4096 \<noteq> None" by (simp add: kread_def)
  have "evdi_painter_debugfs_measure_copy_fb (Some sample_fb) True sample_vmap_env 3 ?m
      = Ret (3, ?m(0 := evdi_gem_vunmap o1), [FbPut 1], False)"
    using o1 k by (simp add: evdi_painter_debugfs_measure_copy_fb_def sample_fb_def mapped_object_fields)
  then show ?thesis
    using measure_loses_mapping [of sample_fb sample_vmap_env 3 ?m] o1(1)
    by (fastforce simp: sample_fb_def mapped_object_fields log_defs)
qed

end
