(* ===== verification/Evdi_Pipeline.thy ===== *)
theory Evdi_Pipeline
  imports Evdi_Modeset Evdi_Fbdev
begin

text \<open>
  The display pipeline of a card, \<open>module/evdi_modeset.c\<close> and \<open>module/evdi_connector.c\<close>: its limits, and how
  its CRTC, planes, encoder and connector are made and put together; and the console's screen within the limits.
\<close>

section \<open>Making the pipeline\<close>

record drm_mode_config =
  min_width :: s32
  min_height :: s32
  max_width :: s32
  max_height :: s32
  prefer_shadow :: u32
  preferred_depth :: u32

definition evdi_mode_config :: drm_mode_config where
  "evdi_mode_config = \<lparr>min_width = 64, min_height = 64, max_width = 7680, max_height = 4320,
     prefer_shadow = 0, preferred_depth = 24\<rparr>"

text \<open>
  \<open>fresh\<close> is the connector \<open>kzalloc\<close> gives; attaching a NULL encoder reads through it. The second part of the
  result is \<open>evdi->conn\<close>.
\<close>

definition evdi_connector_init :: "nat option \<Rightarrow> nat option \<Rightarrow> (unit result \<times> nat option) outcome" where
  "evdi_connector_init fresh encoder =
     (case fresh of
        None \<Rightarrow> Ret (Inl ENOMEM, None)
      | Some conn \<Rightarrow> if encoder = None then Oops else Ret (Inr (), Some conn))"

text \<open>The first of the encoders that are possible for a connector.\<close>

definition evdi_best_encoder :: "nat list \<Rightarrow> nat option" where
  "evdi_best_encoder possible = (case possible of [] \<Rightarrow> None | encoder # _ \<Rightarrow> Some encoder)"

text \<open>How the allocations and the initialisations by the DRM core end.\<close>

record modeset_env =
  me_crtc :: bool
  me_primary :: "bool \<times> nat result"
  me_cursor :: "bool \<times> nat result"
  me_encoder :: "bool \<times> nat result"
  me_connector :: "nat option"

record pipeline =
  config :: drm_mode_config
  crtc_made :: bool
  primary_plane :: "nat option"
  cursor_plane :: "nat option"
  encoder :: "nat option"
  conn :: "nat option"

text \<open>The results of the parts are not looked at.\<close>

definition evdi_modeset_init :: "modeset_env \<Rightarrow> pipeline outcome" where
  "evdi_modeset_init env =
     (case evdi_crtc_init (me_crtc env) (me_primary env) (me_cursor env) of
        Oops \<Rightarrow> Oops
      | Ret r \<Rightarrow>
          let enc = evdi_encoder_init (fst (me_encoder env)) (snd (me_encoder env))
          in case evdi_connector_init (me_connector env) enc of
              Oops \<Rightarrow> Oops
            | Ret (_, c) \<Rightarrow>
                let planes = (case r of Inl _ \<Rightarrow> (None, None) | Inr ps \<Rightarrow> ps)
                in Ret \<lparr>config = evdi_mode_config, crtc_made = (\<exists>ps. r = Inr ps), primary_plane = fst planes,
                     cursor_plane = snd planes, encoder = enc, conn = c\<rparr>)"

section \<open>Properties\<close>

definition works :: "bool \<times> nat result \<Rightarrow> bool" where
  "works p \<longleftrightarrow> fst p \<and> (\<exists>x. snd p = Inr x)"

lemma works_plane: "works p \<longleftrightarrow> evdi_create_plane (fst p) (snd p) \<noteq> None"
  by (auto simp: works_def evdi_create_plane_def split: sum.splits)

lemma works_encoder: "works p \<longleftrightarrow> evdi_encoder_init (fst p) (snd p) \<noteq> None"
  by (auto simp: works_def evdi_encoder_init_def split: sum.splits)

text \<open>
  Making the pipeline dereferences NULL exactly when a CRTC gets no primary plane or a connector no
  encoder; in every other case it goes on, with whatever part is missing, and its limits are set.
\<close>

theorem modeset_init_cases:
  "if me_crtc env \<and> \<not> works (me_primary env) \<or> me_connector env \<noteq> None \<and> \<not> works (me_encoder env)
   then evdi_modeset_init env = Oops
   else \<exists>p. evdi_modeset_init env = Ret p \<and> config p = evdi_mode_config \<and> crtc_made p = me_crtc env \<and>
     conn p = me_connector env \<and> (primary_plane p \<noteq> None \<longleftrightarrow> me_crtc env) \<and>
     (cursor_plane p \<noteq> None \<longleftrightarrow> me_crtc env \<and> works (me_cursor env)) \<and> (encoder p \<noteq> None \<longleftrightarrow> works (me_encoder env))"
  using works_plane [of "me_primary env"] works_plane [of "me_cursor env"] works_encoder [of "me_encoder env"]
  by (auto simp: evdi_modeset_init_def evdi_crtc_init_def evdi_connector_init_def Let_def split: option.splits)

text \<open>
  A screen of the console within the limits of the pipeline always fits its object: the size, computed in
  32 bits, does not wrap.
\<close>

theorem console_screen_fits:
  assumes "evdi_modeset_init menv = Ret p" and "evdifb_create env sizes zero_fbdev = (Inr (), dev, Some obj, cs)"
    and "surface_width sizes \<le> max_width (config p)" and "surface_height sizes \<le> max_height (config p)"
    and "surface_height sizes \<noteq> 0"
  shows "\<exists>fix a. helper_info dev = Some fix \<and> gem_size obj = unat (smem_len fix) \<and>
    unat (fb_pitch (efb dev)) = 4 * unat (fb_width (efb dev)) \<and>
    unat (fb_pitch (efb dev)) * unat (fb_height (efb dev)) \<le> unat (smem_len fix) \<and>
    cs = [] \<and> fe_alloc env = Some a \<and> snd (evdi_fbdev_destroy dev) = [GemPut a]"
proof -
  have "config p = evdi_mode_config"
    using assms(1) by (auto simp: evdi_modeset_init_def Let_def split: outcome.splits prod.splits)
  then have w: "unat (surface_width sizes) \<le> 7680" and h: "unat (surface_height sizes) \<le> 4320"
    using assms(3,4) by (simp_all add: evdi_mode_config_def word_le_nat_alt)
  have "unat (surface_width sizes) * 4 * unat (surface_height sizes) \<le> 7680 * 4 * 4320"
    using w h by (intro mult_le_mono) simp_all
  then have "unat (surface_width sizes) * 4 * unat (surface_height sizes) + 4095 \<le> 7680 * 4 * 4320 + 4095"
    by (rule add_right_mono)
  also have "\<dots> < 2 ^ 32" by simp
  finally have "unat (surface_width sizes) * 4 * unat (surface_height sizes) + 4095 < 2 ^ 32" .
  from fbdev_screen_fits [OF assms(2) this assms(5)] show ?thesis .
qed

theorem console_screen_fits_witness:
  "\<exists>dev obj. evdifb_create sample_fbdev_env sample_sizes zero_fbdev = (Inr (), dev, Some obj, []) \<and>
     unat (fb_pitch (efb dev)) * unat (fb_height (efb dev)) \<le> gem_size obj"
proof -
  let ?menv = "\<lparr>me_crtc = True, me_primary = (True, Inr 1), me_cursor = (True, Inr 2), me_encoder = (True, Inr 3),
      me_connector = Some 4\<rparr>"
  obtain p where p: "evdi_modeset_init ?menv = Ret p" "config p = evdi_mode_config"
    using modeset_init_cases [of ?menv] by (auto simp: works_def)
  obtain dev obj cs where c: "evdifb_create sample_fbdev_env sample_sizes zero_fbdev = (Inr (), dev, Some obj, cs)"
    by (simp add: evdifb_create_def sample_fbdev_env_def sample_sizes_def fbdev_command_def
        evdi_gem_alloc_object_def evdi_gem_vmap_def evdi_drm_gem_object_use_import_attach_def
        evdi_pin_pages_def evdi_gem_get_pages_def gem_emit_def evdi_framebuffer_init_def Let_def)
  show ?thesis
    using console_screen_fits [OF p(1) c] c p(2) by (auto simp: sample_sizes_def evdi_mode_config_def)
qed

end
