(* ===== verification/Evdi_Ioc32.thy ===== *)
theory Evdi_Ioc32
  imports Evdi_Grab Evdi_Ddcci
begin

text \<open>
  Requests of 32-bit clients to a 64-bit driver, \<open>module/evdi_ioc32.c\<close>: the structures with narrow
  pointers, their translation, and the choice of the requests that are translated.
\<close>

section \<open>The structures\<close>

record drm_evdi_connect32 =
  c32_connected :: s32
  c32_dev_index :: s32
  c32_edid_ptr32 :: u32
  c32_edid_length :: u32
  c32_pixel_area_limit :: u32
  c32_pixel_per_second_limit :: u32

record drm_evdi_grabpix32 =
  g32_mode :: u32
  g32_buf_width :: s32
  g32_buf_height :: s32
  g32_buf_byte_stride :: s32
  g32_buffer_ptr32 :: u32
  g32_num_rects :: s32
  g32_rects_ptr32 :: u32

text \<open>The 32-bit field number \<open>i\<close> of a structure in memory.\<close>

definition word_at :: "u8 list \<Rightarrow> nat \<Rightarrow> u32" where
  "word_at bs i = le_word (take 4 (drop (4 * i) bs))"

definition read_connect32 :: "u8 list \<Rightarrow> drm_evdi_connect32" where
  "read_connect32 bs =
     \<lparr>c32_connected = word_at bs 0, c32_dev_index = word_at bs 1, c32_edid_ptr32 = word_at bs 2,
      c32_edid_length = word_at bs 3, c32_pixel_area_limit = word_at bs 4,
      c32_pixel_per_second_limit = word_at bs 5\<rparr>"

definition read_grabpix32 :: "u8 list \<Rightarrow> drm_evdi_grabpix32" where
  "read_grabpix32 bs =
     \<lparr>g32_mode = word_at bs 0, g32_buf_width = word_at bs 1, g32_buf_height = word_at bs 2,
      g32_buf_byte_stride = word_at bs 3, g32_buffer_ptr32 = word_at bs 4, g32_num_rects = word_at bs 5,
      g32_rects_ptr32 = word_at bs 6\<rparr>"

definition words_bytes :: "u32 list \<Rightarrow> u8 list" where
  "words_bytes ws = concat (map (le_bytes 4) ws)"

definition grabpix32_bytes :: "drm_evdi_grabpix32 \<Rightarrow> u8 list" where
  "grabpix32_bytes r = words_bytes
     [g32_mode r, g32_buf_width r, g32_buf_height r, g32_buf_byte_stride r, g32_buffer_ptr32 r,
      g32_num_rects r, g32_rects_ptr32 r]"

definition connect32_bytes :: "drm_evdi_connect32 \<Rightarrow> u8 list" where
  "connect32_bytes r = words_bytes
     [c32_connected r, c32_dev_index r, c32_edid_ptr32 r, c32_edid_length r, c32_pixel_area_limit r,
      c32_pixel_per_second_limit r]"

section \<open>The translations\<close>

definition compat_ptr :: "u32 \<Rightarrow> u64" where
  "compat_ptr p = ucast p"

definition connect_of_32 :: "drm_evdi_connect32 \<Rightarrow> drm_evdi_connect" where
  "connect_of_32 r =
     \<lparr>connected = c32_connected r, conn_edid = compat_ptr (c32_edid_ptr32 r),
      conn_edid_length = c32_edid_length r, conn_pixel_area_limit = c32_pixel_area_limit r,
      conn_pixel_per_second_limit = c32_pixel_per_second_limit r\<rparr>"

text \<open>Of the modes only the dirty one is told apart by the driver.\<close>

definition grabpix_of_32 :: "drm_evdi_grabpix32 \<Rightarrow> drm_evdi_grabpix" where
  "grabpix_of_32 r =
     \<lparr>mode = (if g32_mode r = 1 then EVDI_GRABPIX_MODE_DIRTY else EVDI_GRABPIX_MODE_RECTS),
      buf_width = g32_buf_width r, buf_height = g32_buf_height r, buf_byte_stride = g32_buf_byte_stride r,
      buffer = compat_ptr (g32_buffer_ptr32 r), num_rects = sint (g32_num_rects r),
      rects_ptr = compat_ptr (g32_rects_ptr32 r)\<rparr>"

text \<open>\<open>serve\<close> is the driver's own handler, on its state and the user's memory.\<close>

definition compat_evdi_connect ::
  "copy_from_user \<Rightarrow> (drm_evdi_connect \<Rightarrow> 'k \<Rightarrow> unit result \<times> 'k) \<Rightarrow> u64 \<Rightarrow> umem \<Rightarrow> 'k \<Rightarrow>
     unit result \<times> 'k" where
  "compat_evdi_connect cfu serve arg mem k =
     (case cfu mem arg 24 of
        None \<Rightarrow> (Inl EFAULT, k)
      | Some bs \<Rightarrow> serve (connect_of_32 (read_connect32 bs)) k)"

definition compat_evdi_grabpix ::
  "copy_from_user \<Rightarrow> copy_to_user \<Rightarrow>
     (drm_evdi_grabpix \<Rightarrow> 'k \<Rightarrow> umem \<Rightarrow> (unit result \<times> drm_evdi_grabpix \<times> 'k \<times> umem) outcome) \<Rightarrow>
     u64 \<Rightarrow> 'k \<Rightarrow> umem \<Rightarrow> (unit result \<times> 'k \<times> umem) outcome" where
  "compat_evdi_grabpix cfu ctu serve arg k mem =
     (case cfu mem arg 28 of
        None \<Rightarrow> Ret (Inl EFAULT, k, mem)
      | Some bs \<Rightarrow>
          let req32 = read_grabpix32 bs
          in (case serve (grabpix_of_32 req32) k mem of
                Oops \<Rightarrow> Oops
              | Ret (Inl e, _, k1, mem1) \<Rightarrow> Ret (Inl e, k1, mem1)
              | Ret (Inr _, cmd1, k1, mem1) \<Rightarrow>
                  let (failed, mem2) = ctu mem1 arg
                        (grabpix32_bytes (req32\<lparr>g32_num_rects := of_int (num_rects cmd1)\<rparr>))
                  in Ret (if failed then Inl EFAULT else Inr (), k1, mem2)))"

section \<open>The choice of the handler\<close>

datatype handler = DrmCompat | CompatConnect | CompatGrabpix | Native

definition DRM_COMMAND_BASE :: nat where "DRM_COMMAND_BASE = 0x40"
definition DRM_COMMAND_END :: nat where "DRM_COMMAND_END = 0xA0"

definition evdi_compat_ioctls :: "handler option list" where
  "evdi_compat_ioctls = [Some CompatConnect, None, Some CompatGrabpix]"

text \<open>\<open>nr\<close> is the number of the request.\<close>

definition evdi_compat_ioctl :: "nat \<Rightarrow> handler" where
  "evdi_compat_ioctl nr =
     (if nr < DRM_COMMAND_BASE \<or> DRM_COMMAND_END \<le> nr then DrmCompat
      else case (if nr < DRM_COMMAND_BASE + length evdi_compat_ioctls
                 then evdi_compat_ioctls ! (nr - DRM_COMMAND_BASE) else None) of
          Some fn \<Rightarrow> fn
        | None \<Rightarrow> Native)"

text \<open>
  What the handler of a native request reads: the client's bytes, filled up with zeros to the size of
  the 64-bit structure.
\<close>

definition native_ddcci_response :: "u8 list \<Rightarrow> drm_evdi_ddcci_response" where
  "native_ddcci_response bs =
     \<lparr>resp_buffer = le_word (take 8 bs), resp_buffer_length = le_word (take 4 (drop 8 bs)),
      resp_result = bs ! 12\<rparr>"

definition ddcci_response32_bytes :: "u32 \<Rightarrow> u32 \<Rightarrow> u8 \<Rightarrow> u8 list" where
  "ddcci_response32_bytes ptr len ok = le_bytes 4 ptr @ le_bytes 4 len @ [ok, 0, 0, 0]"

section \<open>Bytes of fields\<close>

lemma word_at_words_bytes: "i < length ws \<Longrightarrow> word_at (words_bytes ws) i = ws ! i"
proof (induction ws arbitrary: i)
  case (Cons w ws)
  show ?case
  proof (cases i)
    case 0
    then show ?thesis by (simp add: word_at_def words_bytes_def le_word_bytes del: le_bytes.simps)
  next
    case (Suc k)
    then have "word_at (words_bytes ws) k = ws ! k" using Cons by simp
    then show ?thesis by (simp add: Suc word_at_def words_bytes_def del: le_bytes.simps)
  qed
qed simp

lemma read_grabpix32_bytes: "read_grabpix32 (grabpix32_bytes r) = r"
  by (cases r) (simp add: read_grabpix32_def grabpix32_bytes_def word_at_words_bytes)

lemma read_connect32_bytes: "read_connect32 (connect32_bytes r) = r"
  by (cases r) (simp add: read_connect32_def connect32_bytes_def word_at_words_bytes)

lemma bit_le_word_bytes:
  "bit (le_word (le_bytes n w) :: 'b::len word) k \<longleftrightarrow> k < LENGTH('b) \<and> k < 8 * n \<and> bit (w :: 'a::len word) k"
proof (induction n arbitrary: w k)
  case (Suc n)
  show ?case by (cases "k < 8") (auto simp: Suc bit_simps not_less dest: bit_imp_le_length)
qed simp

lemma le_word_append:
  "(le_word (xs @ ys) :: 'a::len word) = le_word xs OR push_bit (8 * length xs) (le_word ys)"
  by (induction xs) (simp_all add: push_bit_or or.assoc push_bit_push_bit add.commute)

lemma le_word_ucast: "LENGTH('a) \<le> 8 * n \<Longrightarrow> (le_word (le_bytes n (w :: 'a::len word)) :: 'b::len word) = ucast w"
  by (rule bit_word_eqI) (auto simp: bit_le_word_bytes bit_ucast_iff dest: bit_imp_le_length)

text \<open>The bytes \<open>bs\<close> are in the user's memory at \<open>addr\<close>.\<close>

definition holds_bytes :: "umem \<Rightarrow> u64 \<Rightarrow> u8 list \<Rightarrow> bool" where
  "holds_bytes mem addr bs \<longleftrightarrow> (\<forall>i<length bs. mem (addr + of_nat i) = bs ! i)"

lemma copy_of_held:
  assumes "copy_from_user_ok cfu" and "holds_bytes mem addr bs" and "cfu mem addr (length bs) = Some cs"
  shows "cs = bs"
  using assms by (intro nth_equalityI) (auto simp: copy_from_user_ok_def holds_bytes_def)

lemma length_words_bytes: "length (words_bytes ws) = 4 * length ws"
  by (induction ws) (simp_all add: words_bytes_def del: le_bytes.simps)

lemma length_structures: "length (grabpix32_bytes g) = 28" "length (connect32_bytes c) = 24"
  by (simp_all add: grabpix32_bytes_def connect32_bytes_def length_words_bytes)

section \<open>Properties\<close>


definition sample_connect32 :: drm_evdi_connect32 where
  "sample_connect32 = \<lparr>c32_connected = 1, c32_dev_index = 0, c32_edid_ptr32 = 0x8000, c32_edid_length = 128,
     c32_pixel_area_limit = 100, c32_pixel_per_second_limit = 6000\<rparr>"

definition sample_grabpix32 :: drm_evdi_grabpix32 where
  "sample_grabpix32 = \<lparr>g32_mode = 1, g32_buf_width = 2, g32_buf_height = 2, g32_buf_byte_stride = 8,
     g32_buffer_ptr32 = 0x1000, g32_num_rects = 16, g32_rects_ptr32 = 0x2000\<rparr>"


text \<open>
  The response to a DDC/CI message is not among the requests that are translated, and what the
  driver reads from a 32-bit client is wrong in every field: the length is taken for the upper half of
  the address, the result for the length.
\<close>

theorem compat_ddcci_misread:
  "evdi_compat_ioctl (DRM_COMMAND_BASE + 3) = Native \<and>
   native_ddcci_response (ddcci_response32_bytes ptr len ok @ replicate 4 0) =
     \<lparr>resp_buffer = ucast ptr OR push_bit 32 (ucast len), resp_buffer_length = ucast ok, resp_result = 0\<rparr>"
proof -
  have t: "take 8 (ddcci_response32_bytes ptr len ok @ replicate 4 0) = le_bytes 4 ptr @ le_bytes 4 len"
    by (simp add: ddcci_response32_bytes_def del: le_bytes.simps)
  have d: "take 4 (drop 8 (ddcci_response32_bytes ptr len ok @ replicate 4 0)) = [ok, 0, 0, 0]"
    by (simp add: ddcci_response32_bytes_def del: le_bytes.simps)
  have r: "(ddcci_response32_bytes ptr len ok @ replicate 4 0) ! 12 = 0"
    by (simp add: ddcci_response32_bytes_def nth_append del: le_bytes.simps)
  have w: "(le_word [ok, 0, 0, 0] :: u32) = ucast ok" by simp
  have b: "(le_word (le_bytes 4 ptr @ le_bytes 4 len) :: u64) = ucast ptr OR push_bit 32 (ucast len)"
    by (simp add: le_word_append le_word_ucast del: le_bytes.simps)
  show ?thesis
    unfolding native_ddcci_response_def t d r w b
    by (simp add: evdi_compat_ioctl_def DRM_COMMAND_BASE_def DRM_COMMAND_END_def evdi_compat_ioctls_def)
qed

end
