(* ===== verification/Evdi_Debug.thy ===== *)
theory Evdi_Debug
  imports Evdi_Sysfs
begin

text \<open>
  The log, \<open>module/evdi_debug.h\<close> and \<open>module/evdi_debug.c\<close>, the parameters of the module,
  \<open>module/evdi_params.c\<close>, and the message \<open>evdi_driver_open\<close> of \<open>module/evdi_drm_drv.c\<close> writes with
  the name of the process that opens a card. The log is the list of the lines printed.
\<close>

section \<open>Levels\<close>

definition EVDI_LOGLEVEL_FATAL :: u32 where "EVDI_LOGLEVEL_FATAL = 1"
definition EVDI_LOGLEVEL_ERROR :: u32 where "EVDI_LOGLEVEL_ERROR = 2"
definition EVDI_LOGLEVEL_WARN :: u32 where "EVDI_LOGLEVEL_WARN = 3"
definition EVDI_LOGLEVEL_INFO :: u32 where "EVDI_LOGLEVEL_INFO = 4"
definition EVDI_LOGLEVEL_DEBUG :: u32 where "EVDI_LOGLEVEL_DEBUG = 5"

definition EVDI_PRINTK :: "u32 \<Rightarrow> u32 \<Rightarrow> string \<Rightarrow> string list \<Rightarrow> string list" where
  "EVDI_PRINTK evdi_loglevel level text lines =
     (if level \<le> evdi_loglevel then lines @ [''evdi: '' @ text] else lines)"

definition EVDI_INFO :: "u32 \<Rightarrow> string \<Rightarrow> string list \<Rightarrow> string list" where
  "EVDI_INFO evdi_loglevel text lines = EVDI_PRINTK evdi_loglevel EVDI_LOGLEVEL_INFO (''[I] '' @ text) lines"

text \<open>
  The parameters as the kernel sets them: the level is parsed as an \<open>int\<close> and stored in an unsigned one,
  the count is an \<open>unsigned short\<close>. \<open>None\<close> is a parameter that is not given.
\<close>

definition initial_loglevel :: "s32 option \<Rightarrow> u32" where
  "initial_loglevel p = (case p of None \<Rightarrow> EVDI_LOGLEVEL_INFO | Some l \<Rightarrow> l)"

definition initial_device_count :: "u16 option \<Rightarrow> u16" where
  "initial_device_count p = (case p of None \<Rightarrow> 0 | Some n \<Rightarrow> n)"

section \<open>The name of a process\<close>

text \<open>The bytes \<open>snprintf\<close> leaves in a buffer before the NUL, and a signed number in decimal.\<close>

definition snprintf :: "nat \<Rightarrow> string \<Rightarrow> string" where
  "snprintf size_of text = take (size_of - 1) text"

definition signed_decimal :: "s32 \<Rightarrow> string" where
  "signed_decimal n =
     (if sint n < 0 then CHR ''-'' # decimal (nat (- sint n)) else decimal (nat (sint n)))"

definition TASK_COMM_LEN :: nat where
  "TASK_COMM_LEN = 16"

text \<open>A task: its number and the name \<open>get_task_comm\<close> copies, with its NUL in \<open>TASK_COMM_LEN\<close> bytes.\<close>

record task =
  pid :: s32
  comm :: string

definition task_text :: "task \<Rightarrow> task option \<Rightarrow> string" where
  "task_text current leader =
     ''Task '' @ signed_decimal (pid current) @ '' ('' @ comm current @ '')'' @
     (case leader of
        None \<Rightarrow> []
      | Some l \<Rightarrow> '' of process '' @ signed_decimal (pid l) @ '' ('' @ comm l @ '')'')"

definition evdi_log_process :: "nat \<Rightarrow> task \<Rightarrow> task option \<Rightarrow> string" where
  "evdi_log_process size_of current leader = snprintf size_of (task_text current leader)"

text \<open>\<open>index\<close> is the number of the card; a card can always be opened.\<close>

definition evdi_driver_open ::
  "u32 \<Rightarrow> nat \<Rightarrow> task \<Rightarrow> task option \<Rightarrow> string list \<Rightarrow> unit result \<times> string list" where
  "evdi_driver_open evdi_loglevel index current leader lines =
     (let buf = evdi_log_process 100 current leader
      in (Inr (), EVDI_INFO evdi_loglevel
           (''(card'' @ decimal index @ '') Opened by '' @ buf @ [CHR 0x0A]) lines))"

section \<open>The message is never cut\<close>

lemma decimal_length: "n < 10 ^ k \<Longrightarrow> 0 < k \<Longrightarrow> length (decimal n) \<le> k"
proof (induction k arbitrary: n)
  case (Suc k)
  show ?case
  proof (cases "n < 10")
    case False
    then have "k \<noteq> 0" using Suc.prems(1) by (cases k) auto
    moreover have "n div 10 < 10 ^ k" using Suc.prems(1) by (simp add: less_mult_imp_div_less mult.commute)
    ultimately have "length (decimal (n div 10)) \<le> k" using Suc.IH by simp
    then show ?thesis using False by (subst decimal.simps) simp
  qed (subst decimal.simps, simp)
qed simp

lemma signed_decimal_length: "length (signed_decimal n) \<le> 11"
proof -
  have "- (2 ^ 31) \<le> sint n" "sint n < 2 ^ 31"
    using sint_ge [of n] sint_lt [of n] by simp_all
  then have "nat (- sint n) < 10 ^ 10" "nat (sint n) < 10 ^ 10" by simp_all
  then have "length (decimal (nat (- sint n))) \<le> 10" "length (decimal (nat (sint n))) \<le> 10"
    using decimal_length [of _ 10] by simp_all
  then show ?thesis by (simp add: signed_decimal_def)
qed

text \<open>
  The line that names the process opening a card fits the hundred bytes kept for it, whatever the
  numbers and the names.
\<close>

theorem process_name_fits:
  assumes "length (comm current) < TASK_COMM_LEN"
    and "\<And>l. leader = Some l \<Longrightarrow> length (comm l) < TASK_COMM_LEN"
  shows "evdi_log_process 100 current leader = task_text current leader"
proof -
  have "length (task_text current leader) \<le> 99"
  proof (cases leader)
    case (Some l)
    then have "length (comm l) < TASK_COMM_LEN" by (rule assms(2))
    then show ?thesis
      using assms(1) signed_decimal_length [of "pid current"] signed_decimal_length [of "pid l"] Some
      by (simp add: task_text_def TASK_COMM_LEN_def)
  qed (use assms(1) signed_decimal_length [of "pid current"] in \<open>simp add: task_text_def TASK_COMM_LEN_def\<close>)
  then show ?thesis by (simp add: evdi_log_process_def snprintf_def)
qed

theorem process_name_fits_witness:
  "evdi_log_process 100 \<lparr>pid = 7, comm = ''Xorg''\<rparr> None = ''Task 7 (Xorg)''"
  using process_name_fits [of "\<lparr>pid = 7, comm = ''Xorg''\<rparr>" None]
  by (simp add: TASK_COMM_LEN_def task_text_def signed_decimal_def decimal.simps char_of_def bit_0)

text \<open>
  The level written to the file is checked, the parameter is not: a level of minus one prints
  everything, and what the file then shows cannot be written to it.
\<close>

theorem unchecked_loglevel:
  "EVDI_PRINTK (initial_loglevel (Some (- 1))) level text lines = lines @ [''evdi: '' @ text] \<and>
   loglevel_store (loglevel_show (initial_loglevel (Some (- 1)))) l0 = (Inl EINVAL, l0)"
proof
  show "EVDI_PRINTK (initial_loglevel (Some (- 1))) level text lines = lines @ [''evdi: '' @ text]"
    by (simp add: EVDI_PRINTK_def initial_loglevel_def)
  have "\<not> (- 1 :: u32) \<le> EVDI_LOGLEVEL_VERBOSE" unfolding EVDI_LOGLEVEL_VERBOSE_def by code_simp
  then show "loglevel_store (loglevel_show (initial_loglevel (Some (- 1)))) l0 = (Inl EINVAL, l0)"
    using shown_numbers_read_back [of empty_registry "- 1" l0] by (simp add: initial_loglevel_def)
qed

end
