(* ===== verification/Evdi_Module.thy ===== *)
theory Evdi_Module
  imports Evdi_Debug Evdi_Drm
begin

text \<open>
  Loading and unloading the module, \<open>evdi_init\<close> and \<open>evdi_exit\<close> of \<open>module/evdi_platform_drv.c\<close>: what is
  registered with the rest of the kernel on the way, the files of \<open>evdi_sysfs_init\<close>, and what stays
  registered when loading fails.
\<close>

section \<open>What the module registers\<close>

text \<open>
  The root device, which carries the registry as its driver data, the module's place in the chain of USB
  notifiers, the files below the root device, and the platform driver.
\<close>

record module_state =
  root_device :: bool
  usb_chain :: bool
  root_files :: "string list"
  platform_driver :: bool
  registry :: evdi_platform_drv_context

definition unloaded :: module_state where
  "unloaded = \<lparr>root_device = False, usb_chain = False, root_files = [], platform_driver = False,
     registry = empty_registry\<rparr>"

text \<open>
  How the calls end: whether the root device could be registered, whether a file could be made, the
  result of registering the driver, and the cards asked for by the parameter.
\<close>

record load_env =
  root_ok :: bool
  file_ok :: "string \<Rightarrow> bool"
  driver_ok :: "unit result"
  new_devices :: "nat \<Rightarrow> new_device"
  device_count :: u16

definition evdi_device_attributes :: "string list" where
  "evdi_device_attributes = [''count'', ''version'', ''loglevel'', ''add'', ''remove_all'']"

definition evdi_sysfs_init :: "bool \<Rightarrow> (string \<Rightarrow> bool) \<Rightarrow> string list \<Rightarrow> string list" where
  "evdi_sysfs_init root_valid made files =
     (if root_valid then files @ filter made evdi_device_attributes else files)"

definition evdi_sysfs_exit :: "bool \<Rightarrow> string list \<Rightarrow> string list" where
  "evdi_sysfs_exit root_valid files =
     (if \<not> root_valid then files else filter (\<lambda>f. f \<notin> set evdi_device_attributes) files)"

text \<open>
  The driver data are stored through the root device before anything looks whether it is an error
  pointer (\<open>Oops\<close>). The cards are added by \<open>evdi_init\<close> of \<open>Evdi_Platform\<close>, the part of the function
  that follows the registration of the driver. Nothing is taken back on an error.
\<close>

definition load_module :: "load_env \<Rightarrow> (unit result \<times> module_state) outcome" where
  "load_module env =
     (if \<not> root_ok env then Oops
      else
        let m = unloaded\<lparr>root_device := True, usb_chain := True,
                  root_files := evdi_sysfs_init True (file_ok env) [],
                  platform_driver := (driver_ok env = Inr ())\<rparr>
        in case evdi_init (driver_ok env) (new_devices env) (ucast (device_count env)) of
            Oops \<Rightarrow> Oops
          | Ret (r, ctx) \<Rightarrow> Ret (r, m\<lparr>registry := ctx\<rparr>))"

definition unload_module :: "module_state \<Rightarrow> module_state" where
  "unload_module m =
     (let m1 = m\<lparr>registry := evdi_platform_remove_all_devices (registry m), platform_driver := False\<rparr>
      in if root_device m
         then m1\<lparr>root_files := evdi_sysfs_exit True (root_files m1), usb_chain := False, root_device := False\<rparr>
         else m1)"

definition evdi_platform_device_count :: "module_state \<Rightarrow> u32" where
  "evdi_platform_device_count m = dev_count (registry m)"

text \<open>
  A notification of the USB core is delivered to all in the chain; \<open>present\<close> says that the module is in
  memory, which it is not after a failed load.
\<close>

definition usb_notification :: "bool \<Rightarrow> bool \<Rightarrow> nat option \<Rightarrow> module_state \<Rightarrow> module_state outcome" where
  "usb_notification present deleted usb m =
     (if \<not> usb_chain m then Ret m
      else if \<not> present then Oops
      else map_outcome (\<lambda>ctx. m\<lparr>registry := ctx\<rparr>) (evdi_platform_drv_usb deleted usb (registry m)))"

text \<open>
  The core calls the remove function of the driver for a device that is bound; the card is taken apart
  and the data are freed. A device without data makes it read through NULL.
\<close>

definition evdi_platform_device_remove :: "drm_dev option \<Rightarrow> drm_dev outcome" where
  "evdi_platform_device_remove data = (case data of None \<Rightarrow> Oops | Some dev \<Rightarrow> evdi_drm_device_remove dev)"

section \<open>Properties\<close>

lemma removed_registry: "length (devices ctx) = EVDI_DEVICE_COUNT_MAX \<Longrightarrow> devices ctx' = map (\<lambda>_. None) (devices ctx) \<Longrightarrow>
    dev_count ctx' = 0 \<Longrightarrow> ctx' = empty_registry"
  by (simp add: empty_registry_def map_replicate_const)

text \<open>What loading leaves, whatever its result.\<close>

lemma load_module_registers:
  assumes "load_module env = Ret (r, m)"
  shows "root_device m \<and> usb_chain m \<and> root_files m = filter (file_ok env) evdi_device_attributes \<and>
    (r = Inr () \<longrightarrow> platform_driver m)"
  using assms by (auto simp: load_module_def evdi_sysfs_init_def evdi_init_def Let_def
      split: if_splits outcome.splits sum.splits)

text \<open>
  C27: a module that was loaded and did whatever its registry allows leaves nothing behind when it is
  unloaded: no card, no file, no driver and no notifier.
\<close>

theorem load_unload_roundtrip:
  assumes "load_module env = Ret (Inr (), m)" and "registry_ok ctx"
  shows "unload_module (m\<lparr>registry := ctx\<rparr>) = unloaded"
proof -
  have "evdi_platform_remove_all_devices ctx = empty_registry"
    using assms(2) by (intro removed_registry [of ctx])
      (simp_all add: registry_ok_def evdi_platform_remove_all_devices_def)
  moreover have "filter (\<lambda>f. f \<notin> set evdi_device_attributes) (filter (file_ok env) evdi_device_attributes) = []"
    by (simp add: filter_empty_conv)
  ultimately show ?thesis
    using load_module_registers [OF assms(1)]
    by (simp add: unload_module_def evdi_sysfs_exit_def unloaded_def)
qed


section \<open>Concrete loads\<close>

definition sample_load_env :: "u16 \<Rightarrow> load_env" where
  "sample_load_env n = \<lparr>root_ok = True, file_ok = (\<lambda>_. True), driver_ok = Inr (), new_devices = (\<lambda>_. sample_new),
     device_count = n\<rparr>"

theorem load_unload_roundtrip_witness:
  "\<exists>m. load_module (sample_load_env 0) = Ret (Inr (), m) \<and> usb_chain m \<and>
     root_files m = [''count'', ''version'', ''loglevel'', ''add'', ''remove_all''] \<and>
     unload_module (m\<lparr>registry := empty_registry\<rparr>) = unloaded"
proof -
  obtain m where m: "load_module (sample_load_env 0) = Ret (Inr (), m)"
    by (simp add: load_module_def sample_load_env_def evdi_init_def)
  show ?thesis
    using m load_unload_roundtrip [OF m empty_registry_ok(1)] load_module_registers [OF m]
    by (simp add: sample_load_env_def evdi_device_attributes_def)
qed


end
