(* ===== verification/Evdi_Console.thy ===== *)
theory Evdi_Console
  imports Evdi_Session Evdi_Drm
begin

text \<open>
  Switches of the console, which the painter of \<open>module/evdi_painter.c\<close> hears of through its notifier,
  and the commits of \<open>module/evdi_modeset.c\<close> that follow them; and the KUnit tests of
  \<open>module/tests\<close>, run on the model.
\<close>

section \<open>One event\<close>

text \<open>The events of a step that may not be squashed: those sent, then those that wait.\<close>

definition told :: "drm_call list \<Rightarrow> evdi_painter \<Rightarrow> drm_event list" where
  "told cs p = kept (sent_events cs @ pending_events p)"

lemma send_event_client:
  assumes "has_client p" and "evdi_painter_send_event reserve (Some e) p = (p', cs)"
  obtains pend w where "p' = p\<lparr>pending_events := pend, send_events_work := w\<rparr>"
    and "told cs p' = kept (pending_events p) @ kept [e]" and "has_client p'"
proof -
  have d: "deliver (Offer reserve e) p = (p', cs)" using assms(2) by (simp add: deliver_def)
  have k: "told cs p' = kept (pending_events p) @ kept [e]"
    using deliver_view [OF assms(1) d] by (simp add: offered_def told_def)
  obtain lst freed where l: "add_event_to_pending_list (pending_events p) e = (lst, freed)" by fastforce
  obtain sent left where f: "flush_pending reserve 0 lst = (sent, left)" by fastforce
  have "\<exists>pend w. p' = p\<lparr>pending_events := pend, send_events_work := w\<rparr>"
  proof (cases "send_events_work p")
    case True
    then have "p' = p\<lparr>pending_events := lst, send_events_work := True\<rparr>"
      using assms l by (auto simp: evdi_painter_send_event_def has_client_def)
    then show ?thesis by blast
  next
    case False
    then have "p' = p\<lparr>pending_events := left, send_events_work := (left \<noteq> [])\<rparr>"
      using assms l f
      by (auto simp: evdi_painter_send_event_def evdi_painter_flush_pending_events_def has_client_def
          Let_def split: if_splits)
    then show ?thesis by blast
  qed
  then show thesis using that k assms(1) by (auto simp: has_client_def)
qed

section \<open>Switching away and back\<close>

lemma vt_switch_client:
  assumes "has_client p" and "\<not> needs_full_modeset p" and "console \<noteq> fg_console p"
    and "evdi_painter_vt_notifier_call reserve True console p = (p', cs)"
  obtains pend w where "p' = p\<lparr>pending_events := pend, send_events_work := w, needs_full_modeset := True\<rparr>"
    and "told cs p' = kept (pending_events p) @ [Dpms DRM_MODE_DPMS_OFF]" and "has_client p'"
proof -
  have c: "is_connected p" using assms(1) by (simp add: has_client_def)
  obtain p1 cs1 where s: "evdi_painter_send_event reserve (Some (Dpms DRM_MODE_DPMS_OFF)) p = (p1, cs1)"
    by fastforce
  have "DRM_MODE_DPMS_OFF \<noteq> DRM_MODE_DPMS_ON" by (simp add: DRM_MODE_DPMS_ON_def DRM_MODE_DPMS_OFF_def)
  then have "evdi_painter_vt_notifier_call reserve True console p = (p1\<lparr>needs_full_modeset := True\<rparr>, cs1)"
    using assms(2,3) c s by (simp add: evdi_painter_vt_notifier_call_def evdi_painter_dpms_notify_def
        evdi_painter_send_dpms_def evdi_painter_force_full_modeset_def)
  then have e: "p' = p1\<lparr>needs_full_modeset := True\<rparr>" "cs = cs1" using assms(4) by simp_all
  obtain pend w where 1: "p1 = p\<lparr>pending_events := pend, send_events_work := w\<rparr>"
      "told cs1 p1 = kept (pending_events p) @ kept [Dpms DRM_MODE_DPMS_OFF]" "has_client p1"
    by (rule send_event_client [OF assms(1) s])
  show thesis
  proof (rule that)
    show "p' = p\<lparr>pending_events := pend, send_events_work := w, needs_full_modeset := True\<rparr>"
      unfolding e(1) 1(1) by simp
    show "told cs p' = kept (pending_events p) @ [Dpms DRM_MODE_DPMS_OFF]"
      using 1(2) unfolding e by (simp add: told_def squashable_iff)
    show "has_client p'" using 1(3) unfolding e(1) by (simp add: has_client_def)
  qed
qed

lemma dpms_on_client:
  assumes "has_client p" and "evdi_painter_dpms_notify reserve True console DRM_MODE_DPMS_ON p = (p', cs)"
  obtains pend w where "p' = p\<lparr>fg_console := console, pending_events := pend, send_events_work := w\<rparr>"
    and "told cs p' = kept (pending_events p) @ [Dpms DRM_MODE_DPMS_ON]" and "has_client p'"
proof -
  have h: "has_client (p\<lparr>fg_console := console\<rparr>)" and c: "is_connected p"
    using assms(1) by (simp_all add: has_client_def)
  have s: "evdi_painter_send_event reserve (Some (Dpms DRM_MODE_DPMS_ON)) (p\<lparr>fg_console := console\<rparr>) = (p', cs)"
    using assms(2) c by (simp add: evdi_painter_dpms_notify_def evdi_painter_send_dpms_def)
  obtain pend w where 1: "p' = p\<lparr>fg_console := console\<rparr>\<lparr>pending_events := pend, send_events_work := w\<rparr>"
      "told cs p' = kept (pending_events (p\<lparr>fg_console := console\<rparr>)) @ kept [Dpms DRM_MODE_DPMS_ON]" "has_client p'"
    by (rule send_event_client [OF h s])
  show thesis
  proof (rule that)
    show "p' = p\<lparr>fg_console := console, pending_events := pend, send_events_work := w\<rparr>" by (rule 1(1))
    show "told cs p' = kept (pending_events p) @ [Dpms DRM_MODE_DPMS_ON]"
      using 1(2) by (simp add: squashable_iff)
  qed (rule 1(3))
qed

definition mode_event :: "drm_display_mode \<Rightarrow> evdi_framebuffer \<Rightarrow> drm_event" where
  "mode_event m fb = ModeChanged (ucast (hdisplay m)) (ucast (vdisplay m)) (vrefresh m)
     (ucast (fb_cpp fb) * 8) (fb_format fb)"

lemma mode_changed_client:
  assumes "has_client p" and "scanout_fb p = Some fb"
    and "evdi_painter_mode_changed_notify reserve True m p = (p', cs)"
  obtains pend w where "p' = p\<lparr>pending_events := pend, send_events_work := w, needs_full_modeset := False\<rparr>"
    and "told cs p' = kept (pending_events p) @ [mode_event m fb]" and "has_client p'"
proof -
  obtain p1 cs1 where s: "evdi_painter_send_event reserve (Some (mode_event m fb)) p = (p1, cs1)" by fastforce
  then have "evdi_painter_mode_changed_notify reserve True m p = (p1\<lparr>needs_full_modeset := False\<rparr>, cs1)"
    using assms(2) by (simp add: evdi_painter_mode_changed_notify_def evdi_painter_send_mode_changed_def mode_event_def)
  then have e: "p' = p1\<lparr>needs_full_modeset := False\<rparr>" "cs = cs1" using assms(3) by simp_all
  obtain pend w where 1: "p1 = p\<lparr>pending_events := pend, send_events_work := w\<rparr>"
      "told cs1 p1 = kept (pending_events p) @ kept [mode_event m fb]" "has_client p1"
    by (rule send_event_client [OF assms(1) s])
  show thesis
  proof (rule that)
    show "p' = p\<lparr>pending_events := pend, send_events_work := w, needs_full_modeset := False\<rparr>"
      unfolding e(1) 1(1) by simp
    show "told cs p' = kept (pending_events p) @ [mode_event m fb]"
      using 1(2) unfolding e by (simp add: told_def squashable_iff mode_event_def)
    show "has_client p'" using 1(3) unfolding e(1) by (simp add: has_client_def)
  qed
qed

text \<open>The end of a commit tells the client of nothing that is kept but an update.\<close>

lemma flush_end_client:
  assumes "has_client p" and "painter evdi = Some p"
    and "evdi_painter_set_vblank crt vbl (painter evdi) = (p3, vcalls)"
    and "evdi' = on_painter (evdi_painter_send_update_ready_if_needed reserve True)
      (emit vcalls (evdi\<lparr>painter := p3\<rparr>))"
  obtains p' cs where "painter evdi' = Some p'" and "calls evdi' = calls evdi @ cs" and "has_client p'"
    and "told cs p' = kept (pending_events p) \<or> told cs p' = kept (pending_events p) @ [UpdateReady]"
    and "needs_full_modeset p' = needs_full_modeset p" and "fg_console p' = fg_console p"
proof -
  obtain q where q: "p3 = Some q" "has_client q" "pending_events q = pending_events p" "sent_events vcalls = []"
      "needs_full_modeset q = needs_full_modeset p" "fg_console q = fg_console p"
    using assms(1-3)
    by (auto simp: evdi_painter_set_vblank_def evdi_painter_send_vblank_def evdi_send_vblank_def Let_def
        has_client_def sent_events_def split: if_splits option.splits)
  show thesis
  proof (cases "was_update_requested q \<and> num_dirts q \<noteq> 0")
    case True
    obtain q1 cs where s: "evdi_painter_send_event reserve (Some UpdateReady) q = (q1, cs)" by fastforce
    obtain pend w where "q1 = q\<lparr>pending_events := pend, send_events_work := w\<rparr>"
        "told cs q1 = kept (pending_events q) @ kept [UpdateReady]" "has_client q1"
      by (rule send_event_client [OF q(2) s])
    then show thesis
      using s True q assms(4)
      by (intro that [of "q1\<lparr>was_update_requested := False\<rparr>" "vcalls @ cs"])
        (simp_all add: on_painter_def emit_def evdi_painter_send_update_ready_if_needed_def
          evdi_painter_send_update_ready_def told_def squashable_iff has_client_def)
  next
    case False
    have "evdi_painter_send_update_ready_if_needed reserve True q = (q, [])"
      unfolding evdi_painter_send_update_ready_if_needed_def by (rule if_not_P [OF False])
    then show thesis
      using q assms(4) by (intro that [of q vcalls]) (simp_all add: on_painter_def emit_def told_def)
  qed
qed

lemma flush_restores:
  assumes "has_client p" and "painter evdi = Some p" and "needs_full_modeset p" and "scanout_fb p = Some fb"
    and "cs_active cs" and ok: "me_ok env = (\<lambda>_. True)"
    and "evdi_crtc_atomic_flush env crt cs evdi = (evdi', cs')"
  shows "\<exists>p' ccs updates. painter evdi' = Some p' \<and> calls evdi' = calls evdi @ ccs \<and> has_client p' \<and>
    told ccs p' = kept (pending_events p) @
      [mode_event (cs_adjusted_mode cs) fb, Dpms DRM_MODE_DPMS_ON] @ updates \<and> set updates \<subseteq> {UpdateReady} \<and>
    \<not> needs_full_modeset p' \<and> fg_console p' = me_console env"
proof -
  obtain p1 c1 where m: "evdi_painter_mode_changed_notify (me_reserve env 0) True (cs_adjusted_mode cs) p = (p1, c1)"
    by fastforce
  obtain q1 w1 where 1: "p1 = p\<lparr>pending_events := q1, send_events_work := w1, needs_full_modeset := False\<rparr>"
      "told c1 p1 = kept (pending_events p) @ [mode_event (cs_adjusted_mode cs) fb]" "has_client p1"
    by (rule mode_changed_client [OF assms(1,4) m])
  obtain p2 c2 where d: "evdi_painter_dpms_notify (me_reserve env 1) True (me_console env) DRM_MODE_DPMS_ON p1 = (p2, c2)"
    by fastforce
  obtain q2 w2 where 2: "p2 = p1\<lparr>fg_console := me_console env, pending_events := q2, send_events_work := w2\<rparr>"
      "told c2 p2 = kept (pending_events p1) @ [Dpms DRM_MODE_DPMS_ON]" "has_client p2"
    by (rule dpms_on_client [OF 1(3) d])
  let ?e2 = "emit c2 (emit c1 evdi\<lparr>painter := Some p2\<rparr>)"
  obtain p3 vcalls where v: "evdi_painter_set_vblank (Some crt) (cs_event cs) (painter ?e2) = (p3, vcalls)"
    by fastforce
  have e2: "painter ?e2 = Some p2" by (simp add: emit_def)
  have f: "evdi_painter_needs_full_modeset (painter evdi)"
    using assms(2,3) by (simp add: evdi_painter_needs_full_modeset_def)
  have s1: "on_painter (evdi_painter_mode_changed_notify (me_reserve env 0) True (cs_adjusted_mode cs)) evdi
      = emit c1 (evdi\<lparr>painter := Some p1\<rparr>)"
    using assms(2) m by (simp add: on_painter_def)
  have s2: "dpms_notify_on env 1 DRM_MODE_DPMS_ON (emit c1 (evdi\<lparr>painter := Some p1\<rparr>)) = ?e2"
    using d ok by (simp add: dpms_notify_on_def on_painter_def emit_def)
  have e: "evdi' = on_painter (evdi_painter_send_update_ready_if_needed (me_reserve env 2) True)
      (emit vcalls (?e2\<lparr>painter := p3\<rparr>))"
    using assms(5,7) f s1 s2 v ok by (simp add: evdi_crtc_atomic_flush_def Let_def split: prod.splits)
  obtain p' cs3 where 3: "painter evdi' = Some p'" "calls evdi' = calls ?e2 @ cs3" "has_client p'"
      "told cs3 p' = kept (pending_events p2) \<or> told cs3 p' = kept (pending_events p2) @ [UpdateReady]"
      "needs_full_modeset p' = needs_full_modeset p2" "fg_console p' = fg_console p2"
    by (rule flush_end_client [OF 2(3) e2 v e])
  define updates where "updates = (if told cs3 p' = kept (pending_events p2) then [] else [UpdateReady])"
  have t3: "told cs3 p' = kept (pending_events p2) @ updates" using 3(4) by (auto simp: updates_def)
  have "kept (sent_events c1) @ kept (pending_events p1) = kept (pending_events p) @ [mode_event (cs_adjusted_mode cs) fb]"
    using 1(2) by (simp add: told_def)
  moreover have "kept (sent_events c2) @ kept (pending_events p2) = kept (pending_events p1) @ [Dpms DRM_MODE_DPMS_ON]"
    using 2(2) by (simp add: told_def)
  ultimately have "told (c1 @ c2 @ cs3) p' = kept (pending_events p) @
      [mode_event (cs_adjusted_mode cs) fb, Dpms DRM_MODE_DPMS_ON] @ updates"
    using t3 by (simp add: told_def)
  moreover have "calls evdi' = calls evdi @ (c1 @ c2 @ cs3)" using 3(2) by (simp add: emit_def)
  moreover have "\<not> needs_full_modeset p'" "fg_console p' = me_console env"
    using 3(5,6) unfolding 2(1) 1(1) by simp_all
  moreover have "set updates \<subseteq> {UpdateReady}" by (simp add: updates_def)
  ultimately show ?thesis using 3(1,3) by blast
qed

section \<open>Properties\<close>

text \<open>
  C11: when the user switches to another console, a connected client is told that its display is off, once
  and not again however often the console changes; and the first commit after that on the active CRTC, even
  one that changes nothing, tells it the mode and that the display is on, and the console of that
  commit is the one whose change counts next.
\<close>

theorem console_switch_protocol:
  assumes "has_client p" and "scanout_fb p = Some fb" and "\<not> needs_full_modeset p" and "console \<noteq> fg_console p"
    and "evdi_painter_vt_notifier_call reserve True console p = (p1, c1)"
    and "painter evdi = Some p1" and "cs_active cs" and "me_ok env = (\<lambda>_. True)"
    and "evdi_crtc_atomic_flush env crt cs evdi = (evdi', cs')"
  shows "told c1 p1 = kept (pending_events p) @ [Dpms DRM_MODE_DPMS_OFF] \<and>
    (\<forall>reserve' ok console'. evdi_painter_vt_notifier_call reserve' ok console' p1 = (p1, [])) \<and>
    (\<exists>p2 c2 updates. painter evdi' = Some p2 \<and> calls evdi' = calls evdi @ c2 \<and>
       told c2 p2 = kept (pending_events p1) @
         [mode_event (cs_adjusted_mode cs) fb, Dpms DRM_MODE_DPMS_ON] @ updates \<and> set updates \<subseteq> {UpdateReady} \<and>
       (\<forall>reserve' ok. evdi_painter_vt_notifier_call reserve' ok (me_console env) p2 = (p2, [])))"
proof -
  obtain pend w where 1: "p1 = p\<lparr>pending_events := pend, send_events_work := w, needs_full_modeset := True\<rparr>"
      "told c1 p1 = kept (pending_events p) @ [Dpms DRM_MODE_DPMS_OFF]" "has_client p1"
    by (rule vt_switch_client [OF assms(1,3,4,5)])
  have "needs_full_modeset p1" "scanout_fb p1 = Some fb" using 1(1) assms(2) by simp_all
  from flush_restores [OF 1(3) assms(6) this assms(7-9)] obtain p2 c2 updates where
    2: "painter evdi' = Some p2" "calls evdi' = calls evdi @ c2"
      "told c2 p2 = kept (pending_events p1) @
         [mode_event (cs_adjusted_mode cs) fb, Dpms DRM_MODE_DPMS_ON] @ updates" "set updates \<subseteq> {UpdateReady}"
      "fg_console p2 = me_console env"
    by blast
  have "evdi_painter_vt_notifier_call reserve' ok console' p1 = (p1, [])" for reserve' ok console'
    using \<open>needs_full_modeset p1\<close> by (simp add: evdi_painter_vt_notifier_call_def)
  moreover have "evdi_painter_vt_notifier_call reserve' ok (me_console env) p2 = (p2, [])" for reserve' ok
    using 2(5) by (simp add: evdi_painter_vt_notifier_call_def)
  ultimately show ?thesis using 1(2) 2(1-4) by blast
qed

theorem console_switch_protocol_witness:
  "let p = shown_painter\<lparr>needs_full_modeset := False\<rparr>;
       (p1, c1) = evdi_painter_vt_notifier_call (\<lambda>_ _. True) True 2 p;
       evdi = (dev (initial (\<lambda>_. sample_object)))\<lparr>painter := Some p1\<rparr>
   in told c1 p1 = [Dpms DRM_MODE_DPMS_OFF] \<and>
     (\<exists>p2. painter (fst (evdi_crtc_atomic_flush sample_commit 1 (sample_crtc\<lparr>cs_mode_changed := False\<rparr>) evdi)) = Some p2 \<and>
       evdi_painter_vt_notifier_call (\<lambda>_ _. True) True 1 p2 = (p2, []))"
proof -
  let ?p = "shown_painter\<lparr>needs_full_modeset := False\<rparr>"
  obtain p1 c1 where v: "evdi_painter_vt_notifier_call (\<lambda>_ _. True) True 2 ?p = (p1, c1)" by fastforce
  let ?evdi = "(dev (initial (\<lambda>_. sample_object)))\<lparr>painter := Some p1\<rparr>"
  have a: "has_client ?p" "scanout_fb ?p = Some sample_fb" "\<not> needs_full_modeset ?p" "(2::nat) \<noteq> fg_console ?p"
      "pending_events ?p = []"
    by (simp_all add: has_client_def shown_painter_def fresh_painter_def)
  have b: "painter ?evdi = Some p1" "cs_active (sample_crtc\<lparr>cs_mode_changed := False\<rparr>)"
      "me_ok sample_commit = (\<lambda>_. True)" "me_console sample_commit = 1"
    by (simp_all add: sample_crtc_def sample_commit_def)
  from console_switch_protocol [OF a(1-4) v b(1-3) prod.collapse [symmetric]]
  show ?thesis unfolding v Let_def prod.case using a(5) b(4) by fastforce
qed

end
