(* ===== verification/Evdi_Kunit.thy ===== *)
theory Evdi_Kunit
  imports Evdi_Console
begin

text \<open>
  The KUnit tests of the module, \<open>module/tests\<close>: the fake client and the fake compositor, the fixtures, and
  each test as the sequence of operations it runs on the model and the expectations it checks. A test is
  true when all its expectations hold, and an \<open>Oops\<close> when it reads memory that is freed.
\<close>

section \<open>Fixtures\<close>

text \<open>
  The card as blocks of memory, the card's data, and the power state the hook in
  \<open>evdi_painter_send_dpms\<close> was last called with, which is 0 at first. The hook sees every event of that kind
  that is made: it is sent, freed or waits.
\<close>

record vt_test =
  test_card :: drm_dev
  test_evdi :: evdi_device

definition made_events :: "drm_call list \<Rightarrow> drm_event list" where
  "made_events cs = concat (map (\<lambda>c. case c of SendEvent _ e \<Rightarrow> [e] | FreeEvent e \<Rightarrow> [e] | _ \<Rightarrow> []) cs)"

definition painter_events :: "evdi_device \<Rightarrow> drm_event list" where
  "painter_events evdi = made_events (calls evdi) @
     (case painter evdi of None \<Rightarrow> [] | Some p \<Rightarrow> pending_events p)"

definition dpms_mode :: "vt_test \<Rightarrow> s32" where
  "dpms_mode t = fold (\<lambda>e m. case e of Dpms m' \<Rightarrow> m' | _ \<Rightarrow> m) (painter_events (test_evdi t)) 0"

definition suite_test_vt_init :: "card_env \<Rightarrow> gem_store \<Rightarrow> vt_test outcome" where
  "suite_test_vt_init env objs =
     bind_outcome (evdi_drm_device_create env) (\<lambda>(r, card).
       case r of
         Inl _ \<Rightarrow> Oops
       | Inr _ \<Rightarrow> Ret \<lparr>test_card = card, test_evdi = dev (initial objs)\<rparr>)"

text \<open>The fake client connects with the EDID of a 1080p display, which it has put into its memory.\<close>

definition test_edid_dvi_1080p :: "u8 list" where
  "test_edid_dvi_1080p =
    [0x00, 0xff, 0xff, 0xff, 0xff, 0xff, 0xff, 0x00, 0x31, 0xd8, 0x2a, 0x00, 0x00, 0x00, 0x00, 0x00,
     0x00, 0x21, 0x01, 0x03, 0x81, 0xa0, 0x5a, 0x78, 0x0a, 0x00, 0x00, 0x00, 0x00, 0x00, 0x00, 0x00,
     0x00, 0x00, 0x00, 0x00, 0x00, 0x00, 0x01, 0x01, 0x01, 0x01, 0x01, 0x01, 0x01, 0x01, 0x01, 0x01,
     0x01, 0x01, 0x01, 0x01, 0x01, 0x01, 0x02, 0x3a, 0x80, 0x18, 0x71, 0x38, 0x2d, 0x40, 0x58, 0x2c,
     0x45, 0x00, 0x40, 0x84, 0x63, 0x00, 0x00, 0x1e, 0x00, 0x00, 0x00, 0xfc, 0x00, 0x54, 0x65, 0x73,
     0x74, 0x20, 0x45, 0x44, 0x49, 0x44, 0x0a, 0x20, 0x20, 0x20, 0x00, 0x00, 0x00, 0xfd, 0x00, 0x32,
     0x46, 0x1e, 0x46, 0x0f, 0x00, 0x0a, 0x20, 0x20, 0x20, 0x20, 0x20, 0x20, 0x00, 0x00, 0x00, 0x10,
     0x00, 0x00, 0x00, 0x00, 0x00, 0x00, 0x00, 0x00, 0x00, 0x00, 0x00, 0x00, 0x00, 0x00, 0x00, 0xab]"

definition edid_memory :: "u64 \<Rightarrow> umem" where
  "edid_memory addr =
     (\<lambda>a. if unat (a - addr) < 128 then test_edid_dvi_1080p ! unat (a - addr) else 0)"

definition evdi_fake_user_client_connect :: "u64 \<Rightarrow> bool \<Rightarrow> drm_file \<Rightarrow> evdi_device \<Rightarrow> evdi_device" where
  "evdi_fake_user_client_connect addr add_ok filp evdi =
     snd (evdi_painter_connect_ioctl user_load True add_ok (edid_memory addr)
       \<lparr>connected = 1, conn_edid = addr, conn_edid_length = 128,
        conn_pixel_area_limit = 1920 * 1080, conn_pixel_per_second_limit = 1920 * 1080 * 60\<rparr> filp evdi)"

text \<open>The file of the client is closed.\<close>

definition evdi_fake_user_client_disconnect :: "drm_file \<Rightarrow> evdi_device \<Rightarrow> evdi_device" where
  "evdi_fake_user_client_disconnect filp evdi = evdi_painter_close filp evdi"

text \<open>
  The compositor's framebuffer has a format and a pitch and no object; \<open>XRGB8888\<close> has four bytes a pixel.
  \<open>rate\<close> is what \<open>drm_mode_vrefresh\<close> answers for its mode.
\<close>

definition test_efb :: "nat \<Rightarrow> evdi_framebuffer" where
  "test_efb i = \<lparr>fb_id = i, fb_width = 0, fb_height = 0, fb_pitch = 4 * 640, fb_offset = 0,
     fb_format = 0x34325258, fb_cpp = 4, fb_obj = None, active = True, is_from_xe = False\<rparr>"

definition evdi_fake_compositor_connect ::
  "(nat \<Rightarrow> reserve) \<Rightarrow> nat \<Rightarrow> nat \<Rightarrow> s32 \<Rightarrow> evdi_device \<Rightarrow> evdi_device" where
  "evdi_fake_compositor_connect reserve console i rate evdi =
     (let e1 = on_painter (evdi_painter_set_scanout_buffer (Some (test_efb i))) evdi;
          e2 = on_painter (evdi_painter_mode_changed_notify (reserve 0) True
                 \<lparr>hdisplay = 640, vdisplay = 480, vrefresh = rate\<rparr>) e1
      in on_painter (evdi_painter_dpms_notify (reserve 1) True console DRM_MODE_DPMS_ON) e2)"

text \<open>With the expectation that is checked before the client connects.\<close>

definition suite_test_vt_and_user_connected_init ::
  "card_env \<Rightarrow> gem_store \<Rightarrow> u64 \<Rightarrow> bool \<Rightarrow> drm_file \<Rightarrow> (nat \<Rightarrow> reserve) \<Rightarrow> nat \<Rightarrow> nat \<Rightarrow> s32 \<Rightarrow>
     (bool \<times> vt_test) outcome" where
  "suite_test_vt_and_user_connected_init env objs addr add_ok filp reserve console i rate =
     bind_outcome (suite_test_vt_init env objs) (\<lambda>t.
       Ret (dpms_mode t \<noteq> DRM_MODE_DPMS_OFF,
            t\<lparr>test_evdi := evdi_fake_compositor_connect reserve console i rate
                (evdi_fake_user_client_connect addr add_ok filp (test_evdi t))\<rparr>))"

text \<open>
  At the end the card is removed, and the test fails when the hook in its release has not run, which
  clears \<open>dev_private\<close>. A connected client closes its file before.
\<close>

definition suite_test_vt_exit :: "vt_test \<Rightarrow> (bool \<times> vt_test) outcome" where
  "suite_test_vt_exit t =
     bind_outcome (evdi_drm_device_remove (test_card t)) (\<lambda>card.
       Ret (\<not> dev_private card, t\<lparr>test_card := card\<rparr>))"

definition suite_test_vt_and_user_connected_exit :: "drm_file \<Rightarrow> vt_test \<Rightarrow> (bool \<times> vt_test) outcome" where
  "suite_test_vt_and_user_connected_exit filp t =
     suite_test_vt_exit (t\<lparr>test_evdi := evdi_fake_user_client_disconnect filp (test_evdi t)\<rparr>)"

section \<open>Tests\<close>

definition test_evdi_create_drm_device :: "card_env \<Rightarrow> bool outcome" where
  "test_evdi_create_drm_device env =
     bind_outcome (evdi_drm_device_create env) (\<lambda>(r, card).
       case r of
         Inl _ \<Rightarrow> Oops
       | Inr _ \<Rightarrow> bind_outcome (evdi_drm_device_remove card) (\<lambda>card'. Ret (\<not> dev_private card')))"

definition test_evdi_painter_registers_for_vt :: "vt_test \<Rightarrow> bool outcome" where
  "test_evdi_painter_registers_for_vt t = uses PainterBlock (test_card t) (Ret (vt_notifier (test_card t)))"

text \<open>The notifier block that is read at the end is part of the painter.\<close>

definition test_evdi_painter_unregisters_for_vt_on_removal :: "vt_test \<Rightarrow> bool outcome" where
  "test_evdi_painter_unregisters_for_vt_on_removal t =
     bind_outcome (evdi_drm_device_remove (test_card t)) (\<lambda>card.
       uses PainterBlock card (Ret (\<not> vt_notifier card)))"

definition notify_console :: "reserve \<Rightarrow> nat \<Rightarrow> vt_test \<Rightarrow> vt_test" where
  "notify_console reserve console t =
     t\<lparr>test_evdi := on_painter (evdi_painter_vt_notifier_call reserve True console) (test_evdi t)\<rparr>"

definition test_evdi_painter_when_not_connected_does_not_send_dpms_off ::
  "reserve \<Rightarrow> nat \<Rightarrow> vt_test \<Rightarrow> bool" where
  "test_evdi_painter_when_not_connected_does_not_send_dpms_off reserve console t \<longleftrightarrow>
     dpms_mode t \<noteq> DRM_MODE_DPMS_OFF \<and> dpms_mode (notify_console reserve console t) \<noteq> DRM_MODE_DPMS_OFF"

definition test_evdi_painter_when_connected_does_not_send_dpms_off ::
  "reserve \<Rightarrow> nat \<Rightarrow> vt_test \<Rightarrow> bool" where
  "test_evdi_painter_when_connected_does_not_send_dpms_off reserve console t \<longleftrightarrow>
     (let t' = notify_console reserve console t
      in dpms_mode t' = DRM_MODE_DPMS_ON \<and> \<not> evdi_painter_needs_full_modeset (painter (test_evdi t')))"

definition test_evdi_painter_when_connected_sends_dpms_off ::
  "reserve \<Rightarrow> nat \<Rightarrow> vt_test \<Rightarrow> bool" where
  "test_evdi_painter_when_connected_sends_dpms_off reserve console t \<longleftrightarrow>
     (let t' = notify_console reserve (console + 1) t
      in dpms_mode t' = DRM_MODE_DPMS_OFF \<and> evdi_painter_needs_full_modeset (painter (test_evdi t')))"

section \<open>The tests pass\<close>

text \<open>The DRM core has space for the few events of a test.\<close>

abbreviation granted :: reserve where
  "granted \<equiv> \<lambda>_ _. True"

lemma edid_loaded: "user_load (edid_memory addr) addr 128 = Some test_edid_dvi_1080p"
proof -
  have l: "length test_edid_dvi_1080p = 128" by (simp add: test_edid_dvi_1080p_def)
  have u: "unat (of_nat n :: u64) = n" if "n < 128" for n
    using that by (simp add: unat_of_nat take_bit_nat_eq_self)
  have "map (\<lambda>n. edid_memory addr (addr + of_nat n)) [0..<128] = map ((!) test_edid_dvi_1080p) [0..<128]"
    by (rule map_cong) (simp_all add: edid_memory_def u)
  then show ?thesis using map_nth [of test_edid_dvi_1080p] by (simp only: user_load_def l)
qed

lemma connected_painter:
  "evdi_fake_user_client_connect addr add_ok filp (dev (initial objs)) =
     (dev (initial objs))\<lparr>painter := Some (fresh_painter\<lparr>drm_filp := Some filp, edid_length := 128,
         edid := Some test_edid_dvi_1080p, is_connected := True\<rparr>),
       pixel_area_limit := 1920 * 1080, pixel_per_second_limit := 1920 * 1080 * 60,
       i2c_adapter := add_ok, calls := VtRegister # (if add_ok then [I2cAdd] else []) @ [HpdIrq]\<rparr>"
  by (simp add: evdi_fake_user_client_connect_def run_defs edid_loaded initial_def zero_device_def
      evdi_painter_init_def fresh_painter_def MAX_EDID_SIZE_eq)

definition shown_test_painter :: "drm_file \<Rightarrow> nat \<Rightarrow> nat \<Rightarrow> evdi_painter" where
  "shown_test_painter filp console i = fresh_painter\<lparr>drm_filp := Some filp, edid_length := 128,
     edid := Some test_edid_dvi_1080p, is_connected := True, scanout_fb := Some (test_efb i),
     needs_full_modeset := False, fg_console := console\<rparr>"

lemma composed_painter:
  assumes "painter evdi = Some (fresh_painter\<lparr>drm_filp := Some filp, edid_length := 128,
         edid := Some test_edid_dvi_1080p, is_connected := True\<rparr>)"
  shows "painter (evdi_fake_compositor_connect (\<lambda>_. granted) console i rate evdi)
      = Some (shown_test_painter filp console i)"
    and "calls (evdi_fake_compositor_connect (\<lambda>_. granted) console i rate evdi)
      = (calls evdi @ fb_slot_calls None (Some i) @ [SendEvent filp (ModeChanged 640 480 rate 32 0x34325258)])
        @ [SendEvent filp (Dpms DRM_MODE_DPMS_ON)]"
  by (simp_all add: evdi_fake_compositor_connect_def run_defs assms fresh_painter_def shown_test_painter_def
      test_efb_def)

lemma made_last: "fold (\<lambda>e m. case e of Dpms m' \<Rightarrow> m' | _ \<Rightarrow> m) (made_events (cs @ [SendEvent f (Dpms m)])) m0 = m"
  by (simp add: made_events_def)



end
