(* ===== verification/Evdi_Entry.thy ===== *)
theory Evdi_Entry
  imports Evdi_Card Evdi_Ioc32 Evdi_LibOpen Evdi_Debug Evdi_Ddcci
begin

text \<open>
  The entry points: what the driver tells of itself and the table of its requests,
  \<open>module/evdi_drm_drv.c\<close>; the adapter for DDC/CI, \<open>module/evdi_i2c.c\<close>; the version and the log of
  \<open>library/evdi_lib.c\<close>; the module of \<open>pyevdi/PyEvdi.cpp\<close> and the methods of \<open>pyevdi/Card.cpp\<close> that
  pass on to the library.
\<close>

section \<open>Versions\<close>

text \<open>What the DRM core answers for the driver, and what the library was built as.\<close>

definition driver_version :: drm_version where
  "driver_version = \<lparr>ver_name = ''evdi'', ver_major = 1, ver_minor = 14\<rparr>"

record evdi_lib_version =
  version_major :: s32
  version_minor :: s32
  version_patchlevel :: s32

definition LIBEVDI_VERSION :: evdi_lib_version where
  "LIBEVDI_VERSION = \<lparr>version_major = 1, version_minor = 14, version_patchlevel = 14\<rparr>"

text \<open>What is at the pointer afterwards, if it is not NULL.\<close>

definition evdi_get_lib_version :: "evdi_lib_version option \<Rightarrow> evdi_lib_version option" where
  "evdi_get_lib_version version = (case version of None \<Rightarrow> None | Some _ \<Rightarrow> Some LIBEVDI_VERSION)"

definition version_text :: "evdi_lib_version \<Rightarrow> string" where
  "version_text v = signed_decimal (version_major v) @ CHR ''.'' # signed_decimal (version_minor v) @
     CHR ''.'' # signed_decimal (version_patchlevel v)"

section \<open>The log of the library\<close>

text \<open>
  The function that is set, with its user data, and what was printed or given to the function.
\<close>

record lib_log =
  g_evdi_logging :: "nat option"
  printed :: "string list"
  passed :: "(nat \<times> string) list"

definition evdi_set_logging :: "nat option \<Rightarrow> lib_log \<Rightarrow> lib_log" where
  "evdi_set_logging l s = s\<lparr>g_evdi_logging := l\<rparr>"

definition evdi_log :: "string \<Rightarrow> lib_log \<Rightarrow> lib_log" where
  "evdi_log text s =
     (case g_evdi_logging s of
        Some user_data \<Rightarrow> s\<lparr>passed := passed s @ [(user_data, text)]\<rparr>
      | None \<Rightarrow> s\<lparr>printed := printed s @ [''[libevdi] '' @ text, [CHR 0x0A]]\<rparr>)"

text \<open>The function of the Python module measures the text first, then writes it into an array of that size.\<close>

definition log_function :: "string \<Rightarrow> string" where
  "log_function text = snprintf (1 + length text) text"

text \<open>
  Importing the Python module sets its log function, whose user data are NULL, and reads the version for
  the module's attribute.
\<close>

definition PyEvdi :: "lib_log \<Rightarrow> (s32 \<times> s32 \<times> s32) \<times> lib_log" where
  "PyEvdi s =
     (let v = the (evdi_get_lib_version (Some \<lparr>version_major = 0, version_minor = 0, version_patchlevel = 0\<rparr>))
      in ((version_major v, version_minor v, version_patchlevel v), evdi_set_logging (Some 0) s))"

section \<open>The requests of the driver\<close>

datatype driver_ioctl =
  EvdiConnect | EvdiRequestUpdate | EvdiGrabpix | EvdiDdcciResponse | EvdiEnableCursorEvents

definition evdi_painter_ioctls :: "driver_ioctl list" where
  "evdi_painter_ioctls =
     [EvdiConnect, EvdiRequestUpdate, EvdiGrabpix, EvdiDdcciResponse, EvdiEnableCursorEvents]"

text \<open>The core looks the number of a driver's request up in the table; \<open>None\<close> is not the driver's.\<close>

definition native_ioctl :: "nat \<Rightarrow> driver_ioctl option" where
  "native_ioctl nr =
     (if DRM_COMMAND_BASE \<le> nr \<and> nr < DRM_COMMAND_END \<and> nr - DRM_COMMAND_BASE < length evdi_painter_ioctls
      then Some (evdi_painter_ioctls ! (nr - DRM_COMMAND_BASE)) else None)"

text \<open>What serves the request of a 32-bit client in the end.\<close>

definition compat_serves :: "nat \<Rightarrow> driver_ioctl option" where
  "compat_serves nr =
     (case evdi_compat_ioctl nr of
        DrmCompat \<Rightarrow> None
      | CompatConnect \<Rightarrow> Some EvdiConnect
      | CompatGrabpix \<Rightarrow> Some EvdiGrabpix
      | Native \<Rightarrow> native_ioctl nr)"

section \<open>The adapter for DDC/CI\<close>

text \<open>
  The adapter carries the painter it belongs to, through the card's data; the I2C core keeps those that are
  added, by the number it gives them. The parent is the card's platform device.
\<close>

record i2c_adapter =
  ia_name :: string
  ia_parent :: nat
  algo_data :: nat

definition I2C_FUNC_I2C :: u32 where
  "I2C_FUNC_I2C = 1"

definition dli2c_func :: u32 where
  "dli2c_func = I2C_FUNC_I2C"

definition evdi_i2c_add ::
  "nat result \<Rightarrow> nat \<Rightarrow> nat \<Rightarrow> (nat \<Rightarrow> i2c_adapter option) \<Rightarrow> unit result \<times> (nat \<Rightarrow> i2c_adapter option)" where
  "evdi_i2c_add added parent ddev bus =
     (case added of
        Inl e \<Rightarrow> (Inl e, bus)
      | Inr nr \<Rightarrow> (Inr (), bus(nr \<mapsto> \<lparr>ia_name = ''DisplayLink I2C Adapter'', ia_parent = parent, algo_data = ddev\<rparr>)))"

definition evdi_i2c_remove :: "nat \<Rightarrow> (nat \<Rightarrow> i2c_adapter option) \<Rightarrow> (nat \<Rightarrow> i2c_adapter option)" where
  "evdi_i2c_remove nr bus = bus(nr := None)"

text \<open>A transfer on an adapter of the bus; \<open>painters\<close> are those of the cards.\<close>

definition i2c_transfer ::
  "(nat \<Rightarrow> reserve \<times> bool \<times> (evdi_painter \<Rightarrow> evdi_painter) \<times> bool) \<Rightarrow> nat \<Rightarrow> i2c_msg list \<Rightarrow>
     (nat \<Rightarrow> i2c_adapter option) \<Rightarrow> (nat \<Rightarrow> evdi_painter) \<Rightarrow>
     (nat \<times> i2c_msg list \<times> (nat \<Rightarrow> evdi_painter)) option" where
  "i2c_transfer env nr msgs bus painters =
     (case bus nr of
        None \<Rightarrow> None
      | Some a \<Rightarrow>
          (case dli2c_access_master env 0 msgs (painters (algo_data a)) of
             (result, ms, p, _) \<Rightarrow> Some (result, ms, painters(algo_data a := p))))"

section \<open>The card's methods that pass on\<close>

text \<open>
  Each reads the handle without a check; \<open>serve\<close> is the request in the driver, whose result is dropped.
\<close>

definition card_request ::
  "('r \<Rightarrow> 'k \<Rightarrow> (nat result \<times> 'k) outcome) \<Rightarrow> 'r \<Rightarrow> py_card \<Rightarrow> 'k \<Rightarrow> 'k outcome option" where
  "card_request serve req c k =
     (if \<not> evdiHandle c then Some Oops
      else bind_run (do_ioctl (serve req) k) (\<lambda>(_, k1). Some (Ret k1)))"

definition connect_card ::
  "(drm_evdi_connect \<Rightarrow> 'k \<Rightarrow> (nat result \<times> 'k) outcome) \<Rightarrow> u64 \<Rightarrow> u32 \<Rightarrow> u32 \<Rightarrow> u32 \<Rightarrow> py_card \<Rightarrow> 'k \<Rightarrow>
     'k outcome option" where
  "connect_card serve edid_at len area_limit pps_limit c k =
     card_request serve (evdi_connect2 edid_at len area_limit pps_limit) c k"

definition disconnect_card ::
  "(drm_evdi_connect \<Rightarrow> 'k \<Rightarrow> (nat result \<times> 'k) outcome) \<Rightarrow> py_card \<Rightarrow> 'k \<Rightarrow> 'k outcome option" where
  "disconnect_card serve c k = card_request serve evdi_disconnect c k"

definition enableCursorEvents ::
  "(u8 \<Rightarrow> 'k \<Rightarrow> (nat result \<times> 'k) outcome) \<Rightarrow> bool \<Rightarrow> py_card \<Rightarrow> 'k \<Rightarrow> 'k outcome option" where
  "enableCursorEvents serve enable c k = card_request serve (evdi_enable_cursor_events enable) c k"

section \<open>Properties\<close>

text \<open>The library takes the driver it comes with, and both show the same version.\<close>

theorem versions_match:
  "is_evdi (Inr driver_version) \<and> is_evdi_compatible (Inr driver_version) \<and>
   version_show = version_text LIBEVDI_VERSION @ [CHR 0x0A] \<and> fst (PyEvdi s) = (1, 14, 14)"
  by (simp add: is_evdi_def is_evdi_compatible_def driver_version_def version_show_def version_text_def
      LIBEVDI_VERSION_def signed_decimal_def PyEvdi_def evdi_get_lib_version_def)

text \<open>Every line the library logs once the Python module is imported reaches its log, whole.\<close>

theorem python_logs_everything:
  "printed (evdi_log text (snd (PyEvdi s))) = printed s \<and>
   passed (evdi_log text (snd (PyEvdi s))) = passed s @ [(0, log_function text)]"
  by (simp add: evdi_log_def PyEvdi_def evdi_set_logging_def log_function_def snprintf_def evdi_get_lib_version_def
      LIBEVDI_VERSION_def Let_def)

text \<open>
  A request of a 32-bit client is served by the function that serves a native request of its number, and
  the core keeps the numbers that are not the driver's.
\<close>

theorem ioctl_tables_agree: "compat_serves nr = native_ioctl nr"
proof -
  have "nr - DRM_COMMAND_BASE \<in> {0, 1, 2} \<or> 3 \<le> nr - DRM_COMMAND_BASE" by auto
  then show ?thesis
    by (auto simp: compat_serves_def evdi_compat_ioctl_def native_ioctl_def evdi_compat_ioctls_def
        evdi_painter_ioctls_def DRM_COMMAND_BASE_def DRM_COMMAND_END_def nth_Cons' split: if_splits)
qed

text \<open>A transfer on the adapter of a card changes the painter of that card only, until it is removed.\<close>

theorem i2c_reaches_own_card:
  assumes "evdi_i2c_add (Inr nr) parent ddev bus = (r, bus')"
  shows "(\<exists>result ms painters'. i2c_transfer env nr msgs bus' painters = Some (result, ms, painters') \<and>
      (\<forall>d. d \<noteq> ddev \<longrightarrow> painters' d = painters d) \<and>
      dli2c_access_master env 0 msgs (painters ddev) = (result, ms, painters' ddev, snd (snd (snd
        (dli2c_access_master env 0 msgs (painters ddev)))))) \<and>
    i2c_transfer env nr msgs (evdi_i2c_remove nr bus') painters = None"
proof -
  obtain result ms p cs where d: "dli2c_access_master env 0 msgs (painters ddev) = (result, ms, p, cs)"
    by (metis prod_cases4)
  have "bus' nr = Some \<lparr>ia_name = ''DisplayLink I2C Adapter'', ia_parent = parent, algo_data = ddev\<rparr>"
    using assms by (auto simp: evdi_i2c_add_def)
  then show ?thesis using d by (simp add: i2c_transfer_def evdi_i2c_remove_def)
qed

text \<open>Once a card of the Python module is closed, each of these methods reads through the NULL handle.\<close>

theorem closed_card_oops:
  assumes "close_card c = Some (Ret c')"
  shows "connect_card serve edid_at len al pl c' k = Some Oops" and "disconnect_card serve c' k = Some Oops"
    and "enableCursorEvents serve' enable c' k = Some Oops"
    and "handle_events env cenv selected es (c', k', mem) = Some Oops"
proof -
  have "\<not> evdiHandle c'"
    using assms by (auto simp: close_card_def bind_run_Ret split: if_splits)
  then show "connect_card serve edid_at len al pl c' k = Some Oops" "disconnect_card serve c' k = Some Oops"
    "enableCursorEvents serve' enable c' k = Some Oops"
    "handle_events env cenv selected es (c', k', mem) = Some Oops"
    by (simp_all add: connect_card_def disconnect_card_def enableCursorEvents_def card_request_def handle_events_def)
qed

end
