(* ===== verification/Evdi_Legacy.thy ===== *)
theory Evdi_Legacy
  imports Evdi_System
begin

text \<open>
  What is compiled for older kernels only: the callbacks of the cursor before kernel 5.10,
  \<open>module/evdi_modeset.c\<close>, and the dirty callback of framebuffers before kernel 5.0,
  \<open>module/evdi_fb.c\<close>, with its retry after a deadlock of the mode setting locks.
\<close>

section \<open>Cursor callbacks\<close>

definition DRM_FORMAT_ARGB8888 :: u32 where
  "DRM_FORMAT_ARGB8888 = 0x34325241"

definition evdi_mark_full_screen_dirty :: "reserve \<Rightarrow> bool \<Rightarrow> evdi_device \<Rightarrow> evdi_device" where
  "evdi_mark_full_screen_dirty reserve ok evdi =
     (let rect = evdi_painter_framebuffer_size (painter evdi)
      in on_painter (evdi_painter_send_update_ready_if_needed reserve ok) (mark_on rect evdi))"

text \<open>
  \<open>lookup\<close> is the handle table of the file. A lookup takes a reference to the object, which is put again
  at the end; there is nothing to put for NULL. The event is sent through the painter without a check.
\<close>

definition evdi_crtc_cursor_set ::
  "commit_env \<Rightarrow> (u32 \<Rightarrow> nat option) \<Rightarrow> u32 \<Rightarrow> u32 \<Rightarrow> u32 \<Rightarrow> s32 \<Rightarrow> s32 \<Rightarrow> evdi_device \<Rightarrow>
     (unit result \<times> evdi_device) outcome" where
  "evdi_crtc_cursor_set env lookup handle width height hx hy evdi =
     (let strd = 4 * width;
          obj = (if handle \<noteq> 0 then lookup handle else None);
          e1 = emit (case obj of None \<Rightarrow> [] | Some a \<Rightarrow> [GemGet a]) evdi;
          (c2, g2, cs2) = evdi_cursor_set (me_vmap env) obj width height hx hy DRM_FORMAT_ARGB8888 strd
             (cursor e1) (gems e1);
          e2 = emit cs2 (e1\<lparr>cursor := c2, gems := g2\<rparr>);
          e3 = emit (case obj of None \<Rightarrow> [] | Some a \<Rightarrow> [GemPut a]) e2
      in if cursor_events_enabled e3 then
           (case painter e3 of
              None \<Rightarrow> Oops
            | Some p \<Rightarrow>
                (case evdi_painter_send_cursor_set (me_handles env) (me_handle_create env) (me_reserve env 0)
                        (me_ok env 0) (gems e3) (cursor e3) p of
                   Oops \<Rightarrow> Oops
                 | Ret (p', cs) \<Rightarrow> Ret (Inr (), emit cs (e3\<lparr>painter := Some p'\<rparr>))))
         else Ret (Inr (), evdi_mark_full_screen_dirty (me_reserve env 0) (me_ok env 0) e3))"

definition evdi_crtc_cursor_move ::
  "commit_env \<Rightarrow> s32 \<Rightarrow> s32 \<Rightarrow> evdi_device \<Rightarrow> (unit result \<times> evdi_device) outcome" where
  "evdi_crtc_cursor_move env x y evdi =
     (let e1 = evdi\<lparr>cursor := evdi_cursor_move x y (cursor evdi)\<rparr>
      in if cursor_events_enabled e1 then
           (case painter e1 of
              None \<Rightarrow> Oops
            | Some _ \<Rightarrow> Ret (Inr (), on_painter (evdi_painter_send_cursor_move (me_reserve env 0) (me_ok env 0)
                 (cursor e1)) e1))
         else Ret (Inr (), evdi_mark_full_screen_dirty (me_reserve env 0) (me_ok env 0) e1))"

section \<open>The dirty callback\<close>

definition EDEADLK :: errno where
  "EDEADLK = EOTHER 35"

text \<open>The calls to the DRM core, in order.\<close>

datatype modeset_call =
    AcquireInit bool
  | StateAlloc
  | GetPlane nat
  | Commit
  | StateClear
  | Backoff
  | StatePut
  | DropLocks
  | AcquireFini

text \<open>
  The answers of the core: the allocation, and for each round the plane states, the commit and the
  back-off. A plane has its number and the framebuffer it shows.
\<close>

record dirty_env =
  de_alloc :: bool
  de_plane :: "nat \<Rightarrow> nat \<Rightarrow> unit result"
  de_commit :: "nat \<Rightarrow> unit result"
  de_backoff :: "nat \<Rightarrow> unit result"

fun plane_states :: "(nat \<Rightarrow> unit result) \<Rightarrow> nat \<Rightarrow> (nat \<times> nat option) list \<Rightarrow> unit result \<times> modeset_call list" where
  "plane_states get fb [] = (Inr (), [])"
| "plane_states get fb ((plane, shown) # planes) =
     (if shown \<noteq> Some fb then plane_states get fb planes
      else case get plane of
          Inl e \<Rightarrow> (Inl e, [GetPlane plane])
        | Inr _ \<Rightarrow> (case plane_states get fb planes of (r, cs) \<Rightarrow> (r, GetPlane plane # cs)))"

text \<open>One round from \<open>retry\<close> to \<open>out\<close>.\<close>

definition dirty_round ::
  "dirty_env \<Rightarrow> nat \<Rightarrow> (nat \<times> nat option) list \<Rightarrow> nat \<Rightarrow> unit result \<times> modeset_call list" where
  "dirty_round env fb planes k =
     (case plane_states (de_plane env k) fb planes of
        (Inl e, cs) \<Rightarrow> (Inl e, cs)
      | (Inr _, cs) \<Rightarrow> (de_commit env k, cs @ [Commit]))"

text \<open>The rounds, which may go on for ever (\<open>None\<close>).\<close>

partial_function (option) dirty_rounds ::
  "dirty_env \<Rightarrow> nat \<Rightarrow> (nat \<times> nat option) list \<Rightarrow> nat \<Rightarrow> modeset_call list \<Rightarrow>
     (unit result \<times> modeset_call list) option" where
  "dirty_rounds env fb planes k log =
     (case dirty_round env fb planes k of
        (r, cs) \<Rightarrow>
          if r = Inl EDEADLK then
            (case de_backoff env k of
               Inl e \<Rightarrow> Some (Inl e, log @ cs @ [StateClear, Backoff])
             | Inr _ \<Rightarrow> dirty_rounds env fb planes (k + 1) (log @ cs @ [StateClear, Backoff]))
          else Some (r, log @ cs))"

text \<open>
  \<open>from_ioctl\<close> says that there is a file. The clips are marked once, before the first round; without
  memory for the state nothing is marked, and the error is not a deadlock.
\<close>

definition evdi_user_framebuffer_dirty ::
  "dirty_env \<Rightarrow> bool \<Rightarrow> nat \<Rightarrow> (nat \<times> nat option) list \<Rightarrow> drm_clip_rect list \<Rightarrow> evdi_device \<Rightarrow>
     (unit result \<times> modeset_call list \<times> evdi_device) option" where
  "evdi_user_framebuffer_dirty env from_ioctl fb planes clips evdi =
     (if \<not> de_alloc env
      then Some (Inl ENOMEM, [AcquireInit from_ioctl, StateAlloc, DropLocks, AcquireFini], evdi)
      else
        let e1 = fold mark_on clips evdi
        in case dirty_rounds env fb planes 0 [AcquireInit from_ioctl, StateAlloc] of
            None \<Rightarrow> None
          | Some (r, log) \<Rightarrow> Some (r, log @ [StatePut, DropLocks, AcquireFini], e1))"

section \<open>The callbacks of the cursor keep the accounts\<close>

lemma full_screen_keeps: "good evdi \<Longrightarrow> keeps [] evdi (evdi_mark_full_screen_dirty reserve ok evdi)"
  unfolding evdi_mark_full_screen_dirty_def Let_def
  by (rule keeps_then [OF _ mark_on_keeps update_ready.keeps_on_painter])

lemma one_reference [simp]:
  "gem_refs_taken [GemGet a] b = of_bool (a = b)" "gem_refs_taken [GemPut a] b = - of_bool (a = b)"
  "fb_refs_taken [GemGet a] b = 0" "fb_refs_taken [GemPut a] b = 0"
  "vblanks_sent [GemGet a] cv = 0" "vblanks_sent [GemPut a] cv = 0"
  "gem_refs_taken (GemGet a # cs) b = of_bool (a = b) + gem_refs_taken cs b"
  "fb_refs_taken (GemGet a # cs) b = fb_refs_taken cs b" "vblanks_sent (GemGet a # cs) cv = vblanks_sent cs cv"
  by (auto simp: gem_refs_taken_def fb_refs_taken_def vblanks_sent_def)

text \<open>A reference taken before an operation and put after it leaves the accounts as the operation does.\<close>

lemma around_keeps:
  assumes "keeps [] evdi (emit cs (evdi\<lparr>cursor := c', gems := g'\<rparr>))"
  shows "keeps [] evdi (emit (case obj of None \<Rightarrow> [] | Some a \<Rightarrow> [GemPut a])
    (emit cs (emit (case obj of None \<Rightarrow> [] | Some a \<Rightarrow> [GemGet a]) evdi\<lparr>cursor := c', gems := g'\<rparr>)))"
proof (cases obj)
  case None
  then show ?thesis using assms by (simp add: emit_def)
next
  case (Some a)
  have "gem_refs_taken cs b - of_bool (cur_obj c' = Some b) = - of_bool (cur_obj (cursor evdi) = Some b)" for b
    using assms by (simp add: keeps_def emit_def gem_owed_def)
  then have "of_bool (a = b) + (gem_refs_taken cs b + - of_bool (a = b)) - of_bool (cur_obj c' = Some b)
      = - (of_bool (cur_obj (cursor evdi) = Some b) :: int)" for b
    by (metis add.commute add_diff_cancel_right' diff_add_cancel uminus_add_conv_diff)
  then show ?thesis
    using assms unfolding Some option.case
    by (simp add: keeps_def good_def emit_def fb_owed_def gem_owed_def vblanks_def del: of_bool_eq_iff)
qed

lemma crtc_cursor_set_keeps:
  assumes g: "good evdi" and s: "evdi_crtc_cursor_set env lookup handle w h hx hy evdi = Ret (r, evdi')"
  shows "keeps [] evdi evdi'"
proof -
  let ?obj = "if handle \<noteq> 0 then lookup handle else None"
  let ?e1 = "emit (case ?obj of None \<Rightarrow> [] | Some a \<Rightarrow> [GemGet a]) evdi"
  obtain c2 g2 cs2 where c: "evdi_cursor_set (me_vmap env) ?obj w h hx hy DRM_FORMAT_ARGB8888 (4 * w)
      (cursor ?e1) (gems ?e1) = (c2, g2, cs2)"
    by (metis prod_cases3)
  let ?e3 = "emit (case ?obj of None \<Rightarrow> [] | Some a \<Rightarrow> [GemPut a]) (emit cs2 (?e1\<lparr>cursor := c2, gems := g2\<rparr>))"
  have "evdi_cursor_set (me_vmap env) ?obj w h hx hy DRM_FORMAT_ARGB8888 (4 * w) (cursor evdi) (gems evdi)
      = (c2, g2, cs2)"
    using c by (simp add: emit_def)
  then have k: "keeps [] evdi ?e3" by (rule around_keeps [OF cursor_set_keeps])
  have g3: "good ?e3" by (rule keeps_good [OF k g])
  note s = s [unfolded evdi_crtc_cursor_set_def Let_def c prod.case]
  show ?thesis
  proof (cases "cursor_events_enabled ?e3")
    case False
    then have "evdi' = evdi_mark_full_screen_dirty (me_reserve env 0) (me_ok env 0) ?e3" using s by simp
    then show ?thesis using keeps_trans0 [OF k full_screen_keeps [OF g3]] by simp
  next
    case True
    then obtain p p' cs where p: "painter ?e3 = Some p"
        "evdi_painter_send_cursor_set (me_handles env) (me_handle_create env) (me_reserve env 0) (me_ok env 0)
           (gems ?e3) (cursor ?e3) p = Ret (p', cs)" "evdi' = emit cs (?e3\<lparr>painter := Some p'\<rparr>)"
      using s by (auto split: option.splits outcome.splits)
    show ?thesis
      unfolding p(3) by (rule keeps_trans0 [OF k keeps_painter_device [OF p(1) _ g3]])
        (rule send_cursor_set_keeps [OF _ p(2)])
  qed
qed

lemma crtc_cursor_move_keeps:
  assumes g: "good evdi" and m: "evdi_crtc_cursor_move env x y evdi = Ret (r, evdi')"
  shows "keeps [] evdi evdi'"
proof -
  let ?e1 = "evdi\<lparr>cursor := evdi_cursor_move x y (cursor evdi)\<rparr>"
  have k: "keeps [] evdi ?e1" by (rule cursor_move_keeps)
  have g1: "good ?e1" by (rule keeps_good [OF k g])
  have "keeps [] ?e1 (on_painter (evdi_painter_send_cursor_move (me_reserve env 0) (me_ok env 0) (cursor ?e1)) ?e1)"
    using g1 send_event_keeps_painter
    by (auto simp: on_painter_def evdi_painter_send_cursor_move_def split: option.splits prod.splits
        intro!: keeps_painter_device)
  then show ?thesis
    using m keeps_trans0 [OF k full_screen_keeps [OF g1]] keeps_trans0 [OF k]
    unfolding evdi_crtc_cursor_move_def Let_def by (auto split: if_splits option.splits)
qed

section \<open>The damage they mark\<close>

lemma update_ready_dirts:
  assumes "evdi_painter_send_update_ready_if_needed reserve ok p = (p', cs)" and "work_ok p"
  shows "dirty_rects p' = dirty_rects p \<and> num_dirts p' = num_dirts p \<and> scanout_fb p' = scanout_fb p"
proof (cases "was_update_requested p \<and> num_dirts p \<noteq> 0")
  case True
  then obtain p1 where "evdi_painter_send_update_ready reserve ok p = (p1, cs)"
      "p' = p1\<lparr>was_update_requested := False\<rparr>"
    using assms(1) by (auto simp: evdi_painter_send_update_ready_if_needed_def split: prod.splits)
  then show ?thesis
    using send_event_frame [OF _ assms(2)] by (fastforce simp: evdi_painter_send_update_ready_def)
qed (use assms(1) in \<open>auto simp: evdi_painter_send_update_ready_if_needed_def\<close>)

lemma marks_contract:
  assumes "painter evdi = Some p" and "dirts_ok p"
  shows "\<exists>p'. painter (fold mark_on clips evdi) = Some p' \<and> dirts_ok p' \<and> scanout_fb p' = scanout_fb p \<and>
    damage p \<union> (\<Union>r\<in>set clips. shown_part p r) \<subseteq> damage p'"
  using assms
proof (induction clips arbitrary: evdi p)
  case (Cons r clips)
  let ?q = "evdi_painter_mark_dirty r p"
  have q: "painter (mark_on r evdi) = Some ?q" "dirts_ok ?q" "scanout_fb ?q = scanout_fb p"
      "damage p \<union> shown_part p r \<subseteq> damage ?q"
    using Cons.prems mark_dirty_contract [OF Cons.prems(2)]
    by (simp_all add: mark_on_def on_painter_def emit_def mark_dirty_sel)
  have "shown_part ?q = shown_part p" using q(3) by (simp add: shown_part_def fun_eq_iff)
  then obtain p' where p': "painter (fold mark_on clips (mark_on r evdi)) = Some p'" "dirts_ok p'"
      "scanout_fb p' = scanout_fb ?q" "damage ?q \<union> (\<Union>r\<in>set clips. shown_part p r) \<subseteq> damage p'"
    using Cons.IH [OF q(1,2)] by auto
  have "damage p \<union> (\<Union>r\<in>set (r # clips). shown_part p r) \<subseteq> damage p'"
    using q(4) p'(4) by (simp only: list.set UN_insert) blast
  then show ?case using p'(1-3) q(3) by (intro exI [of _ p']) simp
qed simp

lemma whole_frame:
  assumes "unat (fb_width fb) < 2 ^ 16" and "unat (fb_height fb) < 2 ^ 16" and "scanout_fb p = Some fb"
  shows "frame_of fb \<subseteq> shown_part p (evdi_painter_framebuffer_size (Some p))"
proof -
  have "unat (ucast (fb_width fb) :: u16) = unat (fb_width fb)" "unat (ucast (fb_height fb) :: u16) = unat (fb_height fb)"
    using assms(1,2) by (simp_all add: unsigned_ucast_eq take_bit_nat_eq_self)
  then show ?thesis
    using assms(3)
    by (auto simp: shown_part_def evdi_painter_framebuffer_size_def frame_of_def mem_pixels normalise_rect_def
        word_le_nat_alt word_less_nat_alt)
qed

lemma full_screen_damage:
  assumes "painter evdi = Some p" and "painter_inv p" and "scanout_fb p = Some fb"
    and "unat (fb_width fb) < 2 ^ 16" and "unat (fb_height fb) < 2 ^ 16"
  shows "\<exists>p'. painter (evdi_mark_full_screen_dirty reserve ok evdi) = Some p' \<and> dirts_ok p' \<and> frame_of fb \<subseteq> damage p'"
proof -
  let ?r = "evdi_painter_framebuffer_size (Some p)" let ?q = "evdi_painter_mark_dirty ?r p"
  have i: "dirts_ok p" "work_ok ?q" using assms(2) by (simp_all add: painter_inv_def mark_dirty_sel)
  obtain p' cs where u: "evdi_painter_send_update_ready_if_needed reserve ok ?q = (p', cs)" by fastforce
  have "dirts_ok p'" "damage p' = damage ?q"
    using update_ready_dirts [OF u i(2)] mark_dirty_contract(1) [OF i(1), of ?r]
    by (simp_all add: dirts_ok_def damage_def)
  moreover have "frame_of fb \<subseteq> damage ?q"
    using whole_frame [OF assms(4,5,3)] mark_dirty_contract(2) [OF i(1), of ?r] by blast
  moreover have "painter (evdi_mark_full_screen_dirty reserve ok evdi) = Some p'"
    using assms(1) u by (simp add: evdi_mark_full_screen_dirty_def mark_on_def on_painter_def emit_def)
  ultimately show ?thesis by blast
qed

section \<open>The rounds\<close>

definition deadlocked :: "dirty_env \<Rightarrow> nat \<Rightarrow> (nat \<times> nat option) list \<Rightarrow> nat \<Rightarrow> bool" where
  "deadlocked env fb planes j \<longleftrightarrow> fst (dirty_round env fb planes j) = Inl EDEADLK \<and> de_backoff env j = Inr ()"

definition round_calls :: "dirty_env \<Rightarrow> nat \<Rightarrow> (nat \<times> nat option) list \<Rightarrow> nat \<Rightarrow> modeset_call list" where
  "round_calls env fb planes j =
     (case dirty_round env fb planes j of
        (r, cs) \<Rightarrow> cs @ (if r = Inl EDEADLK then [StateClear, Backoff] else []))"

definition round_result :: "dirty_env \<Rightarrow> nat \<Rightarrow> (nat \<times> nat option) list \<Rightarrow> nat \<Rightarrow> unit result" where
  "round_result env fb planes j =
     (let r = fst (dirty_round env fb planes j) in if r = Inl EDEADLK then de_backoff env j else r)"

lemma dirty_rounds_step:
  "dirty_rounds env fb planes k log =
     (if deadlocked env fb planes k
      then dirty_rounds env fb planes (k + 1) (log @ round_calls env fb planes k)
      else Some (round_result env fb planes k, log @ round_calls env fb planes k))"
  by (subst dirty_rounds.simps)
    (auto simp: deadlocked_def round_calls_def round_result_def Let_def split: prod.splits sum.splits)

lemma dirty_rounds_stop:
  assumes "\<And>j. k \<le> j \<Longrightarrow> j < n \<Longrightarrow> deadlocked env fb planes j" and "\<not> deadlocked env fb planes n" and "k \<le> n"
  shows "dirty_rounds env fb planes k log =
    Some (round_result env fb planes n, log @ concat (map (round_calls env fb planes) [k..<n + 1]))"
  using assms
proof (induction "n - k" arbitrary: k log)
  case 0
  then show ?case by (simp add: dirty_rounds_step)
next
  case (Suc d)
  then have "deadlocked env fb planes k" "k < n" by auto
  moreover have "dirty_rounds env fb planes (k + 1) log' =
      Some (round_result env fb planes n, log' @ concat (map (round_calls env fb planes) [k + 1..<n + 1]))" for log'
    using Suc.hyps(2) Suc.prems by (intro Suc.hyps(1)) auto
  ultimately show ?case by (subst dirty_rounds_step) (simp add: upt_conv_Cons)
qed

definition stops :: "dirty_env \<Rightarrow> nat \<Rightarrow> (nat \<times> nat option) list \<Rightarrow> nat \<Rightarrow> bool" where
  "stops env fb planes k \<longleftrightarrow>
     (\<exists>n\<ge>k. \<not> deadlocked env fb planes n \<and> (\<forall>j. k \<le> j \<longrightarrow> j < n \<longrightarrow> deadlocked env fb planes j))"

lemma stops_next:
  assumes "deadlocked env fb planes k" and "stops env fb planes (k + 1)"
  shows "stops env fb planes k"
proof -
  obtain n where n: "k + 1 \<le> n" "\<not> deadlocked env fb planes n"
      "\<forall>j. k + 1 \<le> j \<longrightarrow> j < n \<longrightarrow> deadlocked env fb planes j"
    using assms(2) by (auto simp: stops_def)
  have "deadlocked env fb planes j" if "k \<le> j" "j < n" for j
    using that n(3) assms(1) by (cases "j = k") simp_all
  then show ?thesis unfolding stops_def using n(1,2) by (intro exI [of _ n]) simp
qed

lemma stops_step:
  assumes "\<And>env fb planes k log y. rec env fb planes k log = Some y \<Longrightarrow> stops env fb planes k"
    and "(case dirty_round env fb planes k of
        (r, cs) \<Rightarrow>
          if r = Inl EDEADLK then
            (case de_backoff env k of
               Inl e \<Rightarrow> Some (Inl e, log @ cs @ [StateClear, Backoff])
             | Inr _ \<Rightarrow> rec env fb planes (k + 1) (log @ cs @ [StateClear, Backoff]))
          else Some (r, log @ cs)) = Some y"
  shows "stops env fb planes k"
proof (cases "deadlocked env fb planes k")
  case True
  then obtain log' where "rec env fb planes (k + 1) log' = Some y"
    using assms(2) by (auto simp: deadlocked_def split: prod.splits)
  then show ?thesis by (rule stops_next [OF True assms(1)])
qed (auto simp: stops_def)

lemma dirty_rounds_returned:
  assumes "dirty_rounds env fb planes k log = Some y"
  shows "stops env fb planes k"
  by (rule dirty_rounds.raw_induct [where P = "\<lambda>env fb planes k log y. stops env fb planes k", OF stops_step assms])

text \<open>What a round calls: the planes that show the framebuffer, and the commit when it has them all.\<close>

lemma plane_states_calls:
  assumes "plane_states get fb planes = (r, cs)"
  shows "set cs \<subseteq> range GetPlane"
    and "r = Inr () \<Longrightarrow> cs = map (GetPlane \<circ> fst) (filter (\<lambda>p. snd p = Some fb) planes)"
proof -
  have "set cs \<subseteq> range GetPlane \<and>
      (r = Inr () \<longrightarrow> cs = map (GetPlane \<circ> fst) (filter (\<lambda>p. snd p = Some fb) planes))"
    using assms by (induction get fb planes arbitrary: r cs rule: plane_states.induct)
      (auto split: if_splits sum.splits prod.splits)
  then show "set cs \<subseteq> range GetPlane"
    "r = Inr () \<Longrightarrow> cs = map (GetPlane \<circ> fst) (filter (\<lambda>p. snd p = Some fb) planes)" by auto
qed

lemma round_counts:
  "count_list (round_calls env fb planes j) StatePut = 0"
  "count_list (round_calls env fb planes j) StateClear = count_list (round_calls env fb planes j) Backoff"
proof -
  obtain r cs where p: "plane_states (de_plane env j) fb planes = (r, cs)" by fastforce
  have "count_list cs c = 0" if "c \<notin> range GetPlane" for c
    using plane_states_calls(1) [OF p] that by (meson count_list_0_iff subsetD)
  then have "count_list cs StatePut = 0" "count_list cs StateClear = 0" "count_list cs Backoff = 0" by auto
  then show "count_list (round_calls env fb planes j) StatePut = 0"
    "count_list (round_calls env fb planes j) StateClear = count_list (round_calls env fb planes j) Backoff"
    by (auto simp: round_calls_def dirty_round_def p split: sum.splits)
qed

lemma rounds_counts:
  "count_list (concat (map (round_calls env fb planes) js)) StatePut = 0"
  "count_list (concat (map (round_calls env fb planes) js)) StateClear =
     count_list (concat (map (round_calls env fb planes) js)) Backoff"
  by (induction js) (simp_all add: round_counts)

lemma committed_round:
  assumes "round_result env fb planes n = Inr ()" and "\<not> deadlocked env fb planes n"
  shows "round_calls env fb planes n = map (GetPlane \<circ> fst) (filter (\<lambda>p. snd p = Some fb) planes) @ [Commit]"
proof -
  obtain r cs where p: "plane_states (de_plane env n) fb planes = (r, cs)" by fastforce
  have "fst (dirty_round env fb planes n) = Inr ()"
    using assms by (auto simp: round_result_def deadlocked_def Let_def split: if_splits)
  then have "r = Inr ()" "round_calls env fb planes n = cs @ [Commit]"
    by (auto simp: round_calls_def dirty_round_def p split: sum.splits)
  then show ?thesis using plane_states_calls(2) [OF p] by simp
qed

section \<open>Properties\<close>

text \<open>
  In every state the driver can reach, a set or a move of the cursor through the old callbacks keeps
  the invariant of the painter, and the only reference to an object that is left is the cursor's own,
  whatever the handle that is looked up.
\<close>

theorem legacy_cursor_balanced:
  assumes "reachable s"
    and "evdi_crtc_cursor_set env lookup handle w h hx hy (dev s) = Ret (r, evdi') \<or>
         evdi_crtc_cursor_move env x y (dev s) = Ret (r, evdi')"
  shows "(\<forall>p. painter evdi' = Some p \<longrightarrow> painter_inv p) \<and>
    gem_refs_taken (calls evdi') a = of_bool (cur_obj (cursor evdi') = Some a)"
proof -
  have i: "good (dev s)" "gem_owed (dev s) a = 0"
    using reachable_inv [OF assms(1)] by (simp_all add: sys_inv_def)
  have "keeps [] (dev s) evdi'"
    using assms(2) by (elim disjE) (erule crtc_cursor_set_keeps [OF i(1)] crtc_cursor_move_keeps [OF i(1)])+
  then have "gem_owed evdi' a = 0" "good evdi'" using i unfolding keeps_def by simp_all
  then show ?thesis unfolding gem_owed_def good_def by simp
qed

theorem legacy_cursor_balanced_witness:
  "\<exists>evdi'. evdi_crtc_cursor_set sample_commit (\<lambda>_. Some 7) 1 64 64 0 0 (dev (initial (\<lambda>_. sample_object)))
       = Ret (Inr (), evdi') \<and>
     gem_refs_taken (calls evdi') 7 = of_bool (cur_obj (cursor evdi') = Some 7)"
proof -
  have "cursor_events_enabled (dev (initial (\<lambda>_. sample_object))) = False"
    by (simp add: initial_def zero_device_def evdi_painter_init_def emit_def)
  then obtain evdi' where s: "evdi_crtc_cursor_set sample_commit (\<lambda>_. Some 7) 1 64 64 0 0
      (dev (initial (\<lambda>_. sample_object))) = Ret (Inr (), evdi')"
    unfolding evdi_crtc_cursor_set_def by (simp add: emit_def Let_def case_prod_beta)
  show ?thesis using legacy_cursor_balanced [OF reachable.start disjI1 [OF s], of 7] s by blast
qed

text \<open>
  When the client is not told of the cursor, a move through the old callback makes the whole frame damage,
  if its sides fit the 16 bits of a clip rectangle.
\<close>

theorem legacy_move_redraws:
  assumes "painter evdi = Some p" and "painter_inv p" and "scanout_fb p = Some fb"
    and "unat (fb_width fb) < 2 ^ 16" and "unat (fb_height fb) < 2 ^ 16" and "\<not> cursor_events_enabled evdi"
  shows "\<exists>evdi' p'. evdi_crtc_cursor_move env x y evdi = Ret (Inr (), evdi') \<and> painter evdi' = Some p' \<and>
    frame_of fb \<subseteq> damage p'"
proof -
  let ?e1 = "evdi\<lparr>cursor := evdi_cursor_move x y (cursor evdi)\<rparr>"
  have "painter ?e1 = Some p" using assms(1) by simp
  then show ?thesis
    using full_screen_damage [OF _ assms(2-5), of ?e1 "me_reserve env 0" "me_ok env 0"] assms(6)
    by (auto simp: evdi_crtc_cursor_move_def)
qed

text \<open>
  The dirty callback returns exactly when not every round ends in a deadlock that could be backed off
  from; it has no bound of its own on the rounds.
\<close>

theorem framebuffer_dirty_returns_iff:
  "evdi_user_framebuffer_dirty env from_ioctl fb planes clips evdi \<noteq> None \<longleftrightarrow>
     \<not> de_alloc env \<or> (\<exists>n. \<not> (fst (dirty_round env fb planes n) = Inl EDEADLK \<and> de_backoff env n = Inr ()))"
proof -
  have "dirty_rounds env fb planes 0 log \<noteq> None \<longleftrightarrow> (\<exists>n. \<not> deadlocked env fb planes n)" for log
  proof
    assume "\<exists>n. \<not> deadlocked env fb planes n"
    then obtain n where "\<not> deadlocked env fb planes n" "\<And>j. j < n \<Longrightarrow> deadlocked env fb planes j"
      using exists_least_iff [of "\<lambda>n. \<not> deadlocked env fb planes n"] by blast
    then show "dirty_rounds env fb planes 0 log \<noteq> None" by (simp add: dirty_rounds_stop [of 0 n])
  next
    assume "dirty_rounds env fb planes 0 log \<noteq> None"
    then obtain y where "dirty_rounds env fb planes 0 log = Some y" by blast
    from dirty_rounds_returned [OF this] show "\<exists>n. \<not> deadlocked env fb planes n" by (auto simp: stops_def)
  qed
  then have "dirty_rounds env fb planes 0 [AcquireInit from_ioctl, StateAlloc] = None \<longleftrightarrow> (\<forall>n. deadlocked env fb planes n)"
    by blast
  then show ?thesis
    by (cases "dirty_rounds env fb planes 0 [AcquireInit from_ioctl, StateAlloc]")
      (auto simp: evdi_user_framebuffer_dirty_def simp flip: deadlocked_def)
qed

text \<open>
  When the dirty callback returns and had memory, every clip is damage the client will be given, whether the
  commit succeeded or not; the calls to the core balance; and on success its last round has committed
  exactly the planes that show the framebuffer.
\<close>

theorem framebuffer_dirty_commits:
  assumes "evdi_user_framebuffer_dirty env from_ioctl fb planes clips evdi = Some (r, cs, evdi')" and "de_alloc env"
    and "painter evdi = Some p" and "dirts_ok p"
  shows "(\<exists>p'. painter evdi' = Some p' \<and> dirts_ok p' \<and> damage p \<union> (\<Union>c\<in>set clips. shown_part p c) \<subseteq> damage p') \<and>
    count_list cs StatePut = 1 \<and> count_list cs StateClear = count_list cs Backoff \<and>
    (r = Inr () \<longrightarrow> (\<exists>pre. cs = pre @ map (GetPlane \<circ> fst) (filter (\<lambda>p. snd p = Some fb) planes) @
       [Commit, StatePut, DropLocks, AcquireFini]))"
proof -
  obtain l where l: "dirty_rounds env fb planes 0 [AcquireInit from_ioctl, StateAlloc] = Some (r, l)"
      "cs = l @ [StatePut, DropLocks, AcquireFini]" "evdi' = fold mark_on clips evdi"
    using assms(1,2) by (auto simp: evdi_user_framebuffer_dirty_def Let_def split: option.splits)
  obtain n where n: "\<not> deadlocked env fb planes n" "\<And>j. j < n \<Longrightarrow> deadlocked env fb planes j"
    using dirty_rounds_returned [OF l(1)] by (auto simp: stops_def)
  have r: "r = round_result env fb planes n"
      "l = [AcquireInit from_ioctl, StateAlloc] @ concat (map (round_calls env fb planes) [0..<n]) @ round_calls env fb planes n"
    using l(1) dirty_rounds_stop [of 0 n env fb planes] n by simp_all
  have "count_list cs StatePut = 1" "count_list cs StateClear = count_list cs Backoff"
    unfolding l(2) r(2) by (simp_all add: rounds_counts round_counts)
  moreover have "\<exists>pre. cs = pre @ map (GetPlane \<circ> fst) (filter (\<lambda>p. snd p = Some fb) planes) @
      [Commit, StatePut, DropLocks, AcquireFini]" if "r = Inr ()"
    using committed_round [OF _ n(1)] that unfolding l(2) r
    by (intro exI [of _ "[AcquireInit from_ioctl, StateAlloc] @ concat (map (round_calls env fb planes) [0..<n])"]) simp
  moreover have "\<exists>p'. painter evdi' = Some p' \<and> dirts_ok p' \<and> damage p \<union> (\<Union>c\<in>set clips. shown_part p c) \<subseteq> damage p'"
    using marks_contract [OF assms(3,4), of clips] l(3) by blast
  ultimately show ?thesis by blast
qed

definition one_deadlock :: dirty_env where
  "one_deadlock = \<lparr>de_alloc = True, de_plane = (\<lambda>k _. if k = 0 then Inl EDEADLK else Inr ()),
     de_commit = (\<lambda>_. Inr ()), de_backoff = (\<lambda>_. Inr ())\<rparr>"

theorem framebuffer_dirty_commits_witness:
  "\<exists>cs evdi' p'. evdi_user_framebuffer_dirty one_deadlock True 7 [(1, Some 7), (2, None)]
       [\<lparr>x1 = 0, y1 = 0, x2 = 2, y2 = 2\<rparr>] ((dev (initial (\<lambda>_. sample_object)))\<lparr>painter := Some sample_painter\<rparr>)
       = Some (Inr (), cs, evdi') \<and> count_list cs Backoff = 1 \<and> count_list cs StateClear = 1 \<and>
     painter evdi' = Some p' \<and> (1, 1) \<in> damage p'"
proof -
  let ?r = "\<lparr>x1 = 0, y1 = 0, x2 = 2, y2 = 2\<rparr> :: drm_clip_rect"
  let ?evdi = "(dev (initial (\<lambda>_. sample_object)))\<lparr>painter := Some sample_painter\<rparr>"
  have d: "deadlocked one_deadlock 7 [(1, Some 7), (2, None)] 0" "\<not> deadlocked one_deadlock 7 [(1, Some 7), (2, None)] 1"
      "round_result one_deadlock 7 [(1, Some 7), (2, None)] 1 = Inr ()"
    by (simp_all add: deadlocked_def round_result_def dirty_round_def one_deadlock_def EDEADLK_def)
  have "dirty_rounds one_deadlock 7 [(1, Some 7), (2, None)] 0 [AcquireInit True, StateAlloc] = Some (Inr (),
      [AcquireInit True, StateAlloc] @ concat (map (round_calls one_deadlock 7 [(1, Some 7), (2, None)]) [0..<1 + 1]))"
    using dirty_rounds_stop [of 0 1 one_deadlock 7 "[(1, Some 7), (2, None)]"] d by auto
  then obtain cs where e: "evdi_user_framebuffer_dirty one_deadlock True 7 [(1, Some 7), (2, None)] [?r] ?evdi
      = Some (Inr (), cs, mark_on ?r ?evdi)" "count_list cs Backoff = 1"
    by (simp add: evdi_user_framebuffer_dirty_def one_deadlock_def round_calls_def dirty_round_def EDEADLK_def upt_conv_Cons)
  have "(1, 1) \<in> shown_part sample_painter ?r"
    by (simp add: shown_part_def sample_painter_ok mem_pixels frame_of_def sample_fb_def normalise_rect_def)
  then show ?thesis
    using framebuffer_dirty_commits [OF e(1) _ _ sample_painter_ok(1)] e by (fastforce simp: one_deadlock_def)
qed

end
