(* ===== verification/Evdi_LibWait.thy ===== *)
theory Evdi_LibWait
  imports Evdi_LibProc Evdi_Entry
begin

text \<open>
  The whole of \<open>open_device\<close> of \<open>library/evdi_lib.c\<close>: the path of the card, waiting until another process has
  the card open when the X server runs, the attempts to open it as a slave with what they log, and the
  final drop of master. \<open>Evdi_LibOpen\<close> has the result alone; here it is refined by what happens on the way.
\<close>

section \<open>Paths and master\<close>

definition card_path :: "s32 \<Rightarrow> string" where
  "card_path device = snprintf PATH_MAX (''/dev/dri/card'' @ signed_decimal device)"

text \<open>\<open>present\<close> says which paths \<open>stat\<close> finds.\<close>

definition path_exists :: "(string \<Rightarrow> bool) \<Rightarrow> string \<Rightarrow> bool" where
  "path_exists present path = present path"

definition device_exists :: "(string \<Rightarrow> bool) \<Rightarrow> s32 \<Rightarrow> bool" where
  "device_exists present device = path_exists present (card_path device)"

definition EACCES :: errno where
  "EACCES = EOTHER 13"

text \<open>The answer to \<open>DRM_IOCTL_AUTH_MAGIC\<close> for the token zero.\<close>

definition drm_auth_magic :: "unit result \<Rightarrow> unit result" where
  "drm_auth_magic answer = (case answer of Inl e \<Rightarrow> Inl e | Inr _ \<Rightarrow> Inr ())"

definition drm_is_master :: "unit result \<Rightarrow> bool" where
  "drm_is_master answer \<longleftrightarrow> drm_auth_magic answer \<noteq> Inl EACCES"

section \<open>Opening with the log\<close>

text \<open>The answers to one attempt, and the texts of \<open>errno\<close> when it is logged.\<close>

record try_answers =
  ta_open :: s32
  ta_auth :: "unit result"
  ta_drop :: "unit result"
  ta_auth_after :: "unit result"
  ta_text :: "nat \<Rightarrow> string"

definition drop_failed :: "string \<Rightarrow> string \<Rightarrow> string" where
  "drop_failed path text = ''Drop master on '' @ path @ '' failed, err: '' @ text"

definition open_as_slave_logged :: "string \<Rightarrow> try_answers \<Rightarrow> lib_log \<Rightarrow> s32 \<times> s32 list \<times> lib_log" where
  "open_as_slave_logged path a s =
     (if sint (ta_open a) < 0 then (- 1, [], s)
      else
        let master = drm_is_master (ta_auth a);
            s1 = (if master then evdi_log (''Process has master on '' @ path @ '', err: '' @ ta_text a 0) s else s);
            err = (if master then (case ta_drop a of Inl _ \<Rightarrow> - 1 | Inr _ \<Rightarrow> 0) else 0 :: s32)
        in if sint err < 0 then (err, [], evdi_log (drop_failed path (ta_text a 1)) s1)
           else if drm_is_master (ta_auth_after a) then (- 1, [], evdi_log (drop_failed path (ta_text a 1)) s1)
           else (ta_open a, [ta_open a], evdi_log (''Opened '' @ path @ '' as slave drm device'') s1))"

text \<open>The result, the descriptors left open, the number of attempts and the log.\<close>

fun wait_loop_logged ::
  "string \<Rightarrow> (nat \<Rightarrow> try_answers) \<Rightarrow> nat \<Rightarrow> nat \<Rightarrow> lib_log \<Rightarrow> s32 \<times> s32 list \<times> nat \<times> lib_log" where
  "wait_loop_logged path tries k cnt s =
     (case open_as_slave_logged path (tries k) s of
        (fd, files, s1) \<Rightarrow>
          if sint fd < 0 \<and> cnt \<noteq> 0 then wait_loop_logged path tries (k + 1) (cnt - 1) s1
          else (fd, files, k + 1, s1))"

declare wait_loop_logged.simps [simp del]

definition wait_for_device_logged ::
  "string \<Rightarrow> (nat \<Rightarrow> try_answers) \<Rightarrow> string \<Rightarrow> lib_log \<Rightarrow> s32 \<times> s32 list \<times> nat \<times> lib_log" where
  "wait_for_device_logged path tries text s =
     (case wait_loop_logged path tries 0 WAIT_TRIES s of
        (fd, files, n, s1) \<Rightarrow>
          (fd, files, n, if sint fd < 0 then evdi_log (''Failed to open a device: '' @ text) s1 else s1))"

text \<open>\<open>proc k\<close> is \<open>/proc\<close> at the \<open>k\<close>-th look; the first look is for the X server.\<close>

definition wait_for_master_logged ::
  "s32 \<Rightarrow> (nat \<Rightarrow> process list option) \<Rightarrow> string \<Rightarrow> lib_log \<Rightarrow> nat \<times> lib_log" where
  "wait_for_master_logged myself proc path s =
     (case wait_for_master (\<lambda>k. device_has_master myself (proc (k + 1)) path) 0 WAIT_TRIES of
        (has_master, looks) \<Rightarrow> (looks, if \<not> has_master then evdi_log ''Wait for master timed out'' s else s))"

text \<open>The descriptor and what happened: the open files, the looks for a master, the attempts and the log.\<close>

record opened_card =
  op_fd :: s32
  op_files :: "s32 list"
  op_looks :: nat
  op_tries :: nat
  op_log :: lib_log

definition open_device_logged ::
  "s32 \<Rightarrow> (nat \<Rightarrow> process list option) \<Rightarrow> (nat \<Rightarrow> try_answers) \<Rightarrow> string \<Rightarrow> unit result \<Rightarrow> s32 \<Rightarrow> lib_log \<Rightarrow>
     opened_card outcome" where
  "open_device_logged myself proc tries text dropped device s =
     (let path = card_path device
      in case Xorg_running (proc 0) of
          Oops \<Rightarrow> Oops
        | Ret running \<Rightarrow>
            let (looks, s1) = (if running then wait_for_master_logged myself proc path s else (0, s));
                (fd, files, n, s2) = wait_for_device_logged path tries text s1;
                s3 = (if 0 \<le> sint fd
                      then (case dropped of Inl _ \<Rightarrow> s2 | Inr _ \<Rightarrow> evdi_log (''Dropped master on '' @ path) s2)
                      else s2)
            in Ret \<lparr>op_fd = fd, op_files = files, op_looks = looks, op_tries = n, op_log = s3\<rparr>)"

text \<open>The time spent asleep, in microseconds: between two looks and between two attempts.\<close>

definition slept :: "opened_card \<Rightarrow> nat" where
  "slept o' = ((op_looks o' - 1) + (op_tries o' - 1)) * 100000"

section \<open>Refinement\<close>

text \<open>What \<open>Evdi_LibOpen\<close> sees of an attempt.\<close>

definition attempt_of :: "try_answers \<Rightarrow> attempt" where
  "attempt_of a = \<lparr>at_open = ta_open a, at_master = drm_is_master (ta_auth a), at_drop = ta_drop a,
     at_master_after = drm_is_master (ta_auth_after a)\<rparr>"

lemma open_as_slave_logged_result:
  "open_as_slave_logged path a s = (fd, files, s') \<Longrightarrow> open_as_slave (attempt_of a) = (fd, files)"
  by (auto simp: open_as_slave_logged_def open_as_slave_def attempt_of_def Let_def split: if_splits sum.splits)

lemma wait_loop_logged_result:
  "wait_loop_logged path tries k cnt s = (fd, files, n, s') \<Longrightarrow>
     wait_loop (\<lambda>k. attempt_of (tries k)) k cnt = ((fd, files), n)"
proof (induction path tries k cnt s arbitrary: fd files n s' rule: wait_loop_logged.induct)
  case (1 path tries k cnt s)
  obtain fd0 files0 s0 where o: "open_as_slave_logged path (tries k) s = (fd0, files0, s0)" by (metis prod_cases3)
  show ?case
  proof (cases "sint fd0 < 0 \<and> cnt \<noteq> 0")
    case True
    then have "wait_loop_logged path tries (k + 1) (cnt - 1) s0 = (fd, files, n, s')"
      using "1.prems" o by (simp add: wait_loop_logged.simps [of path tries k])
    from "1.IH" [OF o [symmetric] refl True this] show ?thesis
      using True open_as_slave_logged_result [OF o] by (simp add: wait_loop.simps [of _ k])
  next
    case False
    then have "wait_loop_logged path tries k cnt s = (fd0, files0, k + 1, s0)"
      by (subst wait_loop_logged.simps) (use False in \<open>simp only: o prod.case if_False\<close>)
    moreover have "wait_loop (\<lambda>k. attempt_of (tries k)) k cnt = ((fd0, files0), k + 1)"
      by (subst wait_loop.simps) (use False in \<open>simp only: open_as_slave_logged_result [OF o] prod.case if_False\<close>)
    ultimately show ?thesis using "1.prems" by simp
  qed
qed

lemma wait_for_master_result:
  "wait_for_master h k cnt = (b, n) \<Longrightarrow>
     k < n \<and> n \<le> k + cnt + 1 \<and> b = h (n - 1) \<and> (\<forall>j. k \<le> j \<longrightarrow> j < n - 1 \<longrightarrow> \<not> h j) \<and> (\<not> b \<longrightarrow> n = k + cnt + 1)"
proof (induction h k cnt rule: wait_for_master.induct)
  case (1 h k cnt)
  show ?case
  proof (cases "\<not> h k \<and> cnt \<noteq> 0")
    case True
    then have "wait_for_master h (k + 1) (cnt - 1) = (b, n)"
      using "1.prems" by (simp add: wait_for_master.simps [of h k])
    from "1.IH" [OF True this] have ih: "k + 1 < n" "n \<le> k + 1 + (cnt - 1) + 1" "b = h (n - 1)"
        "\<forall>j. k + 1 \<le> j \<longrightarrow> j < n - 1 \<longrightarrow> \<not> h j" "\<not> b \<longrightarrow> n = k + 1 + (cnt - 1) + 1"
      by blast+
    have "\<not> h j" if "k \<le> j" "j < n - 1" for j
    proof (cases "j = k")
      case False
      then show ?thesis using ih(4) that by simp
    qed (use True in blast)
    moreover have "k < n" "n \<le> k + cnt + 1" "\<not> b \<longrightarrow> n = k + cnt + 1" using ih(1,2,5) True by linarith+
    ultimately show ?thesis using ih(3) by blast
  next
    case False
    then have "wait_for_master h k cnt = (h k, k + 1)" by (subst wait_for_master.simps) auto
    then have "b = h k" "n = k + 1" using "1.prems" by simp_all
    then show ?thesis using False by auto
  qed
qed

lemma WAIT_TRIES_eq: "WAIT_TRIES = 50"
  by (simp add: WAIT_TRIES_def)

lemma card_path_whole: "card_path device = ''/dev/dri/card'' @ signed_decimal device"
  using signed_decimal_length [of device] by (simp add: card_path_def snprintf_def PATH_MAX_def)

section \<open>Properties\<close>

text \<open>
  C23: opening a card always comes back, unless the search for the X server reads a name it has not got: it
  looks for a master only when X runs, until one is found or fifty times more, tries to open the card at most fifty-one
  times, sleeps at most ten seconds, and leaves what the attempts alone would leave.
\<close>

theorem open_device_bounded:
  assumes "Xorg_running (proc 0) = Ret running"
  shows "\<exists>d. open_device_logged myself proc tries text dropped device s = Ret d \<and>
    (op_fd d, op_files d) = open_device (\<lambda>k. attempt_of (tries k)) \<and>
    op_tries d \<le> 51 \<and> op_looks d \<le> 51 \<and> slept d \<le> 10000000 \<and> (op_looks d = 0 \<longleftrightarrow> \<not> running) \<and>
    (\<forall>k<op_looks d - 1. \<not> device_has_master myself (proc (k + 1)) (''/dev/dri/card'' @ signed_decimal device)) \<and>
    (running \<and> op_looks d < 51 \<longrightarrow>
       device_has_master myself (proc (op_looks d)) (''/dev/dri/card'' @ signed_decimal device))"
proof -
  let ?path = "card_path device"
  let ?h = "\<lambda>k. device_has_master myself (proc (k + 1)) ?path"
  obtain b looks where m: "wait_for_master ?h 0 WAIT_TRIES = (b, looks)" by fastforce
  let ?looks = "if running then looks else 0"
  have l: "?looks \<le> 51" "?looks = 0 \<longleftrightarrow> \<not> running" "\<forall>k<?looks - 1. \<not> ?h k" "running \<and> ?looks < 51 \<longrightarrow> ?h (?looks - 1)"
  proof -
    note r = wait_for_master_result [OF m, unfolded WAIT_TRIES_eq]
    have "0 < looks" "looks \<le> 51" "looks < 51 \<longrightarrow> ?h (looks - 1)" using r by linarith+
    moreover have "\<forall>k<looks - 1. \<not> ?h k" using r by blast
    ultimately show "?looks \<le> 51" "?looks = 0 \<longleftrightarrow> \<not> running" "\<forall>k<?looks - 1. \<not> ?h k"
      "running \<and> ?looks < 51 \<longrightarrow> ?h (?looks - 1)"
      by (cases running; simp)+
  qed
  define s1 where "s1 = (if running then snd (wait_for_master_logged myself proc ?path s) else s)"
  have w: "(if running then wait_for_master_logged myself proc ?path s else (0, s)) = (?looks, s1)"
    unfolding s1_def wait_for_master_logged_def m prod.case by simp
  obtain fd files n s2 where a: "wait_loop_logged ?path tries 0 WAIT_TRIES s1 = (fd, files, n, s2)" by (metis prod_cases4)
  have o: "wait_loop (\<lambda>k. attempt_of (tries k)) 0 WAIT_TRIES = ((fd, files), n)"
    by (rule wait_loop_logged_result [OF a])
  have n: "n \<le> 51" using wait_loop_result [OF o] by (simp add: WAIT_TRIES_eq)
  obtain s3 where r: "open_device_logged myself proc tries text dropped device s =
      Ret \<lparr>op_fd = fd, op_files = files, op_looks = ?looks, op_tries = n, op_log = s3\<rparr>"
    unfolding open_device_logged_def Let_def assms outcome.case w wait_for_device_logged_def a prod.case by blast
  have d: "(fd, files) = open_device (\<lambda>k. attempt_of (tries k))"
    using o by (simp add: open_device_def wait_for_device_def)
  have "((?looks - 1) + (n - 1)) * 100000 \<le> 10000000"
    using add_le_mono [of "?looks - 1" 50 "n - 1" 50] l(1) n by simp
  moreover have "running \<and> ?looks < 51 \<longrightarrow> device_has_master myself (proc ?looks) ?path"
    using l(2,4) by (cases "?looks") auto
  ultimately show ?thesis
    by (intro exI [of _ "\<lparr>op_fd = fd, op_files = files, op_looks = ?looks, op_tries = n, op_log = s3\<rparr>"])
      (simp only: r slept_def opened_card.select_convs d n l(1-3) card_path_whole [symmetric] simp_thms,
        insert l(3), blast)
qed

definition sample_X :: process where
  "sample_X = \<lparr>pr_name = ''200'', pr_fds = None, pr_maps = None, pr_stat = Some ''200 (Xorg) S''\<rparr>"

definition sample_try :: try_answers where
  "sample_try = \<lparr>ta_open = 9, ta_auth = Inl EACCES, ta_drop = Inr (), ta_auth_after = Inl EACCES, ta_text = (\<lambda>_. [])\<rparr>"

theorem open_device_bounded_witness:
  "let s = \<lparr>g_evdi_logging = None, printed = [], passed = []\<rparr>
   in \<exists>d. open_device_logged 1 (\<lambda>_. Some [sample_X]) (\<lambda>_. sample_try) [] (Inr ()) 3 s = Ret d \<and>
        op_looks d = 51 \<and> op_tries d \<le> 51"
proof -
  have x: "Xorg_running (Some [sample_X]) = Ret True"
    by (simp add: Xorg_running_def is_Xorg_process_folder_def is_Xorg_def sample_X_def is_numeric_def is_digit_def
        process_name_def scan_word_def is_space_def is_name_Xorg_def digit_def)
  have "\<not> device_has_master 1 (Some [sample_X]) path" for path
    by (simp add: device_has_master_def sample_X_def process_opened_files_def process_opened_device_def)
  then show ?thesis
    using open_device_bounded [of "\<lambda>_. Some [sample_X]" True 1 "\<lambda>_. sample_try" "[]" "Inr ()" 3
        "\<lparr>g_evdi_logging = None, printed = [], passed = []\<rparr>", OF x]
    by (auto simp: Let_def le_less)
qed

end
