(* ===== verification/Evdi_Teardown.thy ===== *)
theory Evdi_Teardown
  imports Evdi_Pipeline
begin

text \<open>
  The end of the display pipeline: the destroy callbacks of \<open>module/evdi_modeset.c\<close>,
  \<open>module/evdi_encoder.c\<close> and \<open>module/evdi_connector.c\<close>, which the DRM core calls for the objects it knows when
  the card goes away, and the memory of the pipeline that is given back by them.
\<close>

section \<open>The objects and their memory\<close>

datatype kms_object = CrtcObject | PrimaryPlane | CursorPlane | EncoderObject | ConnectorObject

text \<open>The memory that is left allocated when the pipeline has been made; a plane or an encoder that cannot be
  initialised is freed at once.\<close>

definition allocated :: "modeset_env \<Rightarrow> kms_object set" where
  "allocated env =
     (if me_crtc env then {CrtcObject} else {}) \<union>
     (if me_crtc env \<and> evdi_create_plane (fst (me_primary env)) (snd (me_primary env)) \<noteq> None then {PrimaryPlane} else {}) \<union>
     (if me_crtc env \<and> evdi_create_plane (fst (me_cursor env)) (snd (me_cursor env)) \<noteq> None then {CursorPlane} else {}) \<union>
     (if evdi_encoder_init (fst (me_encoder env)) (snd (me_encoder env)) \<noteq> None then {EncoderObject} else {}) \<union>
     (if me_connector env \<noteq> None then {ConnectorObject} else {})"

text \<open>
  The core knows an object once it is initialised. The results for the CRTC and the connector, \<open>crtc_ok\<close> and
  \<open>connector_ok\<close>, are not looked at.
\<close>

definition known :: "bool \<Rightarrow> bool \<Rightarrow> modeset_env \<Rightarrow> kms_object set" where
  "known crtc_ok connector_ok env =
     allocated env - (if crtc_ok then {} else {CrtcObject}) - (if connector_ok then {} else {ConnectorObject})"

section \<open>Callbacks\<close>

datatype kms_call = Cleanup kms_object | Unregister kms_object | Kfree kms_object | VblankOff

definition evdi_crtc_dpms :: "s32 \<Rightarrow> kms_call list" where
  "evdi_crtc_dpms m = []"

definition evdi_crtc_commit :: "kms_call list" where
  "evdi_crtc_commit = []"

definition evdi_crtc_disable :: "kms_call list" where
  "evdi_crtc_disable = [VblankOff]"

definition evdi_crtc_destroy :: "kms_call list" where
  "evdi_crtc_destroy = [Cleanup CrtcObject, Kfree CrtcObject]"

definition evdi_enc_destroy :: "kms_call list" where
  "evdi_enc_destroy = [Cleanup EncoderObject, Kfree EncoderObject]"

definition evdi_connector_destroy :: "kms_call list" where
  "evdi_connector_destroy = [Unregister ConnectorObject, Cleanup ConnectorObject, Kfree ConnectorObject]"

text \<open>The callback of the planes is \<open>drm_plane_cleanup\<close> of the core itself.\<close>

definition evdi_plane_funcs_destroy :: "kms_object \<Rightarrow> kms_call list" where
  "evdi_plane_funcs_destroy plane = [Cleanup plane]"

fun destroy_callback :: "kms_object \<Rightarrow> kms_call list" where
  "destroy_callback CrtcObject = evdi_crtc_destroy"
| "destroy_callback PrimaryPlane = evdi_plane_funcs_destroy PrimaryPlane"
| "destroy_callback CursorPlane = evdi_plane_funcs_destroy CursorPlane"
| "destroy_callback EncoderObject = evdi_enc_destroy"
| "destroy_callback ConnectorObject = evdi_connector_destroy"

text \<open>
  Since kernel 5.8 the core cleans the mode configuration up by itself and the driver's function does
  nothing; before, it asked for it. \<open>order\<close> is the order in which the core destroys the objects.
\<close>

definition drm_mode_config_cleanup :: "kms_object list \<Rightarrow> kms_call list" where
  "drm_mode_config_cleanup order = concat (map destroy_callback order)"

definition evdi_modeset_cleanup :: "bool \<Rightarrow> kms_object list \<Rightarrow> kms_call list" where
  "evdi_modeset_cleanup managed order = (if managed then [] else drm_mode_config_cleanup order)"

definition card_gone :: "bool \<Rightarrow> kms_object list \<Rightarrow> kms_call list" where
  "card_gone managed order =
     evdi_modeset_cleanup managed order @ (if managed then drm_mode_config_cleanup order else [])"

definition leaked :: "modeset_env \<Rightarrow> kms_call list \<Rightarrow> kms_object set" where
  "leaked env cs = {x \<in> allocated env. Kfree x \<notin> set cs}"

section \<open>Properties\<close>

lemma frees: "Kfree x \<in> set (destroy_callback y) \<longleftrightarrow> x = y \<and> y \<notin> {PrimaryPlane, CursorPlane}"
  by (cases y) (auto simp: evdi_crtc_destroy_def evdi_enc_destroy_def evdi_connector_destroy_def
      evdi_plane_funcs_destroy_def)

lemma card_gone_eq: "card_gone managed order = concat (map destroy_callback order)"
  by (simp add: card_gone_def evdi_modeset_cleanup_def drm_mode_config_cleanup_def)

lemma frees_once: "count_list (destroy_callback y) (Kfree x) = (if x = y \<and> y \<notin> {PrimaryPlane, CursorPlane} then 1 else 0)"
  by (cases y) (auto simp: evdi_crtc_destroy_def evdi_enc_destroy_def evdi_connector_destroy_def
      evdi_plane_funcs_destroy_def)

lemma cleaned_order: "distinct order \<Longrightarrow> count_list (concat (map destroy_callback order)) (Kfree x) =
    (if x \<in> set order \<and> x \<notin> {PrimaryPlane, CursorPlane} then 1 else 0)"
  by (induction order) (auto simp: frees_once)

text \<open>
  C30: when the card goes away, whichever way the kernel cleans up and in whatever order, nothing is freed twice
  and nothing that was not allocated; the encoder is given back always, the CRTC and the connector when the core has
  taken them, and the planes never.
\<close>

theorem teardown_leaks_planes:
  assumes "distinct order" and "set order = known crtc_ok connector_ok env"
  shows "(\<forall>x. count_list (card_gone managed order) (Kfree x) \<le> 1) \<and>
    (\<forall>x. Kfree x \<in> set (card_gone managed order) \<longrightarrow> x \<in> allocated env) \<and>
    leaked env (card_gone managed order) = allocated env \<inter> ({PrimaryPlane, CursorPlane} \<union>
      (if crtc_ok then {} else {CrtcObject}) \<union> (if connector_ok then {} else {ConnectorObject}))"
proof -
  have f: "Kfree x \<in> set (card_gone managed order) \<longleftrightarrow> x \<in> set order \<and> x \<notin> {PrimaryPlane, CursorPlane}" for x
    by (auto simp: card_gone_eq frees)
  have "count_list (card_gone managed order) (Kfree x) \<le> 1" for x
    using cleaned_order [OF assms(1)] by (simp add: card_gone_eq)
  moreover have "Kfree x \<in> set (card_gone managed order) \<longrightarrow> x \<in> allocated env" for x
    using f [of x] assms(2) by (auto simp: known_def)
  moreover have "leaked env (card_gone managed order) = allocated env \<inter> ({PrimaryPlane, CursorPlane} \<union>
      (if crtc_ok then {} else {CrtcObject}) \<union> (if connector_ok then {} else {ConnectorObject}))"
    unfolding leaked_def f assms(2) known_def by auto
  ultimately show ?thesis by blast
qed

definition working_env :: modeset_env where
  "working_env = \<lparr>me_crtc = True, me_primary = (True, Inr 1), me_cursor = (True, Inr 2), me_encoder = (True, Inr 3),
     me_connector = Some 4\<rparr>"

theorem teardown_leaks_planes_witness:
  "leaked working_env (card_gone True [EncoderObject, ConnectorObject, CursorPlane, PrimaryPlane, CrtcObject])
     = {PrimaryPlane, CursorPlane}"
proof -
  have a: "allocated working_env = {CrtcObject, PrimaryPlane, CursorPlane, EncoderObject, ConnectorObject}"
    by (auto simp: allocated_def working_env_def evdi_create_plane_def evdi_encoder_init_def)
  show ?thesis
    using teardown_leaks_planes [of "[EncoderObject, ConnectorObject, CursorPlane, PrimaryPlane, CrtcObject]" True True
        working_env True] by (auto simp: known_def a)
qed

end
